(* ===== verification/Prelude.thy ===== *)
theory Prelude
  imports Main "HOL-Library.Signed_Division" "HOL-Library.List_Lexorder"
    "HOL-Library.Product_Lexorder" "HOL-Library.Char_ord"
begin

text \<open>
  Shared vocabulary of the development.

  \<^item> Time. Go's \<^verbatim>\<open>time.Time\<close> and PostgreSQL's \<^verbatim>\<open>timestamptz\<close> are instants counted in
    nanoseconds since the Unix epoch, \<^verbatim>\<open>time.Duration\<close> is a nanosecond count; both are \<open>int\<close>.
    \<open>wrap64\<close> is the value an int64 computation really has; it is written out where the code's
    arithmetic can leave the range.
  \<^item> Tables. A PostgreSQL table is the list of its rows. \<open>sql_update\<close>, \<open>sql_delete\<close>,
    \<open>rows_affected\<close> and \<open>lookup_row\<close> are the statements the repositories issue:
    \<^verbatim>\<open>UPDATE .. SET .. WHERE\<close>, \<^verbatim>\<open>DELETE .. WHERE\<close>, \<^verbatim>\<open>RowsAffected\<close> and a
    primary-key \<^verbatim>\<open>SELECT\<close>. A primary key is \<open>keyed\<close>: distinct key values.
  \<^item> Ordered queries use \<open>sort_key\<close> over the lexicographic orders on pairs and strings of the
    library (\<^verbatim>\<open>ORDER BY a, b\<close>; uuid comparison is the lexicographic order of its hex text).
\<close>

named_theorems sql_simps "rewriting of table statements"
named_theorems pres_intros "preservation of table invariants by the repository operations"

type_synonym time = int
type_synonym duration = int

abbreviation microsecond :: duration where "microsecond \<equiv> 1000"
abbreviation millisecond :: duration where "millisecond \<equiv> 1000000"
abbreviation second :: duration where "second \<equiv> 1000000000"
abbreviation minute :: duration where "minute \<equiv> 60 * 1000000000"
abbreviation hour :: duration where "hour \<equiv> 3600 * 1000000000"

section \<open>64-bit signed arithmetic\<close>

definition int64_min :: int where "int64_min = - (2 ^ 63)"
definition int64_max :: int where "int64_max = 2 ^ 63 - 1"

definition wrap64 :: "int \<Rightarrow> int" where
  "wrap64 x = (x + 2 ^ 63) mod 2 ^ 64 - 2 ^ 63"

lemma wrap64_id [simp]: "int64_min \<le> x \<Longrightarrow> x \<le> int64_max \<Longrightarrow> wrap64 x = x"
  by (simp add: wrap64_def int64_min_def int64_max_def)

lemma wrap64_range: "int64_min \<le> wrap64 x \<and> wrap64 x \<le> int64_max"
proof -
  have "0 \<le> (x + 2 ^ 63) mod (2 ^ 64 :: int)" and "(x + 2 ^ 63) mod (2 ^ 64 :: int) < 2 ^ 64"
    by (simp_all only: pos_mod_sign pos_mod_bound zero_less_power zero_less_numeral)
  then show ?thesis by (simp add: wrap64_def int64_min_def int64_max_def)
qed

text \<open>Go's integer division truncates towards zero: \<open>sdiv\<close> of the library.\<close>

lemma sdiv_nonneg [simp]: "0 \<le> a \<Longrightarrow> 0 < b \<Longrightarrow> a sdiv b = a div b" for a b :: int
  by (auto simp: signed_divide_int_def sgn_if)

section \<open>Tables\<close>

definition sql_update :: "('r \<Rightarrow> bool) \<Rightarrow> ('r \<Rightarrow> 'r) \<Rightarrow> 'r list \<Rightarrow> 'r list" where
  "sql_update P f t = map (\<lambda>r. if P r then f r else r) t"

definition sql_delete :: "('r \<Rightarrow> bool) \<Rightarrow> 'r list \<Rightarrow> 'r list" where
  "sql_delete P t = filter (\<lambda>r. \<not> P r) t"

definition rows_affected :: "('r \<Rightarrow> bool) \<Rightarrow> 'r list \<Rightarrow> nat" where
  "rows_affected P t = length (filter P t)"

definition sql_insert :: "'r \<Rightarrow> 'r list \<Rightarrow> 'r list" where
  "sql_insert r t = t @ [r]"

definition lookup_row :: "('r \<Rightarrow> 'k) \<Rightarrow> 'k \<Rightarrow> 'r list \<Rightarrow> 'r option" where
  "lookup_row k i t = find (\<lambda>r. k r = i) t"

definition keyed :: "('r \<Rightarrow> 'k) \<Rightarrow> 'r list \<Rightarrow> bool" where
  "keyed k t \<longleftrightarrow> distinct (map k t)"

lemma set_sql_update [sql_simps]:
  "set (sql_update P f t) = (\<lambda>r. if P r then f r else r) ` set t"
  by (simp add: sql_update_def)

lemma in_sql_update:
  "r \<in> set (sql_update P f t) \<longleftrightarrow> (\<exists>r0 \<in> set t. r = (if P r0 then f r0 else r0))"
  by (auto simp: sql_update_def)

lemma set_sql_delete [sql_simps]: "set (sql_delete P t) = {r \<in> set t. \<not> P r}"
  by (auto simp: sql_delete_def)

lemma set_sql_insert [sql_simps]: "set (sql_insert r t) = insert r (set t)"
  by (simp add: sql_insert_def)

lemma rows_affected_0 [sql_simps]: "rows_affected P t = 0 \<longleftrightarrow> (\<forall>r \<in> set t. \<not> P r)"
  by (auto simp: rows_affected_def filter_empty_conv)

lemma rows_affected_pos [sql_simps]: "0 < rows_affected P t \<longleftrightarrow> (\<exists>r \<in> set t. P r)"
  using rows_affected_0 [of P t] by auto

lemma sql_update_none: "\<forall>r \<in> set t. \<not> P r \<Longrightarrow> sql_update P f t = t"
  by (simp add: sql_update_def map_idI)

lemma sql_update_ids [simp]: "(\<And>r. k (f r) = k r) \<Longrightarrow> map k (sql_update P f t) = map k t"
  by (simp add: sql_update_def)

lemma keyed_update [pres_intros]: "(\<And>r. k (f r) = k r) \<Longrightarrow> keyed k t \<Longrightarrow> keyed k (sql_update P f t)"
  by (simp add: keyed_def)

lemma keyed_delete [pres_intros]: "keyed k t \<Longrightarrow> keyed k (sql_delete P t)"
  by (simp add: keyed_def sql_delete_def distinct_map_filter)

lemma keyed_insert: "keyed k (sql_insert r t) \<longleftrightarrow> k r \<notin> k ` set t \<and> keyed k t"
  by (auto simp: keyed_def sql_insert_def)

lemma keyed_unique: "keyed k t \<Longrightarrow> r \<in> set t \<Longrightarrow> r' \<in> set t \<Longrightarrow> k r = k r' \<Longrightarrow> r = r'"
  by (auto simp: keyed_def distinct_map inj_on_def)

lemma lookup_row_SomeD: "lookup_row k i t = Some r \<Longrightarrow> r \<in> set t \<and> k r = i"
  by (auto simp: lookup_row_def find_Some_iff)

lemma lookup_row_None: "lookup_row k i t = None \<longleftrightarrow> (\<forall>r \<in> set t. k r \<noteq> i)"
  by (auto simp: lookup_row_def find_None_iff)

lemma lookup_row_eq: "keyed k t \<Longrightarrow> lookup_row k i t = Some r \<longleftrightarrow> r \<in> set t \<and> k r = i"
proof
  assume *: "keyed k t" "r \<in> set t \<and> k r = i"
  then obtain r' where r': "lookup_row k i t = Some r'"
    by (cases "lookup_row k i t") (auto simp: lookup_row_None)
  with lookup_row_SomeD [OF r'] * keyed_unique [OF *(1)] show "lookup_row k i t = Some r"
    by blast
qed (rule lookup_row_SomeD)

text \<open>An \<^verbatim>\<open>UPDATE\<close> addressed by primary key touches at most one row.\<close>

lemma rows_affected_key: "keyed k t \<Longrightarrow> rows_affected (\<lambda>r. k r = i \<and> P r) t \<le> 1"
proof (induction t)
  case Nil
  then show ?case by (simp add: rows_affected_def)
next
  case (Cons r t)
  then have IH: "rows_affected (\<lambda>r. k r = i \<and> P r) t \<le> 1" and new: "k r \<notin> k ` set t"
    by (auto simp: keyed_def)
  show ?case
  proof (cases "k r = i \<and> P r")
    case True
    with new have "rows_affected (\<lambda>r. k r = i \<and> P r) t = 0"
      unfolding rows_affected_0 by (metis image_eqI)
    then show ?thesis by (simp add: rows_affected_def)
  qed (use IH in \<open>auto simp: rows_affected_def\<close>)
qed

lemma rows_affected_key_1:
  "keyed k t \<Longrightarrow> rows_affected (\<lambda>r. k r = i \<and> P r) t = 1 \<longleftrightarrow>
     (\<exists>r. lookup_row k i t = Some r \<and> P r)"
  using rows_affected_key [of k t i P] rows_affected_pos [of "\<lambda>r. k r = i \<and> P r" t]
    lookup_row_eq [of k t i]
  by (auto simp: le_Suc_eq)

lemma lookup_row_update:
  assumes "\<And>r. k (f r) = k r"
  shows "lookup_row k i (sql_update P f t) =
    map_option (\<lambda>r. if P r then f r else r) (lookup_row k i t)"
  using assms by (induction t) (auto simp: lookup_row_def sql_update_def)

lemma lookup_row_insert:
  "lookup_row k i (sql_insert r t) =
     (case lookup_row k i t of Some r' \<Rightarrow> Some r' | None \<Rightarrow> if k r = i then Some r else None)"
  by (induction t) (auto simp: lookup_row_def sql_insert_def)

section \<open>Lists and options\<close>

lemma find_filter: "find P (filter Q xs) = find (\<lambda>x. Q x \<and> P x) xs"
  by (induction xs) auto

lemma set_takeD: "x \<in> set (take n xs) \<Longrightarrow> x \<in> set xs"
  by (meson in_set_takeD)

section \<open>Invariants of transition systems\<close>

text \<open>The interface every step relation of the development meets: its steps keep an invariant, so
  every run does.\<close>

locale step_invariant =
  fixes step :: "'s \<Rightarrow> 's \<Rightarrow> bool" and I :: "'s \<Rightarrow> bool"
  assumes step_pres: "I s \<Longrightarrow> step s s' \<Longrightarrow> I s'"
begin

lemma run_pres: "step\<^sup>*\<^sup>* s s' \<Longrightarrow> I s \<Longrightarrow> I s'"
  by (induction rule: rtranclp_induct) (auto intro: step_pres)

text \<open>A relation that every step from an invariant state has, is reflexive and composes, holds
  between the ends of every run.\<close>

lemma run_relates:
  assumes run: "step\<^sup>*\<^sup>* s s'" and I: "I s"
    and refl: "\<And>s. I s \<Longrightarrow> R s s" and trans: "\<And>a b c. I a \<Longrightarrow> I b \<Longrightarrow> R a b \<Longrightarrow> step b c \<Longrightarrow> R b c \<Longrightarrow> R a c"
    and one: "\<And>s s'. I s \<Longrightarrow> step s s' \<Longrightarrow> R s s'"
  shows "R s s'"
  using run
proof (induction rule: rtranclp_induct)
  case base
  show ?case using I by (rule refl)
next
  case (step b c)
  have "I b" using run_pres [OF step.hyps(1) I] .
  then show ?case using trans [OF I] one step by blast
qed

end

text \<open>A detailed system that follows an abstract one: each of its steps is a run of the abstract system between
  the abstractions of its ends. What the abstract system never reaches, the detailed one does not reach.\<close>

locale simulation = step_invariant step I for step :: "'s \<Rightarrow> 's \<Rightarrow> bool" and I :: "'s \<Rightarrow> bool" +
  fixes astep :: "'a \<Rightarrow> 'a \<Rightarrow> bool" and abs :: "'s \<Rightarrow> 'a"
  assumes step_sim: "I s \<Longrightarrow> step s s' \<Longrightarrow> astep\<^sup>*\<^sup>* (abs s) (abs s')"
begin

lemma run_sim: "step\<^sup>*\<^sup>* s s' \<Longrightarrow> I s \<Longrightarrow> astep\<^sup>*\<^sup>* (abs s) (abs s')"
proof (induction rule: rtranclp_induct)
  case (step b c)
  have "I b" using run_pres [OF step.hyps(1) step.prems] .
  then show ?case using step by (meson rtranclp_trans step_sim)
qed simp

end

end
