(* ===== verification/Utf8.thy ===== *)
theory Utf8
  imports Prelude
begin

text \<open>
  The part of Go's string model the service relies on. A Go string is a byte sequence, a
  \<open>string\<close> here (a \<open>char\<close> is one byte), so \<open>length\<close> is Go's \<^verbatim>\<open>len\<close>. The functions of
  \<^verbatim>\<open>unicode/utf8\<close> and \<^verbatim>\<open>strings\<close> that the sources call are defined from their documented
  behaviour: \<open>decode_rune\<close> (the width of the leading rune, \<open>None\<close> for an invalid leading
  sequence, which \<^verbatim>\<open>DecodeRune\<close> reports as width 1), \<open>ValidString\<close>,
  \<open>RuneCountInString\<close>, \<open>ToValidUTF8\<close>, \<open>TrimSpace\<close>, \<open>HasPrefix\<close>,
  \<open>TrimPrefix\<close>.
  The lemmas give what truncation at a byte limit needs: every byte prefix of a valid string has
  a valid prefix at most three bytes shorter.
\<close>

definition byte :: "char \<Rightarrow> nat" where
  "byte c = of_char c"

lemma byte_lt: "byte c < 256"
  by (simp add: byte_def)

definition is_cont :: "char \<Rightarrow> bool" where
  "is_cont c \<longleftrightarrow> 128 \<le> byte c \<and> byte c \<le> 191"

text \<open>Accepted second bytes of three and four byte sequences, by leading byte.\<close>

definition second3_ok :: "nat \<Rightarrow> char \<Rightarrow> bool" where
  "second3_ok b c \<longleftrightarrow>
     (if b = 224 then 160 \<le> byte c \<and> byte c \<le> 191
      else if b = 237 then 128 \<le> byte c \<and> byte c \<le> 159
      else is_cont c)"

definition second4_ok :: "nat \<Rightarrow> char \<Rightarrow> bool" where
  "second4_ok b c \<longleftrightarrow>
     (if b = 240 then 144 \<le> byte c \<and> byte c \<le> 191
      else if b = 244 then 128 \<le> byte c \<and> byte c \<le> 143
      else is_cont c)"

definition decode_rune :: "string \<Rightarrow> nat option" where
  "decode_rune s = (case s of
     [] \<Rightarrow> None
   | c # cs \<Rightarrow>
      (let b = byte c in
       if b < 128 then Some 1
       else if b < 194 then None
       else if b < 224 then
         (case cs of c1 # _ \<Rightarrow> if is_cont c1 then Some 2 else None | _ \<Rightarrow> None)
       else if b < 240 then
         (case cs of c1 # c2 # _ \<Rightarrow> if second3_ok b c1 \<and> is_cont c2 then Some 3 else None
                   | _ \<Rightarrow> None)
       else if b < 245 then
         (case cs of c1 # c2 # c3 # _ \<Rightarrow>
             if second4_ok b c1 \<and> is_cont c2 \<and> is_cont c3 then Some 4 else None
           | _ \<Rightarrow> None)
       else None))"

lemma decode_rune_bounds: "decode_rune s = Some n \<Longrightarrow> 1 \<le> n \<and> n \<le> 4 \<and> n \<le> length s"
  by (auto simp: decode_rune_def Let_def split: list.splits if_splits)

lemma decode_rune_Nil [simp]: "decode_rune [] = None"
  by (simp add: decode_rune_def)

lemma decode_rune_take:
  assumes "decode_rune s = Some n" and "n \<le> m"
  shows "decode_rune (take m s) = Some n"
proof -
  from assms obtain c cs where s: "s = c # cs"
    by (cases s) auto
  from assms have "1 \<le> n" by (auto dest: decode_rune_bounds)
  with assms(2) obtain m' where m: "m = Suc m'" by (cases m) auto
  from assms s m show ?thesis
    by (auto simp: decode_rune_def Let_def take_Cons' split: list.splits if_splits)
qed

function ValidString :: "string \<Rightarrow> bool" where
  "ValidString s =
     (if s = [] then True
      else case decode_rune s of None \<Rightarrow> False | Some n \<Rightarrow> ValidString (drop n s))"
  by pat_completeness auto
termination
  by (relation "measure length") (auto dest: decode_rune_bounds)

function RuneCountInString :: "string \<Rightarrow> nat" where
  "RuneCountInString s =
     (if s = [] then 0
      else Suc (RuneCountInString (drop (case decode_rune s of None \<Rightarrow> 1 | Some n \<Rightarrow> n) s)))"
  by pat_completeness auto
termination
  by (relation "measure length") (auto dest: decode_rune_bounds split: option.splits)

declare ValidString.simps [simp del] RuneCountInString.simps [simp del]

lemma ValidString_Nil [simp]: "ValidString []"
  by (simp add: ValidString.simps)

lemma ValidString_step: "decode_rune s = Some n \<Longrightarrow> ValidString s \<longleftrightarrow> ValidString (drop n s)"
  by (subst ValidString.simps) auto

lemma RuneCount_Nil [simp]: "RuneCountInString [] = 0"
  by (simp add: RuneCountInString.simps)

lemma RuneCount_le_length: "RuneCountInString s \<le> length s"
proof (induction s rule: RuneCountInString.induct)
  case (1 s)
  show ?case
  proof (cases "s = []")
    case False
    let ?n = "case decode_rune s of None \<Rightarrow> 1 | Some n \<Rightarrow> n"
    from False have "1 \<le> ?n" by (auto split: option.splits dest: decode_rune_bounds)
    moreover from False have "?n \<le> length s"
      by (auto split: option.splits dest: decode_rune_bounds simp: Suc_le_eq)
    moreover from False have "RuneCountInString (drop ?n s) \<le> length (drop ?n s)" by (rule 1)
    ultimately show ?thesis
      using False by (subst RuneCountInString.simps) (auto simp del: length_greater_0_conv)
  qed simp
qed

text \<open>ASCII strings are valid and have one rune per byte.\<close>

definition ascii :: "string \<Rightarrow> bool" where
  "ascii s \<longleftrightarrow> (\<forall>c \<in> set s. byte c < 128)"

lemma ascii_Cons [simp]: "ascii (c # s) \<longleftrightarrow> byte c < 128 \<and> ascii s"
  by (simp add: ascii_def)

lemma ascii_Nil [simp]: "ascii []"
  by (simp add: ascii_def)

lemma ascii_decode: "byte c < 128 \<Longrightarrow> decode_rune (c # s) = Some 1"
  by (simp add: decode_rune_def)

lemma ascii_valid: "ascii s \<Longrightarrow> ValidString s"
  by (induction s) (auto simp: ValidString.simps ascii_decode)

lemma ascii_RuneCount: "ascii s \<Longrightarrow> RuneCountInString s = length s"
proof (induction s)
  case (Cons c s)
  then show ?case by (subst RuneCountInString.simps) (simp add: ascii_decode)
qed simp

subsection \<open>Prefixes of valid strings\<close>

lemma ValidString_take_close:
  assumes "ValidString s" and "m \<le> length s"
  shows "\<exists>k. k \<le> m \<and> m \<le> k + 3 \<and> ValidString (take k s)"
  using assms
proof (induction s arbitrary: m rule: ValidString.induct)
  case (1 s)
  show ?case
  proof (cases "s = []")
    case True
    with 1 show ?thesis by (auto intro: exI [of _ 0])
  next
    case False
    with "1.prems"(1) obtain n where n: "decode_rune s = Some n"
      by (subst (asm) ValidString.simps) (auto split: option.splits)
    note b = decode_rune_bounds [OF n]
    show ?thesis
    proof (cases "n \<le> m")
      case False
      with b show ?thesis by (intro exI [of _ 0]) auto
    next
      case True
      from "1.prems"(1) n have v: "ValidString (drop n s)"
        by (simp add: ValidString_step)
      have "m - n \<le> length (drop n s)" using "1.prems"(2) by simp
      from "1.IH" [OF False n v this] obtain k where
        k: "k \<le> m - n" "m - n \<le> k + 3" "ValidString (take k (drop n s))" by blast
      have "decode_rune (take (n + k) s) = Some n"
        using n by (rule decode_rune_take) simp
      moreover have "drop n (take (n + k) s) = take k (drop n s)"
        by (simp add: take_drop add.commute)
      ultimately have "ValidString (take (n + k) s)"
        using k(3) by (simp add: ValidString_step)
      with True k show ?thesis by (intro exI [of _ "n + k"]) auto
    qed
  qed
qed

subsection \<open>Replacing invalid bytes\<close>

text \<open>\<^verbatim>\<open>strings.ToValidUTF8\<close>: a maximal run of invalid bytes becomes one replacement. The flag
  says that the previous byte was invalid.\<close>

function to_valid_aux :: "bool \<Rightarrow> string \<Rightarrow> string \<Rightarrow> string" where
  "to_valid_aux bad s repl =
     (if s = [] then []
      else case decode_rune s of
        None \<Rightarrow> (if bad then [] else repl) @ to_valid_aux True (drop 1 s) repl
      | Some n \<Rightarrow> take n s @ to_valid_aux False (drop n s) repl)"
  by pat_completeness auto
termination
  by (relation "measure (\<lambda>(_, s, _). length s)") (auto dest: decode_rune_bounds)

declare to_valid_aux.simps [simp del]

definition ToValidUTF8 :: "string \<Rightarrow> string \<Rightarrow> string" where
  "ToValidUTF8 s repl = to_valid_aux False s repl"

lemma decode_rune_append: "decode_rune s = Some n \<Longrightarrow> decode_rune (s @ t) = Some n"
  by (cases s) (auto simp: decode_rune_def Let_def split: list.splits if_splits)

lemma ValidString_append: "ValidString s \<Longrightarrow> ValidString t \<Longrightarrow> ValidString (s @ t)"
proof (induction s rule: ValidString.induct)
  case (1 s)
  show ?case
  proof (cases "s = []")
    case True
    with 1 show ?thesis by simp
  next
    case False
    with "1.prems"(1) obtain n where n: "decode_rune s = Some n"
      by (subst (asm) ValidString.simps) (auto split: option.splits)
    note b = decode_rune_bounds [OF n]
    from "1.prems"(1) n have "ValidString (drop n s)" by (simp add: ValidString_step)
    with "1.IH" [OF False n] "1.prems"(2) have v: "ValidString (drop n s @ t)" by simp
    have "decode_rune (s @ t) = Some n"
      using n by (rule decode_rune_append)
    moreover have "drop n (s @ t) = drop n s @ t" using b by simp
    ultimately show ?thesis using v by (simp add: ValidString_step)
  qed
qed

lemma ValidString_rune: "decode_rune s = Some n \<Longrightarrow> ValidString (take n s)"
  using ValidString_step [of "take n s" n] decode_rune_take [of s n n] by simp

lemma ToValidUTF8_valid:
  assumes "ValidString repl"
  shows "ValidString (to_valid_aux bad s repl)"
  using assms
proof (induction bad s repl rule: to_valid_aux.induct)
  case (1 bad s repl)
  then show ?case
    by (subst to_valid_aux.simps)
      (auto split: option.splits intro!: ValidString_append ValidString_rune)
qed

lemma to_valid_id: "ValidString s \<Longrightarrow> to_valid_aux bad s repl = s"
proof (induction bad s repl rule: to_valid_aux.induct)
  case (1 bad s repl)
  show ?case
  proof (cases "s = []")
    case False
    with "1.prems" obtain n where n: "decode_rune s = Some n"
      by (subst (asm) ValidString.simps) (auto split: option.splits)
    with "1.prems" have "ValidString (drop n s)" by (simp add: ValidString_step)
    with 1(2) [OF False n] n False show ?thesis
      by (subst to_valid_aux.simps) simp
  qed (subst to_valid_aux.simps, simp)
qed

section \<open>Trimming and prefixes\<close>

definition HasPrefix :: "string \<Rightarrow> string \<Rightarrow> bool" where
  "HasPrefix s p \<longleftrightarrow> take (length p) s = p"

text \<open>\<^verbatim>\<open>strings.TrimSpace\<close> removes leading and trailing white space runes; \<open>space_runes\<close>
  are the UTF-8 encodings of the runes for which \<^verbatim>\<open>unicode.IsSpace\<close> holds.\<close>

definition space_runes :: "string list" where
  "space_runes = map (map char_of)
     [[9::nat], [10], [11], [12], [13], [32], [194, 133], [194, 160], [225, 154, 128],
      [226, 128, 128], [226, 128, 129], [226, 128, 130], [226, 128, 131], [226, 128, 132],
      [226, 128, 133], [226, 128, 134], [226, 128, 135], [226, 128, 136], [226, 128, 137],
      [226, 128, 138], [226, 128, 168], [226, 128, 169], [226, 128, 175], [226, 129, 159],
      [227, 128, 128]]"

function trim_left :: "string list \<Rightarrow> string \<Rightarrow> string" where
  "trim_left ps s =
     (case find (\<lambda>p. p \<noteq> [] \<and> HasPrefix s p) ps of
        None \<Rightarrow> s
      | Some p \<Rightarrow> trim_left ps (drop (length p) s))"
  by pat_completeness auto
termination
  by (relation "measure (\<lambda>(_, s). length s)")
    (auto simp: find_Some_iff HasPrefix_def intro!: diff_less)

declare trim_left.simps [simp del]

definition TrimSpace :: "string \<Rightarrow> string" where
  "TrimSpace s = rev (trim_left (map rev space_runes) (rev (trim_left space_runes s)))"

lemma trim_left_Nil [simp]: "trim_left ps [] = []"
proof -
  have "find (\<lambda>p. p \<noteq> [] \<and> HasPrefix [] p) ps = None"
    by (auto simp: find_None_iff HasPrefix_def)
  then show ?thesis by (simp add: trim_left.simps)
qed

lemma TrimSpace_Nil [simp]: "TrimSpace [] = []"
  by (simp add: TrimSpace_def)

definition TrimPrefix :: "string \<Rightarrow> string \<Rightarrow> string" where
  "TrimPrefix s p = (if HasPrefix s p then drop (length p) s else s)"

lemma HasPrefix_append [simp]: "HasPrefix (p @ s) p"
  by (simp add: HasPrefix_def)

lemma TrimPrefix_append [simp]: "TrimPrefix (p @ s) p = s"
  by (simp add: TrimPrefix_def)

text \<open>A string that starts and ends with a printable ASCII character is trimmed already.\<close>

lemma trim_left_solid:
  assumes "\<forall>p \<in> set ps. p \<noteq> [] \<longrightarrow> hd p \<noteq> c"
  shows "trim_left ps (c # s) = c # s"
proof -
  have "\<not> (p \<noteq> [] \<and> HasPrefix (c # s) p)" if "p \<in> set ps" for p
    using assms that by (cases p) (auto simp: HasPrefix_def)
  then have "find (\<lambda>p. p \<noteq> [] \<and> HasPrefix (c # s) p) ps = None" by (auto simp: find_None_iff)
  then show ?thesis by (simp add: trim_left.simps)
qed

definition solid :: "char \<Rightarrow> bool" where
  "solid c \<longleftrightarrow> 33 \<le> byte c \<and> byte c \<le> 126"

lemma space_runes_hd: "p \<in> set space_runes \<Longrightarrow> solid c \<Longrightarrow> hd p \<noteq> c \<and> last p \<noteq> c \<and> p \<noteq> []"
  by (auto simp: space_runes_def solid_def byte_def)

lemma TrimSpace_solid:
  assumes "s \<noteq> []" and "solid (hd s)" and "solid (last s)"
  shows "TrimSpace s = s"
proof -
  have l: "trim_left space_runes s = s"
    using assms trim_left_solid [of space_runes "hd s" "tl s"] space_runes_hd by auto
  have "\<forall>p \<in> set (map rev space_runes). p \<noteq> [] \<longrightarrow> hd p \<noteq> last s"
    using assms(3) space_runes_hd by (auto simp: hd_rev)
  then have "trim_left (map rev space_runes) (last s # rev (butlast s)) = last s # rev (butlast s)"
    by (rule trim_left_solid)
  moreover have r: "last s # rev (butlast s) = rev s"
    using assms(1) by (metis append_butlast_last_id rev_eq_Cons_iff rev_rev_ident)
  ultimately have "trim_left (map rev space_runes) (rev s) = rev s" unfolding r by blast
  then show ?thesis unfolding TrimSpace_def l by (simp only: rev_rev_ident)
qed

end
