(* ===== verification/Domain.thy ===== *)
theory Domain
  imports Utf8
begin

text \<open>
  \<^verbatim>\<open>internal/domain\<close>: the entities, the sentinel errors and the value validators.
  Struct fields keep Go's names behind a prefix (\<open>S_\<close> subscription, \<open>D_\<close> delivery log,
  \<open>P_\<close> ingest parameters, \<open>R_\<close> ingest result), since both structs have an \<^verbatim>\<open>ID\<close>. A pointer
  field is an \<open>option\<close>. \<^verbatim>\<open>net/url.Parse\<close> is a parameter \<open>url_parse\<close>: it returns the parse
  error's text or the scheme and host of the URL; every theorem holds for any such function.
\<close>

section \<open>Errors\<close>

text \<open>The sentinels. A wrapped error (\<^verbatim>\<open>fmt.Errorf("%w: ..")\<close>) keeps its sentinel under
  \<^verbatim>\<open>errors.Is\<close>; \<open>ErrInvalidInput\<close> and \<open>ErrConflict\<close> carry the message, which handlers show.
  \<open>ErrOther\<close> is any error that wraps no sentinel, by the label its \<^verbatim>\<open>fmt.Errorf\<close> gives it.\<close>

datatype error =
    ErrNotFound
  | ErrConflict string
  | ErrInvalidInput string
  | ErrInactiveSubscription
  | ErrSignatureInvalid
  | ErrTimestampOutOfWindow
  | ErrQueueEmpty
  | ErrOther string

type_synonym 'a result = "error + 'a"

section \<open>Entities\<close>

datatype DeliveryStatus = StatusPending | StatusSuccess | StatusFailedAttempt | StatusFinalFailure

fun status_string :: "DeliveryStatus \<Rightarrow> string" where
  "status_string StatusPending = ''pending''"
| "status_string StatusSuccess = ''success''"
| "status_string StatusFailedAttempt = ''failed_attempt''"
| "status_string StatusFinalFailure = ''final_failure''"

lemma status_string_inject [simp]: "status_string a = status_string b \<longleftrightarrow> a = b"
  by (cases a; cases b) simp_all

record Subscription =
  S_ID :: string
  S_TargetURL :: string
  S_SecretKey :: string
  S_PreviousSecretKey :: string
  S_SecretRotatedAt :: "time option"
  S_EventTypes :: "string list"
  S_IsActive :: bool
  S_ConsecutiveFailures :: int
  S_CreatedAt :: time
  S_UpdatedAt :: time

record DeliveryLog =
  D_ID :: string
  D_WebhookID :: string
  D_SubscriptionID :: string
  D_TargetURL :: string
  D_Payload :: string
  D_EventType :: string
  D_AttemptNumber :: int
  D_ReplayNumber :: int
  D_Status :: DeliveryStatus
  D_HTTPStatus :: "int option"
  D_ErrorDetails :: string
  D_NextRetryAt :: "time option"
  D_InDLQ :: bool
  D_CreatedAt :: time
  D_UpdatedAt :: time

record IngestParams =
  P_SubscriptionID :: string
  P_IdempotencyKey :: string
  P_WebhookID :: string
  P_TargetURL :: string
  P_Payload :: string
  P_EventType :: string

record IngestResult =
  R_WebhookID :: string
  R_DeliveryLogID :: string
  R_Duplicate :: bool

text \<open>\<^verbatim>\<open>DuePending\<close> and \<^verbatim>\<open>RecoveryCursor\<close> carry the same two fields.\<close>

record DuePending =
  DP_ID :: string
  DP_DueAt :: time

record RecoveryCursor =
  RC_DueAt :: time
  RC_ID :: string

record Cursor =
  C_CreatedAt :: time
  C_ID :: string

record 'a Page =
  Items :: "'a list"
  NextCursor :: "Cursor option"

section \<open>Validation\<close>

definition MaxTargetURLLength :: nat where "MaxTargetURLLength = 2048"
definition MaxEventTypeLength :: nat where "MaxEventTypeLength = 100"

record url =
  url_scheme :: string
  url_host :: string

definition quoted :: "string \<Rightarrow> string" where
  "quoted s = [CHR 34] @ s @ [CHR 34]"

definition ValidateTargetURL ::
  "(string \<Rightarrow> string + url) \<Rightarrow> string \<Rightarrow> bool \<Rightarrow> unit result" where
  "ValidateTargetURL url_parse raw allowHTTP =
     (if TrimSpace raw = [] then
        Inl (ErrInvalidInput ''invalid input: target_url is required'')
      else if \<not> ValidString raw \<or> RuneCountInString raw > MaxTargetURLLength then
        Inl (ErrInvalidInput ''invalid input: target_url must be at most 2048 characters'')
      else case url_parse raw of
        Inl e \<Rightarrow> Inl (ErrInvalidInput (''invalid input: target_url is not a valid URL: '' @ e))
      | Inr u \<Rightarrow>
         (if url_host u = [] then
            Inl (ErrInvalidInput ''invalid input: target_url must be absolute with a host'')
          else if url_scheme u = ''https'' then Inr ()
          else if url_scheme u = ''http'' then
            (if allowHTTP then Inr ()
             else Inl (ErrInvalidInput ''invalid input: target_url must use https (set ALLOW_HTTP_URLS=true to permit http)''))
          else Inl (ErrInvalidInput
                 (''invalid input: target_url scheme '' @ quoted (url_scheme u) @ '' is not allowed''))))"

definition ValidateEventType :: "string \<Rightarrow> unit result" where
  "ValidateEventType eventType =
     (if \<not> ValidString eventType \<or> RuneCountInString eventType > MaxEventTypeLength then
        Inl (ErrInvalidInput ''invalid input: event_type must be at most 100 characters'')
      else Inr ())"

fun event_match :: "string list \<Rightarrow> string \<Rightarrow> bool" where
  "event_match [] eventType = False"
| "event_match (t # ts) eventType = (if t = eventType then True else event_match ts eventType)"

definition AcceptsEvent :: "Subscription \<Rightarrow> string \<Rightarrow> bool" where
  "AcceptsEvent s eventType =
     (if S_EventTypes s = [] then True else event_match (S_EventTypes s) eventType)"

lemma event_match_iff: "event_match ts e \<longleftrightarrow> e \<in> set ts"
  by (induction ts) auto

lemma AcceptsEvent_iff:
  "AcceptsEvent s e \<longleftrightarrow> S_EventTypes s = [] \<or> e \<in> set (S_EventTypes s)"
  by (simp add: AcceptsEvent_def event_match_iff)

lemma ValidateEventType_Inr:
  "ValidateEventType e = Inr () \<longleftrightarrow> ValidString e \<and> RuneCountInString e \<le> 100"
  by (auto simp: ValidateEventType_def MaxEventTypeLength_def)

lemma ValidateTargetURL_Inr:
  "ValidateTargetURL p raw allow = Inr () \<longleftrightarrow>
     TrimSpace raw \<noteq> [] \<and> ValidString raw \<and> RuneCountInString raw \<le> 2048 \<and>
     (\<exists>u. p raw = Inr u \<and> url_host u \<noteq> [] \<and>
          (url_scheme u = ''https'' \<or> (url_scheme u = ''http'' \<and> allow)))"
  by (auto simp: ValidateTargetURL_def MaxTargetURLLength_def split: sum.splits)

section \<open>UUID text\<close>

definition is_hex :: "char \<Rightarrow> bool" where
  "is_hex c \<longleftrightarrow> (byte (CHR ''0'') \<le> byte c \<and> byte c \<le> byte (CHR ''9''))
     \<or> (byte (CHR ''a'') \<le> byte c \<and> byte c \<le> byte (CHR ''f''))
     \<or> (byte (CHR ''A'') \<le> byte c \<and> byte c \<le> byte (CHR ''F''))"

definition dash_pos :: "nat \<Rightarrow> bool" where
  "dash_pos i \<longleftrightarrow> i = 8 \<or> i = 13 \<or> i = 18 \<or> i = 23"

text \<open>\<^verbatim>\<open>for i := range s\<close> steps over runes: the loop index moves by the width of the leading rune
  (1 for an invalid byte).\<close>

function uuid_loop :: "nat \<Rightarrow> string \<Rightarrow> bool" where
  "uuid_loop i s =
     (if s = [] then True
      else if dash_pos i \<or> is_hex (hd s) then
        (let w = (case decode_rune s of None \<Rightarrow> 1 | Some n \<Rightarrow> n) in uuid_loop (i + w) (drop w s))
      else False)"
  by pat_completeness auto
termination
  by (relation "measure (\<lambda>(_, s). length s)")
    (auto dest: decode_rune_bounds split: option.splits)

declare uuid_loop.simps [simp del]

definition ValidUUID :: "string \<Rightarrow> bool" where
  "ValidUUID s =
     (if length s \<noteq> 36 \<or> s ! 8 \<noteq> CHR ''-'' \<or> s ! 13 \<noteq> CHR ''-'' \<or> s ! 18 \<noteq> CHR ''-''
         \<or> s ! 23 \<noteq> CHR ''-'' then False
      else uuid_loop 0 s)"

definition uuid_char_ok :: "nat \<Rightarrow> char \<Rightarrow> bool" where
  "uuid_char_ok i c \<longleftrightarrow> (if dash_pos i then c = CHR ''-'' else is_hex c)"

lemma uuid_char_ascii: "uuid_char_ok i c \<Longrightarrow> byte c < 128"
  by (auto simp: uuid_char_ok_def is_hex_def byte_def split: if_splits)

lemma uuid_loop_iff:
  assumes "\<forall>j < length s. dash_pos (i + j) \<longrightarrow> s ! j = CHR ''-''"
  shows "uuid_loop i s \<longleftrightarrow> (\<forall>j < length s. uuid_char_ok (i + j) (s ! j))"
  using assms
proof (induction s arbitrary: i)
  case Nil
  then show ?case by (simp add: uuid_loop.simps)
next
  case (Cons c s)
  have split: "(\<forall>j < length (c # s). uuid_char_ok (i + j) ((c # s) ! j)) \<longleftrightarrow>
      uuid_char_ok i c \<and> (\<forall>j < length s. uuid_char_ok (Suc i + j) (s ! j))"
    by (auto simp: less_Suc_eq_0_disj)
  from Cons.prems have "\<forall>j < length s. dash_pos (Suc i + j) \<longrightarrow> s ! j = CHR ''-''"
    by (force dest: spec [of _ "Suc _"])
  note IH = Cons.IH [OF this]
  from Cons.prems have d: "dash_pos i \<longrightarrow> c = CHR ''-''" by (auto dest: spec [of _ 0])
  show ?case
  proof (cases "uuid_char_ok i c")
    case True
    then have "decode_rune (c # s) = Some 1" by (intro ascii_decode uuid_char_ascii)
    moreover from True have "dash_pos i \<or> is_hex c" by (auto simp: uuid_char_ok_def split: if_splits)
    ultimately show ?thesis
      using True IH unfolding split by (subst uuid_loop.simps) simp
  next
    case False
    with d have "\<not> (dash_pos i \<or> is_hex c)" by (auto simp: uuid_char_ok_def split: if_splits)
    with False show ?thesis unfolding split by (subst uuid_loop.simps) simp
  qed
qed

lemma ValidUUID_iff:
  "ValidUUID s \<longleftrightarrow> length s = 36 \<and> (\<forall>j < 36. uuid_char_ok j (s ! j))"
proof (cases "length s = 36 \<and> s ! 8 = CHR ''-'' \<and> s ! 13 = CHR ''-'' \<and> s ! 18 = CHR ''-''
         \<and> s ! 23 = CHR ''-''")
  case True
  then have "\<forall>j < length s. dash_pos (0 + j) \<longrightarrow> s ! j = CHR ''-''"
    by (auto simp: dash_pos_def)
  from uuid_loop_iff [OF this] True show ?thesis by (simp add: ValidUUID_def)
next
  case False
  have "\<not> (length s = 36 \<and> (\<forall>j < 36. uuid_char_ok j (s ! j)))"
  proof
    assume *: "length s = 36 \<and> (\<forall>j < 36. uuid_char_ok j (s ! j))"
    have "uuid_char_ok 8 (s ! 8)" "uuid_char_ok 13 (s ! 13)" "uuid_char_ok 18 (s ! 18)"
      "uuid_char_ok 23 (s ! 23)"
      using * by auto
    with * False show False by (simp add: uuid_char_ok_def dash_pos_def)
  qed
  with False show ?thesis by (auto simp: ValidUUID_def)
qed

end
