(* ===== verification/Backoff.thy ===== *)
theory Backoff
  imports Domain
begin

text \<open>
  The pure helpers of \<^verbatim>\<open>internal/worker\<close>: the retry backoff (\<^verbatim>\<open>retry.go\<close>) and the truncation of error
  details (\<^verbatim>\<open>delivery.go\<close>), and the decimal printing both directions of the wire use.
\<close>

section \<open>Backoff\<close>

text \<open>The loop of \<open>retryDelay\<close>; the argument counts the iterations left.\<close>

fun backoff_loop :: "nat \<Rightarrow> duration \<Rightarrow> duration \<Rightarrow> duration" where
  "backoff_loop 0 delay mx = delay"
| "backoff_loop (Suc n) delay mx =
     (if delay < mx then
        (if delay > mx sdiv 3 then mx else backoff_loop n (wrap64 (delay * 3)) mx)
      else delay)"

text \<open>\<open>rnd n\<close> is \<^verbatim>\<open>rand.Int64N(n)\<close>: a value from 0 up to but not including \<open>n\<close>.\<close>

definition retryDelay :: "(int \<Rightarrow> int) \<Rightarrow> int \<Rightarrow> duration \<Rightarrow> duration \<Rightarrow> duration" where
  "retryDelay rnd attempt base mx =
     (let delay = backoff_loop (nat (attempt - 1)) base mx;
          jitter = delay sdiv 5
      in if jitter \<le> 0 then delay else wrap64 (delay - jitter + rnd (wrap64 (2 * jitter))))"

lemma backoff_loop_min:
  assumes "0 < delay" and "delay \<le> mx" and "mx \<le> int64_max"
  shows "backoff_loop n delay mx = min mx (delay * 3 ^ n)"
  using assms
proof (induction n arbitrary: delay)
  case 0
  then show ?case by simp
next
  case (Suc n)
  show ?case
  proof (cases "delay < mx")
    case False
    have "1 \<le> (3::int) ^ Suc n" by (rule one_le_power) simp
    then have "delay * 1 \<le> delay * 3 ^ Suc n" using Suc.prems(1) by (intro mult_left_mono) simp_all
    then show ?thesis using False Suc.prems by simp
  next
    case lt: True
    have s: "mx sdiv 3 = mx div 3" using Suc.prems by simp
    show ?thesis
    proof (cases "delay > mx div 3")
      case True
      then have "mx < delay * 3" by linarith
      also have "delay * 3 * 1 \<le> delay * 3 * 3 ^ n" using Suc.prems(1) by (intro mult_left_mono) simp_all
      then have "delay * 3 \<le> delay * 3 ^ Suc n" by (simp add: mult.assoc)
      finally show ?thesis using True lt s by simp
    next
      case False
      then have le: "delay * 3 \<le> mx" by linarith
      then have "wrap64 (delay * 3) = delay * 3" using Suc.prems by (simp add: int64_min_def)
      then show ?thesis using False lt s le Suc.prems Suc.IH [of "delay * 3"] by (simp add: mult.assoc)
    qed
  qed
qed

lemma retryDelay_between:
  assumes "0 < base" and "base \<le> mx" and "mx + mx div 5 \<le> int64_max" and "1 \<le> attempt"
    and rnd: "\<forall>n > 0. 0 \<le> rnd n \<and> rnd n < n"
    and d: "d = min mx (base * 3 ^ nat (attempt - 1))"
  shows "d - d div 5 \<le> retryDelay rnd attempt base mx \<and> retryDelay rnd attempt base mx \<le> d + d div 5
    \<and> 0 < retryDelay rnd attempt base mx"
proof -
  have mx: "mx \<le> int64_max" using assms(1-3) by linarith
  have loop: "backoff_loop (nat (attempt - 1)) base mx = d"
    using backoff_loop_min [OF assms(1,2) mx] d by simp
  have pos: "0 < d" using assms(1,2) d by simp
  have "d \<le> mx" using d by simp
  then have top: "d + d div 5 \<le> int64_max" using assms(3) by linarith
  let ?j = "d div 5"
  show ?thesis
  proof (cases "?j \<le> 0")
    case True
    then have "?j = 0" using pos by linarith
    then show ?thesis using loop pos by (simp add: retryDelay_def Let_def)
  next
    case False
    have "int64_min \<le> 2 * ?j" using False by (simp add: int64_min_def)
    moreover have "2 * ?j \<le> int64_max" using top pos by linarith
    ultimately have "wrap64 (2 * ?j) = 2 * ?j" by simp
    moreover have r: "0 \<le> rnd (2 * ?j)" "rnd (2 * ?j) < 2 * ?j" using rnd False by simp_all
    moreover have "wrap64 (d - ?j + rnd (2 * ?j)) = d - ?j + rnd (2 * ?j)"
      using r top pos False by (intro wrap64_id) (simp_all add: int64_min_def)
    ultimately have "retryDelay rnd attempt base mx = d - ?j + rnd (2 * ?j)"
      using loop pos False by (simp add: retryDelay_def Let_def)
    moreover have "0 < d - ?j" using pos by linarith
    ultimately show ?thesis using r by linarith
  qed
qed



text \<open>A cap near the end of int64 makes the delay negative: configuration only requires the cap to be at
  least the base, and with a cap of \<open>2 ^ 63 - 1\<close> nanoseconds the jitter can carry the sum past int64, so
  that the retry is scheduled in the past.\<close>

theorem retryDelay_overflow:
  "retryDelay (\<lambda>n. n - 1) 1 int64_max int64_max < 0"
  by (simp add: retryDelay_def Let_def int64_max_def wrap64_def)

section \<open>Truncation\<close>

function drop_partial :: "string \<Rightarrow> string" where
  "drop_partial s = (if ValidString s then s else drop_partial (butlast s))"
  by pat_completeness auto
termination
proof (relation "measure length")
  fix s assume "\<not> ValidString s"
  then have "s \<noteq> []" by auto
  then show "(butlast s, s) \<in> measure length" by (simp add: diff_less)
qed simp

declare drop_partial.simps [simp del]

definition replacement :: string where
  "replacement = [char_of (239::nat), char_of (191::nat), char_of (189::nat)]"

definition truncate_detail :: "string \<Rightarrow> nat \<Rightarrow> string" where
  "truncate_detail s0 n =
     (let s = ToValidUTF8 s0 replacement in if length s \<le> n then s else drop_partial (take n s))"

lemma replacement_valid: "ValidString replacement"
  by code_simp

lemma drop_partial_prefix: "\<exists>k. drop_partial s = take k s \<and> k \<le> length s"
proof (induction s rule: drop_partial.induct)
  case (1 s)
  show ?case
  proof (cases "ValidString s")
    case True
    then show ?thesis by (subst drop_partial.simps) (auto intro: exI [of _ "length s"])
  next
    case False
    from 1 [OF False] obtain k where k: "drop_partial (butlast s) = take k (butlast s)" "k \<le> length s - 1" by auto
    then have "drop_partial s = take k s" using False
      by (subst drop_partial.simps) (simp add: butlast_conv_take take_take min_def)
    with k show ?thesis by (intro exI [of _ k]) auto
  qed
qed

lemma drop_partial_valid: "ValidString (drop_partial s)"
proof (induction s rule: drop_partial.induct)
  case (1 s)
  then show ?case by (cases "ValidString s") (subst drop_partial.simps, simp)+
qed

lemma drop_partial_longest:
  "k \<le> length s \<Longrightarrow> ValidString (take k s) \<Longrightarrow> k \<le> length (drop_partial s)"
proof (induction s rule: drop_partial.induct)
  case (1 s)
  show ?case
  proof (cases "ValidString s")
    case True
    with 1 show ?thesis by (subst drop_partial.simps) simp
  next
    case False
    then have "k \<noteq> length s" using 1(3) by auto
    then have lt: "k < length s" using 1(2) by simp
    then have "k \<le> length (butlast s)" by simp
    moreover have "take k (butlast s) = take k s" using lt by (simp add: take_butlast)
    ultimately have "k \<le> length (butlast s)" "take k (butlast s) = take k s" .
    with 1(1) [OF False] 1(3) False show ?thesis by (subst drop_partial.simps) simp
  qed
qed

text \<open>Stored error details are valid text of bounded size: \<open>truncate_detail\<close> returns valid UTF-8 of at most \<open>n\<close>
  bytes, a prefix of the input once invalid bytes are replaced; a valid input that fits is unchanged,
  and of a longer one at most three bytes below the bound are given up.\<close>

theorem truncate_correct:
  "ValidString (truncate_detail s n) \<and> length (truncate_detail s n) \<le> n
    \<and> (\<exists>k. truncate_detail s n = take k (ToValidUTF8 s replacement))
    \<and> (ValidString s \<and> length s \<le> n \<longrightarrow> truncate_detail s n = s)
    \<and> (n < length (ToValidUTF8 s replacement) \<longrightarrow> n \<le> length (truncate_detail s n) + 3)"
proof -
  let ?s = "ToValidUTF8 s replacement"
  have v: "ValidString ?s" unfolding ToValidUTF8_def by (rule ToValidUTF8_valid [OF replacement_valid])
  have id: "ValidString s \<Longrightarrow> ?s = s" by (simp add: ToValidUTF8_def to_valid_id)
  show ?thesis
  proof (cases "length ?s \<le> n")
    case True
    then have "truncate_detail s n = ?s" by (simp add: truncate_detail_def)
    with True v id show ?thesis by (auto intro: exI [of _ "length ?s"])
  next
    case False
    then have t: "truncate_detail s n = drop_partial (take n ?s)" by (simp add: truncate_detail_def)
    obtain k where k: "drop_partial (take n ?s) = take k (take n ?s)" using drop_partial_prefix by blast
    obtain j where j: "j \<le> n" "n \<le> j + 3" "ValidString (take j ?s)"
      using ValidString_take_close [OF v, of n] False by auto
    have "j \<le> length (drop_partial (take n ?s))"
      using j False by (intro drop_partial_longest) (simp_all add: take_take min_def)
    then have "n \<le> length (truncate_detail s n) + 3" using j(2) t by simp
    moreover have "length (truncate_detail s n) \<le> n" using k t by simp
    moreover have "\<exists>k. truncate_detail s n = take k ?s" using k t by (metis take_take)
    ultimately show ?thesis using t drop_partial_valid id False by auto
  qed
qed

theorem truncate_correct_witness: "truncate_detail ''boom'' 512 = ''boom''"
proof -
  have "ValidString ''boom''" by code_simp
  with truncate_correct [of "''boom''" 512] show ?thesis by simp
qed

section \<open>Decimal numbers\<close>

definition digit :: "nat \<Rightarrow> char" where
  "digit n = char_of (48 + n)"

fun nat_str :: "nat \<Rightarrow> string" where
  "nat_str n = (if n < 10 then [digit n] else nat_str (n div 10) @ [digit (n mod 10)])"

declare nat_str.simps [simp del]

definition Itoa :: "int \<Rightarrow> string" where
  "Itoa i = (if i < 0 then ''-'' @ nat_str (nat (- i)) else nat_str (nat i))"

lemma nat_str_digits: "c \<in> set (nat_str n) \<Longrightarrow> 48 \<le> byte c \<and> byte c \<le> 57"
proof (induction n rule: nat_str.induct)
  case (1 n)
  have d: "48 \<le> byte (digit k) \<and> byte (digit k) \<le> 57" if "k < 10" for k
  proof -
    have "byte (digit k) = 48 + k" using that by (simp add: digit_def byte_def)
    then show ?thesis using that by simp
  qed
  show ?case
  proof (cases "n < 10")
    case True
    with 1(2) show ?thesis by (simp add: nat_str.simps d)
  next
    case False
    with 1(2) have "c \<in> set (nat_str (n div 10)) \<or> c = digit (n mod 10)" by (subst (asm) nat_str.simps) auto
    then show ?thesis using 1(1) [OF False] d [of "n mod 10"] by auto
  qed
qed

lemma Itoa_no_dot: "CHR ''.'' \<notin> set (Itoa i)"
proof
  assume "CHR ''.'' \<in> set (Itoa i)"
  then have "CHR ''.'' \<in> set (nat_str (nat \<bar>i\<bar>))" by (auto simp: Itoa_def split: if_splits)
  from nat_str_digits [OF this] show False by (simp add: byte_def)
qed

end
