(* ===== verification/Float64.thy ===== *)
theory Float64
  imports Prelude "HOL-Library.Log_Nat" Complex_Main
begin

text \<open>
  The float64 operations the program uses, on rationals. \<open>fl\<close> rounds a rational to the nearest
  number with a 53-bit significand, ties to even; an arithmetic operation of Go is \<open>fl\<close> of the
  exact result. Exponent overflow and subnormals are left out: every quantity here (durations in
  seconds or milliseconds, token counts) lies between \<open>2 powi (- 40)\<close> and \<open>2 powi 100\<close> or is 0.
  \<open>trunc\<close> is Go's conversion to int64, \<open>Round\<close> is \<^verbatim>\<open>math.Round\<close>.
\<close>

definition rne :: "rat \<Rightarrow> int" where
  "rne x = (let n = \<lfloor>x\<rfloor>; r = x - of_int n in
     if r < 1/2 then n else if r > 1/2 then n + 1 else if even n then n else n + 1)"

definition ilog2 :: "rat \<Rightarrow> int" where
  "ilog2 x = (let (a, b) = quotient_of x;
                  k = int (floorlog 2 (nat a)) - int (floorlog 2 (nat b))
              in if 2 powi k \<le> x then k else k - 1)"

definition ulp :: "rat \<Rightarrow> rat" where
  "ulp x = 2 powi (ilog2 x - 52)"

definition fl :: "rat \<Rightarrow> rat" where
  "fl x = (if x = 0 then 0
           else if x > 0 then of_int (rne (x / ulp x)) * ulp x
           else - (of_int (rne (- x / ulp (- x))) * ulp (- x)))"

definition trunc :: "rat \<Rightarrow> int" where
  "trunc x = (if x \<ge> 0 then \<lfloor>x\<rfloor> else - \<lfloor>- x\<rfloor>)"

definition Round :: "rat \<Rightarrow> int" where
  "Round x = (if x \<ge> 0 then \<lfloor>x + 1/2\<rfloor> else - \<lfloor>- x + 1/2\<rfloor>)"

lemma rne_err: "\<bar>of_int (rne x) - x\<bar> \<le> 1/2"
proof -
  have "of_int \<lfloor>x\<rfloor> \<le> x" "x < of_int \<lfloor>x\<rfloor> + 1" by linarith+
  then show ?thesis by (auto simp: rne_def Let_def abs_le_iff)
qed

lemma rne_int [simp]: "rne (of_int n) = n"
  by (simp add: rne_def Let_def)

lemma rne_nonneg: "0 \<le> x \<Longrightarrow> 0 \<le> rne x"
  by (auto simp: rne_def Let_def)

lemma floorlog_bounds: "0 < a \<Longrightarrow> 2 ^ (floorlog 2 a - 1) \<le> a \<and> a < 2 ^ floorlog 2 a \<and> 1 \<le> floorlog 2 a"
  by (metis floorlog_bounds floorlog_eq_zero_iff less_one linorder_not_less nat_less_le not_gr_zero one_less_numeral_iff semiring_norm(76))

lemma ilog2_le:
  assumes "0 < x"
  shows "2 powi ilog2 x \<le> x"
proof -
  obtain a b where q: "quotient_of x = (a, b)" by fastforce
  have b: "0 < b" using quotient_of_denom_pos [OF q] .
  have x: "x = of_int a / of_int b" using quotient_of_div [OF q] .
  with assms b have a: "0 < a" by (simp add: zero_less_divide_iff)
  let ?k = "floorlog 2 (nat a)" and ?l = "floorlog 2 (nat b)"
  have fa: "2 ^ (?k - 1) \<le> nat a" "1 \<le> ?k" and fb: "nat b < 2 ^ ?l" "1 \<le> ?l"
    using floorlog_bounds [of "nat a"] floorlog_bounds [of "nat b"] a b by auto
  have h: "2 ^ (?k - 1) \<le> a" using fa(1) a by (simp add: le_nat_iff)
  have "(2::rat) powi (int ?k - 1) = of_int (2 ^ (?k - 1))"
    using fa(2) by (simp add: power_int_def nat_diff_distrib)
  with h have A: "(2::rat) powi (int ?k - 1) \<le> of_int a" by (simp del: of_int_power)
  have "b < 2 ^ ?l" using fb(1) b by (metis nat_less_numeral_power_cancel_iff)
  then have B: "of_int b \<le> (2::rat) powi int ?l"
    by (metis of_int_le_iff of_int_numeral of_int_power order_less_imp_le power_int_of_nat)
  have "(2::rat) powi (int ?k - int ?l - 1) = 2 powi (int ?k - 1) / 2 powi int ?l"
    by (simp add: power_int_diff)
  also have "\<dots> \<le> of_int a / of_int b"
    using A B b a by (intro frac_le) (simp_all add: less_imp_le)
  finally have low: "(2::rat) powi (int ?k - int ?l - 1) \<le> x" by (simp add: x)
  show ?thesis using low by (simp add: ilog2_def q Let_def)
qed

lemma ulp_pos: "0 < ulp x"
  by (simp add: ulp_def)

lemma fl_pos_err:
  assumes "0 < x"
  shows "\<bar>fl x - x\<bar> \<le> x / 2 ^ 53"
proof -
  have "\<bar>of_int (rne (x / ulp x)) * ulp x - x\<bar> = \<bar>of_int (rne (x / ulp x)) - x / ulp x\<bar> * ulp x"
    using ulp_pos [of x] by (simp add: abs_mult_pos' algebra_simps flip: abs_mult_pos)
  also have "\<dots> \<le> 1/2 * ulp x" using rne_err ulp_pos by (intro mult_right_mono) (auto simp: less_imp_le)
  also have "1/2 * ulp x = 2 powi ilog2 x / 2 ^ 53"
    by (simp add: ulp_def power_int_diff)
  also have "\<dots> \<le> x / 2 ^ 53" using ilog2_le [OF assms] by (simp add: divide_right_mono)
  finally show ?thesis using assms by (simp add: fl_def)
qed

lemma fl_upper: "0 \<le> x \<Longrightarrow> fl x \<le> x * (1 + 1 / 2 ^ 53)"
proof (cases "x = 0")
  case False
  assume "0 \<le> x"
  with False have "fl x - x \<le> x / 2 ^ 53" using fl_pos_err [of x] abs_ge_self [of "fl x - x"] by linarith
  then show ?thesis by (simp add: algebra_simps)
qed (simp add: fl_def)

lemma fl_nonneg: "0 \<le> x \<Longrightarrow> 0 \<le> fl x"
  using ulp_pos [of x] by (auto simp: fl_def intro!: mult_nonneg_nonneg rne_nonneg)

lemma fl_pos: "0 < x \<Longrightarrow> 0 < fl x"
proof -
  assume "0 < x"
  then have "x - fl x \<le> x / 2 ^ 53" using fl_pos_err [of x] abs_ge_minus_self [of "fl x - x"] by linarith
  moreover have "x / 2 ^ 53 < x" using \<open>0 < x\<close> by simp
  ultimately show "0 < fl x" by linarith
qed

lemma fl_int:
  assumes "\<bar>n\<bar> < 2 ^ 53"
  shows "fl (of_int n) = of_int n"
proof -
  have pos: "fl (of_int m) = of_int m" if m: "0 < m" "m < 2 ^ 53" for m :: int
  proof -
    let ?x = "of_int m :: rat"
    have "2 powi ilog2 ?x \<le> ?x" using m by (intro ilog2_le) simp
    also have "?x < of_int (2 ^ 53)" using m by (simp only: of_int_less_iff)
    also have "(of_int (2 ^ 53) :: rat) = 2 powi 53" by simp
    finally have lt: "(2::rat) powi ilog2 ?x < 2 powi 53" .
    have "ilog2 ?x < 53"
    proof (rule ccontr)
      assume "\<not> ilog2 ?x < 53"
      then have "(2::rat) powi 53 \<le> 2 powi ilog2 ?x" by (intro power_int_increasing) auto
      with lt show False by simp
    qed
    then have "ilog2 ?x - 52 = - int (nat (52 - ilog2 ?x))" by simp
    then obtain j :: nat where j: "ilog2 ?x - 52 = - int j" by blast
    have u: "ulp ?x = 1 / 2 ^ j" unfolding ulp_def j by (simp add: power_int_minus divide_inverse)
    have "?x / ulp ?x = of_int (m * 2 ^ j)" unfolding u by simp
    then have "rne (?x / ulp ?x) = m * 2 ^ j" by (simp only: rne_int)
    moreover have "fl ?x = of_int (rne (?x / ulp ?x)) * ulp ?x" using m(1) by (simp add: fl_def)
    ultimately show ?thesis unfolding u by simp
  qed
  consider "n = 0" | "0 < n" | "n < 0" by linarith
  then show ?thesis
  proof cases
    case 3
    then have "fl (of_int (- n)) = of_int (- n)" using assms by (intro pos) auto
    with 3 show ?thesis by (simp add: fl_def)
  qed (use assms pos in \<open>auto simp: fl_def\<close>)
qed

lemma trunc_le: "0 \<le> x \<Longrightarrow> of_int (trunc x) \<le> x"
  by (simp add: trunc_def)

lemma trunc_nonneg: "0 \<le> x \<Longrightarrow> 0 \<le> trunc x"
  by (simp add: trunc_def)

section \<open>Durations\<close>

text \<open>\<^verbatim>\<open>Duration.Seconds\<close>: whole seconds and the rest are converted and added separately.\<close>

definition Seconds :: "duration \<Rightarrow> rat" where
  "Seconds d = fl (fl (of_int (d sdiv second)) + fl (fl (of_int (d smod second)) / 10 ^ 9))"

lemma smod_nonneg [simp]: "0 \<le> a \<Longrightarrow> 0 < b \<Longrightarrow> a smod b = a mod b" for a b :: int
  by (simp add: signed_modulo_int_def sgn_if mult.commute minus_mult_div_eq_mod [symmetric])

lemma Seconds_nonneg: "0 \<le> d \<Longrightarrow> 0 \<le> Seconds d"
  by (simp add: Seconds_def fl_nonneg pos_imp_zdiv_nonneg_iff)

lemma Seconds_pos:
  assumes "0 < d"
  shows "0 < Seconds d"
proof -
  have nn: "0 \<le> d div second" "0 \<le> d mod second" using assms by (simp_all add: pos_imp_zdiv_nonneg_iff)
  have "0 < d div second \<or> 0 < d mod second" using assms nn by (metis add_0 less_le mult_zero_left div_mult_mod_eq)
  then have "0 < fl (of_int (d div second)) + fl (fl (of_int (d mod second)) / 10 ^ 9)"
  proof
    assume "0 < d div second"
    then have "0 < fl (of_int (d div second))" by (intro fl_pos) simp
    moreover have "0 \<le> fl (fl (of_int (d mod second)) / 10 ^ 9)" using nn by (intro fl_nonneg) (simp add: fl_nonneg)
    ultimately show ?thesis by linarith
  next
    assume "0 < d mod second"
    then have "0 < fl (fl (of_int (d mod second)) / 10 ^ 9)" by (intro fl_pos) (simp add: fl_pos)
    moreover have "0 \<le> fl (of_int (d div second))" using nn by (intro fl_nonneg) simp
    ultimately show ?thesis by linarith
  qed
  then show ?thesis using assms by (simp add: Seconds_def fl_pos)
qed

lemma fl_scale: "0 \<le> x \<Longrightarrow> x \<le> y * k \<Longrightarrow> fl x \<le> y * (k * (1 + 1 / 2 ^ 53))"
  using fl_upper [of x] mult_right_mono [of x "y * k" "1 + 1 / 2 ^ 53"] by (simp add: mult.assoc)

lemma Seconds_upper:
  assumes "0 \<le> d"
  shows "Seconds d \<le> of_int d / 10 ^ 9 * (1 + 1 / 2 ^ 53) ^ 3"
proof -
  let ?k = "1 + 1 / 2 ^ 53 :: rat" and ?s = "of_int (d div second) :: rat" and ?n = "of_int (d mod second) :: rat"
  have nn: "0 \<le> ?s" "0 \<le> ?n" using assms by (simp_all add: pos_imp_zdiv_nonneg_iff)
  have "fl ?s \<le> ?s * ?k" using nn by (intro fl_upper)
  also have "\<dots> \<le> ?s * ?k ^ 2" using nn by (intro mult_left_mono) (simp_all add: power2_eq_square)
  finally have 1: "fl ?s \<le> ?s * ?k ^ 2" .
  have "fl ?n / 10 ^ 9 \<le> ?n / 10 ^ 9 * ?k" using fl_upper [OF nn(2)] by (simp add: divide_right_mono)
  then have "fl (fl ?n / 10 ^ 9) \<le> ?n / 10 ^ 9 * (?k * ?k)"
    using fl_nonneg [OF nn(2)] by (intro fl_scale) simp_all
  then have "fl ?s + fl (fl ?n / 10 ^ 9) \<le> (?s + ?n / 10 ^ 9) * ?k ^ 2"
    using 1 by (simp add: power2_eq_square algebra_simps)
  also have "?s + ?n / 10 ^ 9 = of_int d / 10 ^ 9"
  proof -
    have "(of_int d :: rat) = of_int (d div second * second + d mod second)" by simp
    also have "\<dots> = ?s * 10 ^ 9 + ?n" unfolding of_int_add of_int_mult by simp
    finally show ?thesis by simp
  qed
  finally have "fl (fl ?s + fl (fl ?n / 10 ^ 9)) \<le> of_int d / 10 ^ 9 * (?k ^ 2 * ?k)"
    using fl_nonneg [OF nn(1)] fl_nonneg [of "fl ?n / 10 ^ 9"] fl_nonneg [OF nn(2)] by (intro fl_scale) simp_all
  then show ?thesis using assms by (simp add: Seconds_def power3_eq_cube power2_eq_square mult.assoc)
qed

end
