(* ===== verification/Strconv.thy ===== *)
theory Strconv
  imports Backoff Float64
begin

text \<open>
  The parsers of Go's standard library the configuration and the HTTP layer call, from their
  documented grammar: \<^verbatim>\<open>strconv.Atoi\<close> and \<^verbatim>\<open>strconv.ParseInt(s, 10, 64)\<close>,
  \<^verbatim>\<open>strconv.ParseBool\<close>, \<^verbatim>\<open>time.ParseDuration\<close> (with its uint64 and float64 arithmetic) and
  \<^verbatim>\<open>strings.Split\<close> on one byte. An error is \<open>None\<close>. The lemmas relate the parser and the printer of
  integers in both directions.
\<close>

section \<open>Integers\<close>

definition is_digit :: "char \<Rightarrow> bool" where
  "is_digit c \<longleftrightarrow> 48 \<le> byte c \<and> byte c \<le> 57"

definition digit_val :: "char \<Rightarrow> int" where
  "digit_val c = int (byte c) - 48"

definition digits_val :: "string \<Rightarrow> int" where
  "digits_val ds = foldl (\<lambda>n c. n * 10 + digit_val c) 0 ds"

definition in_int64 :: "int \<Rightarrow> bool" where
  "in_int64 n \<longleftrightarrow> int64_min \<le> n \<and> n \<le> int64_max"

definition parse_digits :: "string \<Rightarrow> int option" where
  "parse_digits ds = (if ds \<noteq> [] \<and> list_all is_digit ds then Some (digits_val ds) else None)"

definition ParseInt :: "string \<Rightarrow> int option" where
  "ParseInt s =
     (let (neg, ds) = (case s of [] \<Rightarrow> (False, [])
            | c # cs \<Rightarrow> if c = CHR ''-'' then (True, cs) else if c = CHR ''+'' then (False, cs) else (False, s)) in
      case parse_digits ds of None \<Rightarrow> None
      | Some n \<Rightarrow> let v = (if neg then - n else n) in if in_int64 v then Some v else None)"

abbreviation Atoi :: "string \<Rightarrow> int option" where "Atoi \<equiv> ParseInt"

lemma ParseInt_range: "ParseInt s = Some n \<Longrightarrow> in_int64 n"
  by (auto simp: ParseInt_def Let_def split: if_splits option.splits list.splits prod.splits)

lemma ParseInt_Nil [simp]: "ParseInt [] = None"
  by (simp add: ParseInt_def parse_digits_def)

text \<open>Reading back what \<open>Itoa\<close> prints.\<close>

lemma digits_val_snoc: "digits_val (ds @ [c]) = digits_val ds * 10 + digit_val c"
  by (simp add: digits_val_def)

lemma digit_val_digit: "k < 10 \<Longrightarrow> digit_val (digit k) = int k"
  by (simp add: digit_def byte_def digit_val_def)

lemma nat_str_ne [simp]: "nat_str n \<noteq> []"
  by (subst nat_str.simps) simp

lemma digits_val_nat_str: "digits_val (nat_str n) = int n"
proof (induction n rule: nat_str.induct)
  case (1 n)
  show ?case
  proof (cases "n < 10")
    case True
    then show ?thesis by (simp add: nat_str.simps digit_val_digit digits_val_def)
  next
    case False
    then show ?thesis using 1 by (subst nat_str.simps) (simp add: digits_val_snoc digit_val_digit zdiv_int zmod_int)
  qed
qed

lemma parse_nat_str: "parse_digits (nat_str n) = Some (int n)"
  using nat_str_digits [of _ n] by (simp add: parse_digits_def digits_val_nat_str list_all_iff is_digit_def)

lemma ParseInt_nat_str: "in_int64 (int n) \<Longrightarrow> ParseInt (nat_str n) = Some (int n)"
proof -
  assume r: "in_int64 (int n)"
  obtain c cs where s: "nat_str n = c # cs" by (cases "nat_str n") simp_all
  with nat_str_digits [of c n] have "c \<noteq> CHR ''-''" "c \<noteq> CHR ''+''" by (auto simp: byte_def)
  then show ?thesis using r parse_nat_str [of n] unfolding s by (simp add: ParseInt_def Let_def)
qed

lemma ParseInt_Itoa: "in_int64 i \<Longrightarrow> ParseInt (Itoa i) = Some i"
  using ParseInt_nat_str [of "nat i"] parse_nat_str [of "nat (- i)"]
  by (simp add: Itoa_def ParseInt_def Let_def)

section \<open>Booleans\<close>

definition ParseBool :: "string \<Rightarrow> bool option" where
  "ParseBool s = (if s \<in> {''1'', ''t'', ''T'', ''true'', ''TRUE'', ''True''} then Some True
     else if s \<in> {''0'', ''f'', ''F'', ''false'', ''FALSE'', ''False''} then Some False else None)"

section \<open>Durations\<close>

text \<open>\<^verbatim>\<open>leadingInt\<close>: digits into a uint64, an error above \<open>2 ^ 63\<close>.\<close>

fun leadingInt :: "int \<Rightarrow> string \<Rightarrow> (int \<times> string) option" where
  "leadingInt x [] = Some (x, [])"
| "leadingInt x (c # s) =
     (if \<not> is_digit c then Some (x, c # s)
      else if x > 2 ^ 63 div 10 then None
      else let y = x * 10 + digit_val c in if y > 2 ^ 63 then None else leadingInt y s)"

text \<open>\<^verbatim>\<open>leadingFraction\<close>: digits past the uint64 range are skipped. The scale is a power of ten below
  \<open>10 ^ 20\<close>, exact in a float64.\<close>

fun leadingFraction :: "bool \<Rightarrow> int \<Rightarrow> int \<Rightarrow> string \<Rightarrow> int \<times> int \<times> string" where
  "leadingFraction overflow x scale [] = (x, scale, [])"
| "leadingFraction overflow x scale (c # s) =
     (if \<not> is_digit c then (x, scale, c # s)
      else if overflow then leadingFraction True x scale s
      else if x > (2 ^ 63 - 1) div 10 then leadingFraction True x scale s
      else let y = x * 10 + digit_val c in
        if y > 2 ^ 63 then leadingFraction True x scale s else leadingFraction False y (scale * 10) s)"

definition unitMap :: "string \<Rightarrow> int option" where
  "unitMap = map_of [(''ns'', 1), (''us'', 1000), (map char_of [194::nat, 181, 115], 1000), (map char_of [206::nat, 188, 115], 1000),
     (''ms'', 1000000), (''s'', 1000000000), (''m'', 60 * 1000000000), (''h'', 3600 * 1000000000)]"

definition unit_char :: "char \<Rightarrow> bool" where
  "unit_char c \<longleftrightarrow> c \<noteq> CHR ''.'' \<and> \<not> is_digit c"

text \<open>One group of the loop: a number with an optional fraction and a unit, and the rest.\<close>

definition duration_group :: "string \<Rightarrow> (int \<times> string) option" where
  "duration_group s =
     (case s of [] \<Rightarrow> None | c # _ \<Rightarrow>
      if unit_char c then None
      else case leadingInt 0 s of None \<Rightarrow> None | Some (v, s1) \<Rightarrow>
        let pre = (length s1 \<noteq> length s);
            (f, scale, s2, post) =
              (case s1 of [] \<Rightarrow> (0, 1, s1, False)
               | c1 # s1' \<Rightarrow> if c1 = CHR ''.'' then let (f, sc, r) = leadingFraction False 0 1 s1' in (f, sc, r, length r \<noteq> length s1')
                             else (0, 1, s1, False));
            u = takeWhile unit_char s2; s3 = dropWhile unit_char s2
        in if \<not> pre \<and> \<not> post then None
           else if u = [] then None
           else case unitMap u of None \<Rightarrow> None | Some un \<Rightarrow>
             if v > 2 ^ 63 div un then None
             else let v1 = v * un;
                      v2 = (if f > 0 then v1 + trunc (fl (fl (of_int f) * fl (of_int un / of_int scale))) else v1)
                  in if f > 0 \<and> v2 > 2 ^ 63 then None else Some (v2, s3))"

lemma leadingInt_len: "leadingInt x s = Some (v, r) \<Longrightarrow> length r \<le> length s"
  by (induction x s rule: leadingInt.induct) (auto simp: Let_def split: if_splits)

lemma leadingFraction_len: "leadingFraction b x sc s = (f, sc', r) \<Longrightarrow> length r \<le> length s"
  by (induction b x sc s rule: leadingFraction.induct) (auto simp: Let_def intro: le_SucI split: if_splits)

lemma dropWhile_shorter: "takeWhile P s \<noteq> [] \<Longrightarrow> length (dropWhile P s) < length s"
  by (cases s) (auto simp: length_dropWhile_le less_Suc_eq_le split: if_splits)

lemma duration_group_len:
  assumes "duration_group s = Some (v, r)"
  shows "length r < length s"
proof -
  obtain x s1 where li: "leadingInt 0 s = Some (x, s1)"
    using assms by (auto simp: duration_group_def split: list.splits option.splits if_splits)
  obtain f sc s2 post where p: "(case s1 of [] \<Rightarrow> (0, 1, s1, False)
      | c1 # s1' \<Rightarrow> if c1 = CHR ''.'' then let (f, sc, r) = leadingFraction False 0 1 s1' in (f, sc, r, length r \<noteq> length s1')
                    else (0::int, 1::int, s1, False)) = (f, sc, s2, post)"
    using prod_cases4 by blast
  have "length s2 \<le> length s1"
    using p leadingFraction_len [of False 0 1 "tl s1"]
    by (auto simp: Let_def split: list.splits if_splits prod.splits intro: le_SucI)
  moreover have "takeWhile unit_char s2 \<noteq> []" "r = dropWhile unit_char s2"
    using assms li p by (auto simp: duration_group_def Let_def split: list.splits option.splits if_splits)
  ultimately show ?thesis
    using leadingInt_len [OF li] dropWhile_shorter [of unit_char s2] by simp
qed

text \<open>The sum is a uint64: two groups of exactly \<open>2 ^ 63\<close> wrap to 0 before the check.\<close>

function duration_sum :: "int \<Rightarrow> string \<Rightarrow> int option" where
  "duration_sum d s =
     (if s = [] then Some d
      else case duration_group s of None \<Rightarrow> None
      | Some (v, r) \<Rightarrow> let d' = (d + v) mod 2 ^ 64 in if d' > 2 ^ 63 then None else duration_sum d' r)"
  by pat_completeness auto
termination
  by (relation "measure (length \<circ> snd)") (auto dest: duration_group_len)

declare duration_sum.simps [simp del]

definition ParseDuration :: "string \<Rightarrow> duration option" where
  "ParseDuration s0 =
     (let (neg, s) = (case s0 of [] \<Rightarrow> (False, [])
            | c # cs \<Rightarrow> if c = CHR ''-'' then (True, cs) else if c = CHR ''+'' then (False, cs) else (False, s0)) in
      if s = ''0'' then Some 0
      else if s = [] then None
      else case duration_sum 0 s of None \<Rightarrow> None
      | Some d \<Rightarrow> if neg then Some (- d) else if d > 2 ^ 63 - 1 then None else Some d)"

section \<open>Splitting\<close>

fun Split :: "char \<Rightarrow> string \<Rightarrow> string list" where
  "Split c [] = [[]]"
| "Split c (x # s) = (if x = c then [] # Split c s else case Split c s of [] \<Rightarrow> [[x]] | p # ps \<Rightarrow> (x # p) # ps)"

lemma Split_ne [simp]: "Split c s \<noteq> []"
  by (induction s) (auto split: list.splits)

lemma Split_no_sep: "p \<in> set (Split c s) \<Longrightarrow> c \<notin> set p"
  by (induction s arbitrary: p) (auto split: if_splits list.splits)

end
