(* ===== verification/Config.thy ===== *)
theory Config
  imports Strconv
begin

text \<open>
  \<^verbatim>\<open>internal/config/config.go\<close>: the environment is a function from variable names to values, the
  empty string for an unset variable (\<^verbatim>\<open>os.Getenv\<close>). \<open>Load\<close> reads every variable, collects the errors of
  the unparseable ones in the order of the struct literal, and validates the record. An error keeps the
  variables or the checks it reports; the formatted texts are left out.
\<close>

section \<open>The configuration\<close>

record Config =
  cDatabaseURL :: string
  cRedisURL :: string
  cPort :: string
  cWebhookTimeout :: duration
  cWorkerConcurrency :: int
  cPerSubConcurrency :: int
  cDrainTimeout :: duration
  cMaxRetryAttempts :: int
  cRetryBaseDelay :: duration
  cRetryMaxDelay :: duration
  cVisibilityTimeout :: duration
  cOrphanThreshold :: duration
  cRecoveryScanInterval :: duration
  cLogRetention :: duration
  cDLQMaxAge :: duration
  cIdempotencyTTL :: duration
  cCacheTTL :: duration
  cRegistryIdleTTL :: duration
  cRateLimitPerSec :: int
  cRateLimitBurst :: int
  cBreakerThreshold :: int
  cBreakerResetTimeout :: duration
  cAutoDisableThreshold :: int
  cSignatureDriftWindow :: duration
  cSecretGraceWindow :: duration
  cAllowHTTPURLs :: bool
  cSyncDelivery :: bool
  cEnablePprof :: bool
  cCORSAllowedOrigins :: "string list"
  cAdminAPIKey :: string

type_synonym environ = "string \<Rightarrow> string"

definition Addr :: "Config \<Rightarrow> string" where
  "Addr c = '':'' @ cPort c"

section \<open>Reading one variable\<close>

datatype env_error = NotInt string string | NotBool string string | NotDuration string string | NotHours string string

definition getEnv :: "environ \<Rightarrow> string \<Rightarrow> string \<Rightarrow> string" where
  "getEnv env key def = (if env key \<noteq> [] then env key else def)"

definition parseEnvInt :: "environ \<Rightarrow> string \<Rightarrow> int \<Rightarrow> int \<times> env_error option" where
  "parseEnvInt env key def =
     (let v = TrimSpace (env key) in
      if v = [] then (def, None)
      else case Atoi v of None \<Rightarrow> (def, Some (NotInt key v)) | Some n \<Rightarrow> (n, None))"

definition parseEnvBool :: "environ \<Rightarrow> string \<Rightarrow> bool \<Rightarrow> bool \<times> env_error option" where
  "parseEnvBool env key def =
     (let v = TrimSpace (env key) in
      if v = [] then (def, None)
      else case ParseBool v of None \<Rightarrow> (def, Some (NotBool key v)) | Some b \<Rightarrow> (b, None))"

definition parseEnvDuration :: "environ \<Rightarrow> string \<Rightarrow> duration \<Rightarrow> duration \<times> env_error option" where
  "parseEnvDuration env key def =
     (let v = TrimSpace (env key) in
      if v = [] then (def, None)
      else case ParseDuration v of None \<Rightarrow> (def, Some (NotDuration key v)) | Some d \<Rightarrow> (d, None))"

text \<open>The product of a Duration and an hour is an int64 product.\<close>

definition parseEnvHours :: "environ \<Rightarrow> string \<Rightarrow> duration \<Rightarrow> duration \<times> env_error option" where
  "parseEnvHours env key def =
     (let v = TrimSpace (env key) in
      if v = [] then (def, None)
      else case Atoi v of None \<Rightarrow> (def, Some (NotHours key v)) | Some n \<Rightarrow> (wrap64 (n * hour), None))"

definition getEnvCSV :: "environ \<Rightarrow> string \<Rightarrow> string list" where
  "getEnvCSV env key =
     (let v = TrimSpace (env key) in
      if v = [] then [] else filter (\<lambda>t. t \<noteq> []) (map TrimSpace (Split (CHR '','') v)))"

section \<open>Load\<close>

text \<open>The calls that can fail, in the order the struct literal makes them.\<close>

datatype env_kind = KInt int | KBool bool | KDuration duration | KHours duration

definition env_table :: "(string \<times> env_kind) list" where
  "env_table =
    [(''WEBHOOK_TIMEOUT'', KDuration (10 * second)), (''WORKER_CONCURRENCY'', KInt 50), (''PER_SUB_CONCURRENCY'', KInt 5),
     (''DRAIN_TIMEOUT'', KDuration (30 * second)), (''MAX_RETRY_ATTEMPTS'', KInt 5), (''RETRY_BASE_DELAY'', KDuration (10 * second)),
     (''RETRY_MAX_DELAY'', KDuration (15 * minute)), (''VISIBILITY_TIMEOUT'', KDuration (60 * second)),
     (''ORPHAN_THRESHOLD'', KDuration (15 * minute)), (''RECOVERY_SCAN_INTERVAL'', KDuration (5 * minute)),
     (''LOG_RETENTION_HOURS'', KHours (72 * hour)), (''DLQ_MAX_AGE'', KDuration (720 * hour)),
     (''IDEMPOTENCY_TTL'', KDuration (5 * minute)), (''CACHE_TTL'', KDuration (5 * minute)), (''REGISTRY_IDLE_TTL'', KDuration hour),
     (''RATE_LIMIT_PER_SEC'', KInt 100), (''RATE_LIMIT_BURST'', KInt 200), (''BREAKER_THRESHOLD'', KInt 5),
     (''BREAKER_RESET_TIMEOUT'', KDuration (30 * second)), (''AUTO_DISABLE_THRESHOLD'', KInt 5),
     (''SIGNATURE_DRIFT_WINDOW'', KDuration (5 * minute)), (''SECRET_GRACE_WINDOW'', KDuration (24 * hour)),
     (''ALLOW_HTTP_URLS'', KBool False), (''SYNC_DELIVERY'', KBool False), (''ENABLE_PPROF'', KBool False)]"

definition env_error_of :: "environ \<Rightarrow> string \<times> env_kind \<Rightarrow> env_error option" where
  "env_error_of env kd = (case snd kd of
     KInt d \<Rightarrow> snd (parseEnvInt env (fst kd) d) | KBool d \<Rightarrow> snd (parseEnvBool env (fst kd) d)
   | KDuration d \<Rightarrow> snd (parseEnvDuration env (fst kd) d) | KHours d \<Rightarrow> snd (parseEnvHours env (fst kd) d))"

definition load_errors :: "environ \<Rightarrow> env_error list" where
  "load_errors env = List.map_filter (env_error_of env) env_table"

abbreviation getEnvInt :: "environ \<Rightarrow> string \<Rightarrow> int \<Rightarrow> int" where
  "getEnvInt env key def \<equiv> fst (parseEnvInt env key def)"
abbreviation getEnvBool :: "environ \<Rightarrow> string \<Rightarrow> bool \<Rightarrow> bool" where
  "getEnvBool env key def \<equiv> fst (parseEnvBool env key def)"
abbreviation getEnvDuration :: "environ \<Rightarrow> string \<Rightarrow> duration \<Rightarrow> duration" where
  "getEnvDuration env key def \<equiv> fst (parseEnvDuration env key def)"
abbreviation getEnvHours :: "environ \<Rightarrow> string \<Rightarrow> duration \<Rightarrow> duration" where
  "getEnvHours env key def \<equiv> fst (parseEnvHours env key def)"

definition read_config :: "environ \<Rightarrow> Config" where
  "read_config env =
    \<lparr>cDatabaseURL = env ''DATABASE_URL'', cRedisURL = env ''REDIS_URL'', cPort = getEnv env ''PORT'' ''8080'',
     cWebhookTimeout = getEnvDuration env ''WEBHOOK_TIMEOUT'' (10 * second),
     cWorkerConcurrency = getEnvInt env ''WORKER_CONCURRENCY'' 50,
     cPerSubConcurrency = getEnvInt env ''PER_SUB_CONCURRENCY'' 5,
     cDrainTimeout = getEnvDuration env ''DRAIN_TIMEOUT'' (30 * second),
     cMaxRetryAttempts = getEnvInt env ''MAX_RETRY_ATTEMPTS'' 5,
     cRetryBaseDelay = getEnvDuration env ''RETRY_BASE_DELAY'' (10 * second),
     cRetryMaxDelay = getEnvDuration env ''RETRY_MAX_DELAY'' (15 * minute),
     cVisibilityTimeout = getEnvDuration env ''VISIBILITY_TIMEOUT'' (60 * second),
     cOrphanThreshold = getEnvDuration env ''ORPHAN_THRESHOLD'' (15 * minute),
     cRecoveryScanInterval = getEnvDuration env ''RECOVERY_SCAN_INTERVAL'' (5 * minute),
     cLogRetention = getEnvHours env ''LOG_RETENTION_HOURS'' (72 * hour),
     cDLQMaxAge = getEnvDuration env ''DLQ_MAX_AGE'' (720 * hour),
     cIdempotencyTTL = getEnvDuration env ''IDEMPOTENCY_TTL'' (5 * minute),
     cCacheTTL = getEnvDuration env ''CACHE_TTL'' (5 * minute),
     cRegistryIdleTTL = getEnvDuration env ''REGISTRY_IDLE_TTL'' hour,
     cRateLimitPerSec = getEnvInt env ''RATE_LIMIT_PER_SEC'' 100,
     cRateLimitBurst = getEnvInt env ''RATE_LIMIT_BURST'' 200,
     cBreakerThreshold = getEnvInt env ''BREAKER_THRESHOLD'' 5,
     cBreakerResetTimeout = getEnvDuration env ''BREAKER_RESET_TIMEOUT'' (30 * second),
     cAutoDisableThreshold = getEnvInt env ''AUTO_DISABLE_THRESHOLD'' 5,
     cSignatureDriftWindow = getEnvDuration env ''SIGNATURE_DRIFT_WINDOW'' (5 * minute),
     cSecretGraceWindow = getEnvDuration env ''SECRET_GRACE_WINDOW'' (24 * hour),
     cAllowHTTPURLs = getEnvBool env ''ALLOW_HTTP_URLS'' False,
     cSyncDelivery = getEnvBool env ''SYNC_DELIVERY'' False,
     cEnablePprof = getEnvBool env ''ENABLE_PPROF'' False,
     cCORSAllowedOrigins = getEnvCSV env ''CORS_ALLOWED_ORIGINS'',
     cAdminAPIKey = env ''ADMIN_API_KEY''\<rparr>"

section \<open>Validation\<close>

definition port_ok :: "string \<Rightarrow> bool" where
  "port_ok p = (case Atoi p of None \<Rightarrow> False | Some n \<Rightarrow> 1 \<le> n \<and> n \<le> 65535)"

definition checks :: "Config \<Rightarrow> (string \<times> bool) list" where
  "checks c =
    [(''DATABASE_URL is required'', TrimSpace (cDatabaseURL c) \<noteq> []),
     (''REDIS_URL is required'', TrimSpace (cRedisURL c) \<noteq> []),
     (''PORT must be an integer in [1, 65535]'', port_ok (cPort c)),
     (''WEBHOOK_TIMEOUT must be > 0'', cWebhookTimeout c > 0),
     (''WORKER_CONCURRENCY must be >= 1'', cWorkerConcurrency c \<ge> 1),
     (''PER_SUB_CONCURRENCY must be >= 1'', cPerSubConcurrency c \<ge> 1),
     (''DRAIN_TIMEOUT must be > 0'', cDrainTimeout c > 0),
     (''DRAIN_TIMEOUT must be >= WEBHOOK_TIMEOUT'', cDrainTimeout c \<ge> cWebhookTimeout c),
     (''MAX_RETRY_ATTEMPTS must be >= 1'', cMaxRetryAttempts c \<ge> 1),
     (''RETRY_BASE_DELAY must be > 0'', cRetryBaseDelay c > 0),
     (''RETRY_MAX_DELAY must be > 0'', cRetryMaxDelay c > 0),
     (''RETRY_MAX_DELAY must be >= RETRY_BASE_DELAY'', cRetryMaxDelay c \<ge> cRetryBaseDelay c),
     (''VISIBILITY_TIMEOUT must be > WEBHOOK_TIMEOUT'', cVisibilityTimeout c > cWebhookTimeout c),
     (''ORPHAN_THRESHOLD must be >= VISIBILITY_TIMEOUT'', cOrphanThreshold c \<ge> cVisibilityTimeout c),
     (''RECOVERY_SCAN_INTERVAL must be > 0'', cRecoveryScanInterval c > 0),
     (''LOG_RETENTION_HOURS must be > 0'', cLogRetention c > 0),
     (''DLQ_MAX_AGE must be > 0'', cDLQMaxAge c > 0),
     (''IDEMPOTENCY_TTL must be > 0'', cIdempotencyTTL c > 0),
     (''IDEMPOTENCY_TTL must be >= SIGNATURE_DRIFT_WINDOW'', cIdempotencyTTL c \<ge> cSignatureDriftWindow c),
     (''CACHE_TTL must be > 0'', cCacheTTL c > 0),
     (''REGISTRY_IDLE_TTL must be > WEBHOOK_TIMEOUT'', cRegistryIdleTTL c > cWebhookTimeout c),
     (''RATE_LIMIT_PER_SEC must be > 0'', cRateLimitPerSec c > 0),
     (''RATE_LIMIT_BURST must be > 0'', cRateLimitBurst c > 0),
     (''BREAKER_THRESHOLD must be > 0'', cBreakerThreshold c > 0),
     (''BREAKER_RESET_TIMEOUT must be > 0'', cBreakerResetTimeout c > 0),
     (''AUTO_DISABLE_THRESHOLD must be > 0'', cAutoDisableThreshold c > 0),
     (''SIGNATURE_DRIFT_WINDOW must be > 0'', cSignatureDriftWindow c > 0),
     (''SECRET_GRACE_WINDOW must be >= 0'', cSecretGraceWindow c \<ge> 0)]"

definition validate :: "Config \<Rightarrow> string list option" where
  "validate c = (let errs = map fst (filter (\<lambda>k. \<not> snd k) (checks c)) in if errs \<noteq> [] then Some errs else None)"

datatype config_error = InvalidEnvironment "env_error list" | InvalidValues "string list"

definition Load :: "environ \<Rightarrow> config_error + Config" where
  "Load env =
     (let errs = load_errors env; c = read_config env in
      if errs \<noteq> [] then Inl (InvalidEnvironment errs)
      else case validate c of Some es \<Rightarrow> Inl (InvalidValues es) | None \<Rightarrow> Inr c)"

section \<open>Facts\<close>

lemma Load_Inr: "Load env = Inr c \<longleftrightarrow> load_errors env = [] \<and> c = read_config env \<and> (\<forall>k \<in> set (checks c). snd k)"
  by (auto simp: Load_def validate_def Let_def filter_empty_conv split: if_splits)

lemma load_errors_Nil: "load_errors env = [] \<longleftrightarrow> (\<forall>kd \<in> set env_table. env_error_of env kd = None)"
  by (auto simp: load_errors_def List.map_filter_def filter_empty_conv)

definition parses :: "env_kind \<Rightarrow> string \<Rightarrow> bool" where
  "parses k v = (case k of KInt _ \<Rightarrow> Atoi v \<noteq> None | KHours _ \<Rightarrow> Atoi v \<noteq> None | KBool _ \<Rightarrow> ParseBool v \<noteq> None | KDuration _ \<Rightarrow> ParseDuration v \<noteq> None)"

lemma env_error_of_None: "env_error_of env (key, k) = None \<longleftrightarrow> TrimSpace (env key) = [] \<or> parses k (TrimSpace (env key))"
  by (cases k) (auto simp: env_error_of_def parses_def parseEnvInt_def parseEnvBool_def parseEnvDuration_def parseEnvHours_def
      Let_def split: option.splits)

fun err_key :: "env_error \<Rightarrow> string" where
  "err_key (NotInt key _) = key" | "err_key (NotBool key _) = key" | "err_key (NotDuration key _) = key" | "err_key (NotHours key _) = key"

lemma err_key_of: "env_error_of env kd = Some e \<Longrightarrow> err_key e = fst kd"
  by (auto simp: env_error_of_def parseEnvInt_def parseEnvBool_def parseEnvDuration_def parseEnvHours_def Let_def
      split: env_kind.splits option.splits if_splits)

lemma load_errors_key:
  "key \<in> err_key ` set (load_errors env) \<longleftrightarrow> (\<exists>kd \<in> set env_table. fst kd = key \<and> env_error_of env kd \<noteq> None)"
proof -
  have "set (load_errors env) = {e. \<exists>kd \<in> set env_table. env_error_of env kd = Some e}"
    by (force simp: load_errors_def List.map_filter_def)
  then have "key \<in> err_key ` set (load_errors env) \<longleftrightarrow> (\<exists>e. \<exists>kd \<in> set env_table. env_error_of env kd = Some e \<and> err_key e = key)"
    by auto
  then show ?thesis by (metis err_key_of not_None_eq)
qed

lemma env_table_distinct: "distinct (map fst env_table)"
  by (simp add: env_table_def)

lemma nat_str_solid: "c \<in> set (nat_str n) \<Longrightarrow> solid c"
  using nat_str_digits [of c n] by (simp add: solid_def)

lemma Itoa_solid: "Itoa n \<noteq> [] \<and> solid (hd (Itoa n)) \<and> solid (last (Itoa n))"
proof -
  have h: "solid (hd (nat_str m))" "solid (last (nat_str m))" for m
    by (rule nat_str_solid [where n = m], simp)+
  then show ?thesis by (simp add: Itoa_def) (simp add: solid_def byte_def)
qed

text \<open>An environment that sets what is required.\<close>

definition demo_environ :: "(string \<times> string) list \<Rightarrow> environ" where
  "demo_environ vs key = (case map_of (vs @ [(''DATABASE_URL'', ''postgres://pg''), (''REDIS_URL'', ''r'')]) key of
     None \<Rightarrow> [] | Some v \<Rightarrow> v)"

lemma port_8080: "port_ok ''8080''"
  by code_simp

lemma trim_demo: "TrimSpace ''postgres://pg'' = ''postgres://pg''" "TrimSpace ''r'' = ''r''" "TrimSpace ''5124096'' = ''5124096''"
    "TrimSpace ''1500ms'' = ''1500ms''" "TrimSpace ''1900ms'' = ''1900ms''"
  by (simp_all add: TrimSpace_solid solid_def byte_def)

lemma parse_demo: "Atoi ''5124096'' = Some 5124096" "ParseDuration ''1500ms'' = Some (1500 * millisecond)"
    "ParseDuration ''1900ms'' = Some (1900 * millisecond)"
  by code_simp+

lemmas read_defs = parseEnvInt_def parseEnvBool_def parseEnvDuration_def parseEnvHours_def getEnv_def getEnvCSV_def Let_def

lemmas demo_eval = Load_Inr load_errors_Nil env_table_def env_error_of_def read_config_def checks_def read_defs
  demo_environ_def port_8080 trim_demo parse_demo

lemma demo_load: "Load (demo_environ []) = Inr (read_config (demo_environ []))"
  by (simp add: demo_eval)

lemma demo_short: "\<exists>c. Load (demo_environ [(''WEBHOOK_TIMEOUT'', ''1500ms''), (''VISIBILITY_TIMEOUT'', ''1900ms'')]) = Inr c
    \<and> cVisibilityTimeout c = 1900000000"
  by (simp add: demo_eval)



text \<open>Integer settings survive the environment: a variable holding the decimal text of any int64 is read back as that number.\<close>

theorem int_variable_roundtrip:
  assumes "in_int64 n" and "env key = Itoa n"
  shows "parseEnvInt env key dflt = (n, None)"
proof -
  have "TrimSpace (Itoa n) = Itoa n" using Itoa_solid [of n] by (intro TrimSpace_solid) auto
  moreover have "Itoa n \<noteq> []" using Itoa_solid by blast
  ultimately show ?thesis using assms by (simp add: parseEnvInt_def Let_def ParseInt_Itoa)
qed

theorem int_variable_roundtrip_witness:
  "parseEnvInt (\<lambda>_. Itoa (- 7)) ''MAX_RETRY_ATTEMPTS'' 5 = (- 7, None)"
  by (rule int_variable_roundtrip) (simp_all add: in_int64_def int64_min_def int64_max_def)

text \<open>Hours are not checked for overflow: \<^verbatim>\<open>LOG_RETENTION_HOURS=5124096\<close> (585 years) passes validation,
  but the product wraps in int64 and the service runs with a retention of less than 26 minutes.\<close>

theorem retention_wraps:
  "\<exists>c. Load (demo_environ [(''LOG_RETENTION_HOURS'', ''5124096'')]) = Inr c \<and> 0 < cLogRetention c \<and> cLogRetention c < 26 * minute"
  by (simp add: demo_eval wrap64_def)

end
