(* ===== verification/Schema.thy ===== *)
theory Schema
  imports Domain
begin

text \<open>
  The PostgreSQL side of \<^verbatim>\<open>internal/store\<close>: the three tables of \<^verbatim>\<open>migrations/\<close>, the error
  classification of \<^verbatim>\<open>errors.go\<close>, the row scanners, and how a statement and a transaction run.

  The server itself is not part of the sources. What the code relies on is made explicit:
  \<^item> \<open>pgsql\<close> holds the server's uuid input function (\<open>uuid_in\<close>: the canonical text, or
    \<open>None\<close> for a malformed literal, SQLSTATE 22P02) and its jsonb normalisation (\<open>jsonb_in\<close>);
  \<^item> a \<open>call\<close> fixes, for one repository call, the server clock \<^verbatim>\<open>NOW()\<close>, the value that
    \<^verbatim>\<open>gen_random_uuid()\<close> returns, which statements fail with a connection error, whether
    \<^verbatim>\<open>BEGIN\<close> fails, and what happens at commit: it succeeds, it fails, or it succeeds and the reply
    is lost, so that the caller sees an error although the change is durable;
  \<^item> a statement error inside a transaction aborts the transaction: a later \<^verbatim>\<open>COMMIT\<close> is a rollback
    that the driver reports as an error.
\<close>

section \<open>Tables\<close>

record sub_row =
  s_id :: string
  s_target_url :: string
  s_secret_key :: string
  s_previous_secret_key :: "string option"
  s_secret_rotated_at :: "time option"
  s_event_types :: "string list"
  s_is_active :: bool
  s_consecutive_failures :: int
  s_created_at :: time
  s_updated_at :: time

record dl_row =
  d_id :: string
  d_webhook_id :: string
  d_subscription_id :: string
  d_target_url :: string
  d_payload :: string
  d_event_type :: "string option"
  d_attempt_number :: int
  d_replay_number :: int
  d_status :: DeliveryStatus
  d_http_status :: "int option"
  d_error_details :: "string option"
  d_next_retry_at :: "time option"
  d_in_dlq :: bool
  d_created_at :: time
  d_updated_at :: time

record idem_row =
  i_subscription_id :: string
  i_idempotency_key :: string
  i_webhook_id :: string
  i_created_at :: time

record db =
  subscriptions :: "sub_row list"
  delivery_logs :: "dl_row list"
  ingest_idempotency :: "idem_row list"

definition empty_db :: db where
  "empty_db = \<lparr>subscriptions = [], delivery_logs = [], ingest_idempotency = []\<rparr>"

definition idem_key :: "idem_row \<Rightarrow> string \<times> string" where
  "idem_key r = (i_subscription_id r, i_idempotency_key r)"

abbreviation sub_by_id :: "db \<Rightarrow> string \<Rightarrow> sub_row option" where
  "sub_by_id d i \<equiv> lookup_row s_id i (subscriptions d)"

abbreviation log_by_id :: "db \<Rightarrow> string \<Rightarrow> dl_row option" where
  "log_by_id d i \<equiv> lookup_row d_id i (delivery_logs d)"

abbreviation idem_by_key :: "db \<Rightarrow> string \<times> string \<Rightarrow> idem_row option" where
  "idem_by_key d k \<equiv> lookup_row idem_key k (ingest_idempotency d)"

section \<open>Errors of the driver\<close>

datatype sql_error = ErrNoRows | PgError string | ConnError

definition sqlStateInvalidTextRepresentation :: string where
  "sqlStateInvalidTextRepresentation = ''22P02''"
definition sqlStateForeignKeyViolation :: string where
  "sqlStateForeignKeyViolation = ''23503''"

fun pgCode :: "sql_error \<Rightarrow> string" where
  "pgCode (PgError code) = code"
| "pgCode _ = []"

definition isInvalidUUID :: "sql_error \<Rightarrow> bool" where
  "isInvalidUUID e \<longleftrightarrow> pgCode e = sqlStateInvalidTextRepresentation"

definition isForeignKeyViolation :: "sql_error \<Rightarrow> bool" where
  "isForeignKeyViolation e \<longleftrightarrow> pgCode e = sqlStateForeignKeyViolation"

definition isAbsent :: "sql_error \<Rightarrow> bool" where
  "isAbsent e \<longleftrightarrow> e = ErrNoRows \<or> isInvalidUUID e"

lemma sql_error_class [simp]:
  "isInvalidUUID (PgError ''22P02'')" "\<not> isInvalidUUID ErrNoRows" "\<not> isInvalidUUID ConnError"
  "\<not> isInvalidUUID (PgError ''23503'')" "\<not> isInvalidUUID (PgError ''25P02'')"
  "\<not> isInvalidUUID (PgError ''23505'')"
  "isForeignKeyViolation (PgError ''23503'')" "\<not> isForeignKeyViolation ErrNoRows"
  "\<not> isForeignKeyViolation ConnError" "\<not> isForeignKeyViolation (PgError ''22P02'')"
  "\<not> isForeignKeyViolation (PgError ''25P02'')" "\<not> isForeignKeyViolation (PgError ''23505'')"
  "isAbsent ErrNoRows" "isAbsent (PgError ''22P02'')" "\<not> isAbsent ConnError"
  "\<not> isAbsent (PgError ''23503'')" "\<not> isAbsent (PgError ''25P02'')" "\<not> isAbsent (PgError ''23505'')"
  by (simp_all add: isAbsent_def isInvalidUUID_def isForeignKeyViolation_def
      sqlStateInvalidTextRepresentation_def sqlStateForeignKeyViolation_def)

section \<open>Server calls\<close>

record pgsql =
  uuid_in :: "string \<Rightarrow> string option"
  jsonb_in :: "string \<Rightarrow> string"

datatype commit = Committed | CommitFailed | CommitLost

record call =
  c_now :: time
  c_uuid :: string
  c_begin_fails :: bool
  c_stmt_fails :: "nat \<Rightarrow> bool"
  c_commit :: commit

text \<open>A call in which nothing goes wrong.\<close>

definition ok_call :: "time \<Rightarrow> string \<Rightarrow> call" where
  "ok_call t u = \<lparr>c_now = t, c_uuid = u, c_begin_fails = False, c_stmt_fails = (\<lambda>_. False),
                 c_commit = Committed\<rparr>"

lemma ok_call_sel [simp]:
  "c_now (ok_call t u) = t" "c_uuid (ok_call t u) = u" "c_begin_fails (ok_call t u) = False"
  "c_stmt_fails (ok_call t u) k = False" "c_commit (ok_call t u) = Committed"
  by (simp_all add: ok_call_def)

text \<open>A statement maps a database to a driver result and the new database.\<close>

type_synonym 'a stmt = "db \<Rightarrow> (sql_error + 'a) \<times> db"

text \<open>A statement on the pool is its own transaction.\<close>

definition pool_run :: "call \<Rightarrow> 'a stmt \<Rightarrow> db \<Rightarrow> (sql_error + 'a) \<times> db" where
  "pool_run c st d =
     (if c_stmt_fails c 0 then (Inl ConnError, d)
      else case st d of
        (Inl e, _) \<Rightarrow> (Inl e, d)
      | (Inr x, d') \<Rightarrow>
          (case c_commit c of
             Committed \<Rightarrow> (Inr x, d')
           | CommitFailed \<Rightarrow> (Inl ConnError, d)
           | CommitLost \<Rightarrow> (Inl ConnError, d')))"

record tx =
  tx_db :: db
  tx_aborted :: bool

text \<open>The \<open>k\<close>-th statement of a transaction. \<open>ErrNoRows\<close> is the driver's word for an empty
  result; the statement itself succeeded.\<close>

definition tx_run :: "call \<Rightarrow> nat \<Rightarrow> 'a stmt \<Rightarrow> tx \<Rightarrow> (sql_error + 'a) \<times> tx" where
  "tx_run c k st t =
     (if tx_aborted t then (Inl (PgError ''25P02''), t)
      else if c_stmt_fails c k then (Inl ConnError, t\<lparr>tx_aborted := True\<rparr>)
      else case st (tx_db t) of
        (Inl e, _) \<Rightarrow> (Inl e, if e = ErrNoRows then t else t\<lparr>tx_aborted := True\<rparr>)
      | (Inr x, d') \<Rightarrow> (Inr x, t\<lparr>tx_db := d'\<rparr>))"

text \<open>\<^verbatim>\<open>inTx\<close>: begin, run, roll back on an error, commit otherwise.\<close>

definition inTx :: "call \<Rightarrow> string \<Rightarrow> (tx \<Rightarrow> 'a result \<times> tx) \<Rightarrow> db \<Rightarrow> 'a result \<times> db" where
  "inTx c op fn d =
     (if c_begin_fails c then (Inl (ErrOther (''store: begin '' @ op @ '' tx'')), d)
      else case fn \<lparr>tx_db = d, tx_aborted = False\<rparr> of
        (Inl e, _) \<Rightarrow> (Inl e, d)
      | (Inr x, t) \<Rightarrow>
         (if tx_aborted t then (Inl (ErrOther (''store: commit '' @ op)), d)
          else case c_commit c of
             Committed \<Rightarrow> (Inr x, tx_db t)
           | CommitFailed \<Rightarrow> (Inl (ErrOther (''store: commit '' @ op)), d)
           | CommitLost \<Rightarrow> (Inl (ErrOther (''store: commit '' @ op)), tx_db t)))"

text \<open>Whatever happens, a statement or transaction leaves the old database or the one its body
  produced: partial effects of a transaction are never visible.\<close>

lemma pool_run_db:
  "snd (pool_run c st d) = d \<or> (\<exists>x. st d = (Inr x, snd (pool_run c st d)))"
  by (auto simp: pool_run_def split: prod.splits sum.splits commit.splits)

lemma pool_run_Inr: "pool_run c st d = (Inr x, d') \<Longrightarrow> st d = (Inr x, d')"
  by (auto simp: pool_run_def split: prod.splits sum.splits commit.splits if_splits)

lemma inTx_db:
  "snd (inTx c op fn d) = d \<or>
   (\<exists>x t. fn \<lparr>tx_db = d, tx_aborted = False\<rparr> = (Inr x, t) \<and> \<not> tx_aborted t \<and>
          snd (inTx c op fn d) = tx_db t)"
  by (auto simp: inTx_def split: prod.splits sum.splits commit.splits)

lemma inTx_Inr:
  "inTx c op fn d = (Inr x, d') \<Longrightarrow>
     \<exists>t. fn \<lparr>tx_db = d, tx_aborted = False\<rparr> = (Inr x, t) \<and> \<not> tx_aborted t \<and> d' = tx_db t"
  by (auto simp: inTx_def split: prod.splits sum.splits commit.splits if_splits)

text \<open>An operation preserves an invariant if the body of its statement or transaction does.\<close>

lemma pool_run_pres:
  assumes "I d" and "\<And>x d'. st d = (Inr x, d') \<Longrightarrow> I d'"
  shows "I (snd (pool_run c st d))"
  using pool_run_db [of c st d] assms by (metis snd_conv)

lemma inTx_pres:
  assumes "I d"
    and "\<And>x t. fn \<lparr>tx_db = d, tx_aborted = False\<rparr> = (Inr x, t) \<Longrightarrow> \<not> tx_aborted t \<Longrightarrow> I (tx_db t)"
  shows "I (snd (inTx c op fn d))"
  using inTx_db [of c op fn d] assms by metis

section \<open>Statements\<close>

text \<open>\<^verbatim>\<open>UPDATE delivery_logs SET .. WHERE id = $1 AND ..\<close> and the same for subscriptions.\<close>

definition update_log :: "pgsql \<Rightarrow> string \<Rightarrow> (dl_row \<Rightarrow> bool) \<Rightarrow> (dl_row \<Rightarrow> dl_row) \<Rightarrow> nat stmt" where
  "update_log pg lid P f d =
     (case uuid_in pg lid of
        None \<Rightarrow> (Inl (PgError ''22P02''), d)
      | Some i \<Rightarrow>
          (Inr (rows_affected (\<lambda>r. d_id r = i \<and> P r) (delivery_logs d)),
           d\<lparr>delivery_logs := sql_update (\<lambda>r. d_id r = i \<and> P r) f (delivery_logs d)\<rparr>))"

definition update_sub :: "pgsql \<Rightarrow> string \<Rightarrow> (sub_row \<Rightarrow> bool) \<Rightarrow> (sub_row \<Rightarrow> sub_row) \<Rightarrow> nat stmt" where
  "update_sub pg sid P f d =
     (case uuid_in pg sid of
        None \<Rightarrow> (Inl (PgError ''22P02''), d)
      | Some i \<Rightarrow>
          (Inr (rows_affected (\<lambda>r. s_id r = i \<and> P r) (subscriptions d)),
           d\<lparr>subscriptions := sql_update (\<lambda>r. s_id r = i \<and> P r) f (subscriptions d)\<rparr>))"

text \<open>\<^verbatim>\<open>UPDATE subscriptions SET .. WHERE id = $1 RETURNING *\<close> read with \<^verbatim>\<open>QueryRow\<close>.\<close>

definition update_sub_returning :: "pgsql \<Rightarrow> string \<Rightarrow> (sub_row \<Rightarrow> sub_row) \<Rightarrow> sub_row stmt" where
  "update_sub_returning pg sid f d =
     (case uuid_in pg sid of
        None \<Rightarrow> (Inl (PgError ''22P02''), d)
      | Some i \<Rightarrow>
         (case sub_by_id d i of
            None \<Rightarrow> (Inl ErrNoRows, d)
          | Some r \<Rightarrow>
              (Inr (f r),
               d\<lparr>subscriptions := sql_update (\<lambda>r. s_id r = i) f (subscriptions d)\<rparr>)))"

text \<open>\<^verbatim>\<open>INSERT INTO delivery_logs .. RETURNING id\<close>: the foreign key and the primary key are checked.\<close>

definition insert_log :: "dl_row \<Rightarrow> string stmt" where
  "insert_log r d =
     (if log_by_id d (d_id r) \<noteq> None then (Inl (PgError ''23505''), d)
      else if sub_by_id d (d_subscription_id r) = None then (Inl (PgError ''23503''), d)
      else (Inr (d_id r), d\<lparr>delivery_logs := sql_insert r (delivery_logs d)\<rparr>))"

section \<open>Row scanners\<close>

definition nullStr :: "string \<Rightarrow> string option" where
  "nullStr s = (if s = [] then None else Some s)"

definition or_empty :: "string option \<Rightarrow> string" where
  "or_empty x = (case x of None \<Rightarrow> [] | Some s \<Rightarrow> s)"

lemma or_empty_nullStr [simp]: "or_empty (nullStr s) = s"
  by (simp add: nullStr_def or_empty_def)

definition scanDeliveryLog :: "dl_row \<Rightarrow> DeliveryLog" where
  "scanDeliveryLog r =
     \<lparr>D_ID = d_id r, D_WebhookID = d_webhook_id r, D_SubscriptionID = d_subscription_id r,
      D_TargetURL = d_target_url r, D_Payload = d_payload r,
      D_EventType = or_empty (d_event_type r),
      D_AttemptNumber = d_attempt_number r, D_ReplayNumber = d_replay_number r,
      D_Status = d_status r, D_HTTPStatus = d_http_status r,
      D_ErrorDetails = or_empty (d_error_details r), D_NextRetryAt = d_next_retry_at r,
      D_InDLQ = d_in_dlq r, D_CreatedAt = d_created_at r, D_UpdatedAt = d_updated_at r\<rparr>"

definition scanSubscription :: "sub_row \<Rightarrow> Subscription" where
  "scanSubscription r =
     \<lparr>S_ID = s_id r, S_TargetURL = s_target_url r, S_SecretKey = s_secret_key r,
      S_PreviousSecretKey = or_empty (s_previous_secret_key r),
      S_SecretRotatedAt = s_secret_rotated_at r, S_EventTypes = s_event_types r,
      S_IsActive = s_is_active r, S_ConsecutiveFailures = s_consecutive_failures r,
      S_CreatedAt = s_created_at r, S_UpdatedAt = s_updated_at r\<rparr>"

lemma scan_sel [simp]:
  "D_ID (scanDeliveryLog r) = d_id r" "D_Status (scanDeliveryLog r) = d_status r"
  "D_WebhookID (scanDeliveryLog r) = d_webhook_id r"
  "D_SubscriptionID (scanDeliveryLog r) = d_subscription_id r"
  "D_TargetURL (scanDeliveryLog r) = d_target_url r"
  "D_Payload (scanDeliveryLog r) = d_payload r"
  "D_AttemptNumber (scanDeliveryLog r) = d_attempt_number r"
  "D_ReplayNumber (scanDeliveryLog r) = d_replay_number r"
  "D_NextRetryAt (scanDeliveryLog r) = d_next_retry_at r"
  "D_InDLQ (scanDeliveryLog r) = d_in_dlq r"
  "D_UpdatedAt (scanDeliveryLog r) = d_updated_at r"
  "S_ID (scanSubscription s) = s_id s" "S_IsActive (scanSubscription s) = s_is_active s"
  "S_SecretKey (scanSubscription s) = s_secret_key s"
  "S_TargetURL (scanSubscription s) = s_target_url s"
  by (simp_all add: scanDeliveryLog_def scanSubscription_def)

section \<open>Intervals\<close>

text \<open>\<^verbatim>\<open>secondsArg\<close> renders a duration as whole seconds, at least one. \<^verbatim>\<open>Duration.Seconds\<close> is a
  float64; below \<open>2 ^ 23\<close> seconds its spacing is finer than a nanosecond, so the conversion to
  int64 is the integer quotient.\<close>

definition secondsArg :: "duration \<Rightarrow> int" where
  "secondsArg d = (let s = d sdiv second in if s < 1 then 1 else s)"

definition pg_interval :: "int \<Rightarrow> duration" where
  "pg_interval s = s * second"

lemma secondsArg_ge_1: "1 \<le> secondsArg d"
  by (simp add: secondsArg_def Let_def)

lemma pg_interval_pos: "0 < pg_interval (secondsArg d)"
  using secondsArg_ge_1 [of d] by (simp add: pg_interval_def)

text \<open>The interval never exceeds the duration unless the duration is below one second, and loses
  less than a second.\<close>

lemma secondsArg_bounds:
  "second \<le> d \<Longrightarrow> pg_interval (secondsArg d) \<le> d \<and> d < pg_interval (secondsArg d) + second"
  by (auto simp: secondsArg_def pg_interval_def Let_def)

end
