(* ===== verification/Delivery_Store.thy ===== *)
theory Delivery_Store
  imports Schema
begin

text \<open>
  \<^verbatim>\<open>internal/store\<close>: the delivery-log repository (\<^verbatim>\<open>delivery_log_repo.go\<close>,
  \<^verbatim>\<open>delivery_lifecycle.go\<close>, \<^verbatim>\<open>dlq.go\<close>). One definition per method; a transactional method has
  its transaction body as a definition of its own (\<open>.._tx\<close>) and runs it under \<open>inTx\<close>. The
  remaining columns of an inserted row have the schema's defaults.
\<close>

section \<open>Reads\<close>

definition select_log :: "pgsql \<Rightarrow> string \<Rightarrow> db \<Rightarrow> sql_error + dl_row" where
  "select_log pg lid d =
     (case uuid_in pg lid of
        None \<Rightarrow> Inl (PgError ''22P02'')
      | Some i \<Rightarrow> (case log_by_id d i of None \<Rightarrow> Inl ErrNoRows | Some r \<Rightarrow> Inr r))"

definition read_run :: "call \<Rightarrow> (db \<Rightarrow> sql_error + 'a) \<Rightarrow> db \<Rightarrow> sql_error + 'a" where
  "read_run c q d = (if c_stmt_fails c 0 then Inl ConnError else q d)"

definition GetLogByID :: "pgsql \<Rightarrow> call \<Rightarrow> db \<Rightarrow> string \<Rightarrow> DeliveryLog result" where
  "GetLogByID pg c d lid =
     (case read_run c (select_log pg lid) d of
        Inr r \<Rightarrow> Inr (scanDeliveryLog r)
      | Inl e \<Rightarrow> if isAbsent e then Inl ErrNotFound else Inl (ErrOther ''store: get delivery_log''))"

text \<open>\<^verbatim>\<open>queryList\<close>. \<open>lazy\<close> says where the driver reports a server error of a query: from
  \<^verbatim>\<open>Query\<close> itself (\<open>False\<close>) or from \<^verbatim>\<open>rows.Err()\<close> after the iteration (\<open>True\<close>).\<close>

definition queryList :: "bool \<Rightarrow> call \<Rightarrow> (db \<Rightarrow> sql_error + dl_row list) \<Rightarrow> db \<Rightarrow> DeliveryLog list result" where
  "queryList lazy c q d =
     (case read_run c q d of
        Inr rs \<Rightarrow> Inr (map scanDeliveryLog rs)
      | Inl e \<Rightarrow>
         (if lazy then Inl (ErrOther ''store: iterate delivery_logs'')
          else if isInvalidUUID e then Inr []
          else Inl (ErrOther ''store: query delivery_logs'')))"

definition by_webhook :: "pgsql \<Rightarrow> string \<Rightarrow> db \<Rightarrow> sql_error + dl_row list" where
  "by_webhook pg wid d =
     (case uuid_in pg wid of
        None \<Rightarrow> Inl (PgError ''22P02'')
      | Some w \<Rightarrow> Inr (sort_key (\<lambda>r. (d_replay_number r, d_attempt_number r))
                        (filter (\<lambda>r. d_webhook_id r = w) (delivery_logs d))))"

definition ListByWebhookID :: "pgsql \<Rightarrow> bool \<Rightarrow> call \<Rightarrow> db \<Rightarrow> string \<Rightarrow> DeliveryLog list result" where
  "ListByWebhookID pg lazy c d wid = queryList lazy c (by_webhook pg wid) d"

definition by_subscription :: "pgsql \<Rightarrow> string \<Rightarrow> nat \<Rightarrow> db \<Rightarrow> sql_error + dl_row list" where
  "by_subscription pg sid limit d =
     (case uuid_in pg sid of
        None \<Rightarrow> Inl (PgError ''22P02'')
      | Some i \<Rightarrow> Inr (take limit (rev (sort_key d_created_at
                        (filter (\<lambda>r. d_subscription_id r = i) (delivery_logs d))))))"

definition ListBySubscription ::
  "pgsql \<Rightarrow> bool \<Rightarrow> call \<Rightarrow> db \<Rightarrow> string \<Rightarrow> int \<Rightarrow> DeliveryLog list result" where
  "ListBySubscription pg lazy c d sid limit =
     (let limit = (if limit \<le> 0 then 50 else limit) in
      queryList lazy c (by_subscription pg sid (nat limit)) d)"

definition CountByStatusSince ::
  "call \<Rightarrow> db \<Rightarrow> time \<Rightarrow> (DeliveryStatus \<rightharpoonup> nat) result" where
  "CountByStatusSince c d since =
     (if c_stmt_fails c 0 then Inl (ErrOther ''store: count by status'')
      else Inr (\<lambda>st. let n = rows_affected (\<lambda>r. d_created_at r \<ge> since \<and> d_status r = st) (delivery_logs d)
                     in if n = 0 then None else Some n))"

section \<open>Ingest\<close>

text \<open>A freshly inserted attempt.\<close>

definition pending_row ::
  "call \<Rightarrow> string \<Rightarrow> string \<Rightarrow> string \<Rightarrow> string \<Rightarrow> string option \<Rightarrow> int \<Rightarrow> int \<Rightarrow> time \<Rightarrow> dl_row" where
  "pending_row c wid sid url payload et attempt replay due =
     \<lparr>d_id = c_uuid c, d_webhook_id = wid, d_subscription_id = sid, d_target_url = url,
      d_payload = payload, d_event_type = et, d_attempt_number = attempt,
      d_replay_number = replay, d_status = StatusPending, d_http_status = None,
      d_error_details = None, d_next_retry_at = Some due, d_in_dlq = False,
      d_created_at = c_now c, d_updated_at = c_now c\<rparr>"

text \<open>\<^verbatim>\<open>INSERT INTO ingest_idempotency .. ON CONFLICT DO NOTHING RETURNING webhook_id\<close>.\<close>

definition insert_idem :: "pgsql \<Rightarrow> call \<Rightarrow> string \<Rightarrow> string \<Rightarrow> string \<Rightarrow> string stmt" where
  "insert_idem pg c sid key wid d =
     (case (uuid_in pg sid, uuid_in pg wid) of
        (Some s, Some w) \<Rightarrow>
          (if idem_by_key d (s, key) \<noteq> None then (Inl ErrNoRows, d)
           else if sub_by_id d s = None then (Inl (PgError ''23503''), d)
           else (Inr w, d\<lparr>ingest_idempotency :=
                  sql_insert \<lparr>i_subscription_id = s, i_idempotency_key = key, i_webhook_id = w,
                              i_created_at = c_now c\<rparr> (ingest_idempotency d)\<rparr>))
      | _ \<Rightarrow> (Inl (PgError ''22P02''), d))"

definition select_idem :: "pgsql \<Rightarrow> string \<Rightarrow> string \<Rightarrow> string stmt" where
  "select_idem pg sid key d =
     (case uuid_in pg sid of
        None \<Rightarrow> (Inl (PgError ''22P02''), d)
      | Some s \<Rightarrow> (case idem_by_key d (s, key) of
                     None \<Rightarrow> (Inl ErrNoRows, d)
                   | Some r \<Rightarrow> (Inr (i_webhook_id r), d)))"

definition insert_pending :: "pgsql \<Rightarrow> call \<Rightarrow> string \<Rightarrow> IngestParams \<Rightarrow> string stmt" where
  "insert_pending pg c wid p d =
     (case (uuid_in pg wid, uuid_in pg (P_SubscriptionID p)) of
        (Some w, Some s) \<Rightarrow>
           insert_log (pending_row c w s (P_TargetURL p) (jsonb_in pg (P_Payload p))
                         (nullStr (P_EventType p)) 1 0 (c_now c)) d
      | _ \<Rightarrow> (Inl (PgError ''22P02''), d))"

text \<open>The second half of the transaction, for the webhook id in force.\<close>

definition ingest_insert_tx :: "pgsql \<Rightarrow> call \<Rightarrow> string \<Rightarrow> IngestParams \<Rightarrow> tx \<Rightarrow> IngestResult result \<times> tx" where
  "ingest_insert_tx pg c wid p t =
     (case tx_run c 1 (insert_pending pg c wid p) t of
        (Inl e, t') \<Rightarrow>
          (if isForeignKeyViolation e then (Inl ErrNotFound, t')
           else (Inl (ErrOther ''store: insert pending delivery_log''), t'))
      | (Inr logID, t') \<Rightarrow>
          (Inr \<lparr>R_WebhookID = wid, R_DeliveryLogID = logID, R_Duplicate = False\<rparr>, t'))"

definition ingest_tx :: "pgsql \<Rightarrow> call \<Rightarrow> IngestParams \<Rightarrow> tx \<Rightarrow> IngestResult result \<times> tx" where
  "ingest_tx pg c p t =
     (if P_IdempotencyKey p \<noteq> [] then
        (case tx_run c 0 (insert_idem pg c (P_SubscriptionID p) (P_IdempotencyKey p) (P_WebhookID p)) t of
           (Inr inserted, t') \<Rightarrow> ingest_insert_tx pg c inserted p t'
         | (Inl e, t') \<Rightarrow>
            (if e = ErrNoRows then
               (case tx_run c 1 (select_idem pg (P_SubscriptionID p) (P_IdempotencyKey p)) t' of
                  (Inl e, t'') \<Rightarrow> (Inl (ErrOther ''store: read stored idempotency webhook_id''), t'')
                | (Inr stored, t'') \<Rightarrow>
                    (Inr \<lparr>R_WebhookID = stored, R_DeliveryLogID = [], R_Duplicate = True\<rparr>, t''))
             else if isForeignKeyViolation e then (Inl ErrNotFound, t')
             else (Inl (ErrOther ''store: insert idempotency''), t')))
      else ingest_insert_tx pg c (P_WebhookID p) p t)"

definition IngestPending ::
  "(string \<Rightarrow> bool) \<Rightarrow> pgsql \<Rightarrow> call \<Rightarrow> db \<Rightarrow> IngestParams \<Rightarrow> IngestResult result \<times> db" where
  "IngestPending json_valid pg c d p =
     (if \<not> json_valid (P_Payload p) then
        (Inl (ErrInvalidInput ''invalid input: payload must be valid JSON''), d)
      else if length (P_TargetURL p) > MaxTargetURLLength then
        (Inl (ErrInvalidInput ''invalid input: target_url must be at most 2048 characters''), d)
      else case ValidateEventType (P_EventType p) of
        Inl e \<Rightarrow> (Inl e, d)
      | Inr _ \<Rightarrow> inTx c ''ingest'' (ingest_tx pg c p) d)"

section \<open>Attempt transitions\<close>

abbreviation is_pending :: "dl_row \<Rightarrow> bool" where
  "is_pending r \<equiv> d_status r = StatusPending"

definition due :: "time \<Rightarrow> dl_row \<Rightarrow> bool" where
  "due now r \<longleftrightarrow> (case d_next_retry_at r of None \<Rightarrow> False | Some t \<Rightarrow> t \<le> now)"

definition lease_row :: "call \<Rightarrow> duration \<Rightarrow> dl_row \<Rightarrow> dl_row" where
  "lease_row c lease r =
     r\<lparr>d_next_retry_at := Some (c_now c + pg_interval (secondsArg lease)), d_updated_at := c_now c\<rparr>"

definition ClaimPending :: "pgsql \<Rightarrow> call \<Rightarrow> db \<Rightarrow> string \<Rightarrow> duration \<Rightarrow> bool result \<times> db" where
  "ClaimPending pg c d lid lease =
     (case pool_run c (update_log pg lid (\<lambda>r. is_pending r \<and> due (c_now c) r) (lease_row c lease)) d of
        (Inl e, d') \<Rightarrow>
          (if isInvalidUUID e then (Inr False, d') else (Inl (ErrOther ''store: claim pending''), d'))
      | (Inr n, d') \<Rightarrow> (Inr (n = 1), d'))"

definition success_row :: "call \<Rightarrow> int \<Rightarrow> dl_row \<Rightarrow> dl_row" where
  "success_row c st r =
     r\<lparr>d_status := StatusSuccess, d_http_status := Some st, d_error_details := None,
       d_updated_at := c_now c\<rparr>"

definition reset_failures :: "call \<Rightarrow> sub_row \<Rightarrow> sub_row" where
  "reset_failures c r = r\<lparr>s_consecutive_failures := 0, s_updated_at := c_now c\<rparr>"

definition mark_success_tx ::
  "pgsql \<Rightarrow> call \<Rightarrow> string \<Rightarrow> string \<Rightarrow> int \<Rightarrow> tx \<Rightarrow> (bool \<times> bool) result \<times> tx" where
  "mark_success_tx pg c lid sid st t =
     (case tx_run c 0 (update_log pg lid is_pending (success_row c st)) t of
        (Inl e, t1) \<Rightarrow> (Inl (ErrOther ''store: mark success''), t1)
      | (Inr n, t1) \<Rightarrow>
         (if n = 0 then (Inr (False, False), t1)
          else case tx_run c 1
                 (update_sub pg sid (\<lambda>r. s_consecutive_failures r \<noteq> 0) (reset_failures c)) t1 of
            (Inl e, t2) \<Rightarrow> (Inl (ErrOther ''store: reset consecutive_failures''), t2)
          | (Inr m, t2) \<Rightarrow> (Inr (True, m = 1), t2)))"

definition MarkSuccess ::
  "pgsql \<Rightarrow> call \<Rightarrow> db \<Rightarrow> string \<Rightarrow> string \<Rightarrow> int \<Rightarrow> (bool \<times> bool) result \<times> db" where
  "MarkSuccess pg c d lid sid st = inTx c ''success'' (mark_success_tx pg c lid sid st) d"

definition final_row :: "call \<Rightarrow> int option \<Rightarrow> string \<Rightarrow> dl_row \<Rightarrow> dl_row" where
  "final_row c st err r =
     r\<lparr>d_status := StatusFinalFailure, d_in_dlq := True, d_http_status := st,
       d_error_details := nullStr err, d_updated_at := c_now c\<rparr>"

definition bump_failures :: "call \<Rightarrow> int \<Rightarrow> sub_row \<Rightarrow> sub_row" where
  "bump_failures c threshold r =
     r\<lparr>s_consecutive_failures := s_consecutive_failures r + 1,
       s_is_active := (s_consecutive_failures r + 1 < threshold) \<and> s_is_active r,
       s_updated_at := c_now c\<rparr>"

definition finalize_tx ::
  "pgsql \<Rightarrow> call \<Rightarrow> string \<Rightarrow> string \<Rightarrow> int option \<Rightarrow> string \<Rightarrow> int \<Rightarrow> tx \<Rightarrow> (bool \<times> bool) result \<times> tx" where
  "finalize_tx pg c lid sid st err threshold t =
     (case tx_run c 0 (update_log pg lid is_pending (final_row c st err)) t of
        (Inl e, t1) \<Rightarrow> (Inl (ErrOther ''store: cas final_failure''), t1)
      | (Inr n, t1) \<Rightarrow>
         (if n = 0 then (Inr (False, False), t1)
          else case tx_run c 1 (update_sub_returning pg sid (bump_failures c threshold)) t1 of
            (Inr s, t2) \<Rightarrow> (Inr (True, \<not> s_is_active s), t2)
          | (Inl e, t2) \<Rightarrow>
             (if e = ErrNoRows then (Inr (True, False), t2)
              else (Inl (ErrOther ''store: bump consecutive_failures''), t2))))"

definition FinalizeFailure ::
  "pgsql \<Rightarrow> call \<Rightarrow> db \<Rightarrow> string \<Rightarrow> string \<Rightarrow> int option \<Rightarrow> string \<Rightarrow> int \<Rightarrow> (bool \<times> bool) result \<times> db" where
  "FinalizeFailure pg c d lid sid st err threshold =
     inTx c ''finalize'' (finalize_tx pg c lid sid st err threshold) d"

definition dropped_row :: "call \<Rightarrow> string \<Rightarrow> dl_row \<Rightarrow> dl_row" where
  "dropped_row c err r =
     r\<lparr>d_status := StatusFinalFailure, d_in_dlq := False, d_http_status := None,
       d_error_details := nullStr err, d_next_retry_at := None, d_updated_at := c_now c\<rparr>"

definition MarkDropped :: "pgsql \<Rightarrow> call \<Rightarrow> db \<Rightarrow> string \<Rightarrow> string \<Rightarrow> bool result \<times> db" where
  "MarkDropped pg c d lid err =
     (case pool_run c (update_log pg lid is_pending (dropped_row c err)) d of
        (Inl e, d') \<Rightarrow> (Inl (ErrOther ''store: mark dropped''), d')
      | (Inr n, d') \<Rightarrow> (Inr (n = 1), d'))"

definition failed_row :: "call \<Rightarrow> int option \<Rightarrow> string \<Rightarrow> dl_row \<Rightarrow> dl_row" where
  "failed_row c st err r =
     r\<lparr>d_status := StatusFailedAttempt, d_http_status := st, d_error_details := nullStr err,
       d_updated_at := c_now c\<rparr>"

definition successor_row :: "call \<Rightarrow> time \<Rightarrow> dl_row \<Rightarrow> dl_row" where
  "successor_row c at r =
     pending_row c (d_webhook_id r) (d_subscription_id r) (d_target_url r) (d_payload r)
       (d_event_type r) (d_attempt_number r + 1) (d_replay_number r) at"

text \<open>\<^verbatim>\<open>INSERT .. SELECT .. FROM delivery_logs WHERE id = $1 RETURNING id\<close>.\<close>

definition insert_from :: "pgsql \<Rightarrow> string \<Rightarrow> (dl_row \<Rightarrow> dl_row) \<Rightarrow> string stmt" where
  "insert_from pg lid mk d =
     (case uuid_in pg lid of
        None \<Rightarrow> (Inl (PgError ''22P02''), d)
      | Some i \<Rightarrow> (case log_by_id d i of
                     None \<Rightarrow> (Inl ErrNoRows, d)
                   | Some r \<Rightarrow> insert_log (mk r) d))"

definition fail_retry_tx ::
  "pgsql \<Rightarrow> call \<Rightarrow> string \<Rightarrow> int option \<Rightarrow> string \<Rightarrow> time \<Rightarrow> tx \<Rightarrow> (string \<times> bool) result \<times> tx" where
  "fail_retry_tx pg c lid st err at t =
     (case tx_run c 0 (update_log pg lid is_pending (failed_row c st err)) t of
        (Inl e, t1) \<Rightarrow> (Inl (ErrOther ''store: cas failed_attempt''), t1)
      | (Inr n, t1) \<Rightarrow>
         (if n = 0 then (Inr ([], False), t1)
          else case tx_run c 1 (insert_from pg lid (successor_row c at)) t1 of
            (Inl e, t2) \<Rightarrow> (Inl (ErrOther ''store: insert retry successor''), t2)
          | (Inr sid, t2) \<Rightarrow> (Inr (sid, True), t2)))"

definition FailAndScheduleRetry ::
  "pgsql \<Rightarrow> call \<Rightarrow> db \<Rightarrow> string \<Rightarrow> int option \<Rightarrow> string \<Rightarrow> time \<Rightarrow> (string \<times> bool) result \<times> db" where
  "FailAndScheduleRetry pg c d lid st err at = inTx c ''retry'' (fail_retry_tx pg c lid st err at) d"

definition rescheduled_row :: "call \<Rightarrow> time \<Rightarrow> dl_row \<Rightarrow> dl_row" where
  "rescheduled_row c at r = r\<lparr>d_next_retry_at := Some at, d_updated_at := c_now c\<rparr>"

definition RescheduleSamePending :: "pgsql \<Rightarrow> call \<Rightarrow> db \<Rightarrow> string \<Rightarrow> time \<Rightarrow> bool result \<times> db" where
  "RescheduleSamePending pg c d lid at =
     (case pool_run c (update_log pg lid is_pending (rescheduled_row c at)) d of
        (Inl e, d') \<Rightarrow> (Inl (ErrOther ''store: reschedule same pending''), d')
      | (Inr n, d') \<Rightarrow> (Inr (n = 1), d'))"

section \<open>Recovery queries\<close>

definition due_of :: "dl_row \<Rightarrow> time" where
  "due_of r = (case d_next_retry_at r of None \<Rightarrow> 0 | Some t \<Rightarrow> t)"

definition after_cursor :: "RecoveryCursor option \<Rightarrow> dl_row \<Rightarrow> bool" where
  "after_cursor cur r = (case cur of
      None \<Rightarrow> True
    | Some a \<Rightarrow> due_of r > RC_DueAt a \<or> (due_of r = RC_DueAt a \<and> d_id r > RC_ID a))"

definition due_rows :: "time \<Rightarrow> RecoveryCursor option \<Rightarrow> db \<Rightarrow> dl_row list" where
  "due_rows now cur d =
     sort_key (\<lambda>r. (due_of r, d_id r))
       (filter (\<lambda>r. is_pending r \<and> due now r \<and> after_cursor cur r) (delivery_logs d))"

definition FindDuePending ::
  "call \<Rightarrow> db \<Rightarrow> nat \<Rightarrow> RecoveryCursor option \<Rightarrow> DuePending list result" where
  "FindDuePending c d limit cur =
     (if c_stmt_fails c 0 then Inl (ErrOther ''store: find due pending'')
      else Inr (map (\<lambda>r. \<lparr>DP_ID = d_id r, DP_DueAt = due_of r\<rparr>) (take limit (due_rows (c_now c) cur d))))"

text \<open>\<open>locked\<close> are the rows other transactions hold, which \<^verbatim>\<open>FOR UPDATE SKIP LOCKED\<close> passes over.\<close>

definition lease_less :: "call \<Rightarrow> duration \<Rightarrow> dl_row \<Rightarrow> bool" where
  "lease_less c orphan r \<longleftrightarrow> is_pending r \<and> d_next_retry_at r = None
     \<and> d_created_at r \<le> c_now c - pg_interval (secondsArg orphan)"

definition rearm_ids :: "call \<Rightarrow> (string \<Rightarrow> bool) \<Rightarrow> nat \<Rightarrow> duration \<Rightarrow> db \<Rightarrow> string list" where
  "rearm_ids c locked limit orphan d =
     take limit (map d_id (sort_key (\<lambda>r. (d_created_at r, d_id r))
       (filter (\<lambda>r. lease_less c orphan r \<and> \<not> locked (d_id r)) (delivery_logs d))))"

definition rearm_stmt :: "call \<Rightarrow> (string \<Rightarrow> bool) \<Rightarrow> nat \<Rightarrow> duration \<Rightarrow> string list stmt" where
  "rearm_stmt c locked limit orphan d =
     (let ids = rearm_ids c locked limit orphan d in
      (Inr ids, d\<lparr>delivery_logs := sql_update (\<lambda>r. d_id r \<in> set ids)
                     (\<lambda>r. r\<lparr>d_next_retry_at := Some (c_now c), d_updated_at := c_now c\<rparr>)
                     (delivery_logs d)\<rparr>))"

definition RearmLeaseLessPending ::
  "call \<Rightarrow> (string \<Rightarrow> bool) \<Rightarrow> db \<Rightarrow> nat \<Rightarrow> duration \<Rightarrow> string list result \<times> db" where
  "RearmLeaseLessPending c locked d limit orphan =
     (case pool_run c (rearm_stmt c locked limit orphan) d of
        (Inl e, d') \<Rightarrow> (Inl (ErrOther ''store: rearm lease-less pending''), d')
      | (Inr ids, d') \<Rightarrow> (Inr ids, d'))"

section \<open>Dead letters and retention\<close>

definition acked_row :: "call \<Rightarrow> dl_row \<Rightarrow> dl_row" where
  "acked_row c r = r\<lparr>d_in_dlq := False, d_updated_at := c_now c\<rparr>"

definition in_dlq_of :: "string \<Rightarrow> string \<Rightarrow> dl_row \<Rightarrow> bool" where
  "in_dlq_of s w r \<longleftrightarrow> d_subscription_id r = s \<and> d_webhook_id r = w \<and> d_in_dlq r"

text \<open>\<^verbatim>\<open>UPDATE .. SET in_dlq = FALSE WHERE .. RETURNING id, replay_number\<close>, first row read.\<close>

definition claim_dlq :: "pgsql \<Rightarrow> call \<Rightarrow> string \<Rightarrow> string \<Rightarrow> (string \<times> int) stmt" where
  "claim_dlq pg c sid wid d =
     (case (uuid_in pg sid, uuid_in pg wid) of
        (Some s, Some w) \<Rightarrow>
          (case filter (in_dlq_of s w) (delivery_logs d) of
             [] \<Rightarrow> (Inl ErrNoRows, d)
           | r # _ \<Rightarrow> (Inr (d_id r, d_replay_number r),
                       d\<lparr>delivery_logs := sql_update (in_dlq_of s w) (acked_row c) (delivery_logs d)\<rparr>))
      | _ \<Rightarrow> (Inl (PgError ''22P02''), d))"

definition AckDLQ :: "pgsql \<Rightarrow> call \<Rightarrow> db \<Rightarrow> string \<Rightarrow> string \<Rightarrow> (string \<times> bool) result \<times> db" where
  "AckDLQ pg c d sid wid =
     (case pool_run c (claim_dlq pg c sid wid) d of
        (Inl e, d') \<Rightarrow> (if isAbsent e then (Inr ([], False), d') else (Inl (ErrOther ''store: ack dlq''), d'))
      | (Inr (claimed, _), d') \<Rightarrow> (Inr (claimed, True), d'))"

definition replay_row :: "call \<Rightarrow> int \<Rightarrow> dl_row \<Rightarrow> dl_row" where
  "replay_row c replay r =
     pending_row c (d_webhook_id r) (d_subscription_id r) (d_target_url r) (d_payload r)
       (d_event_type r) 1 replay (c_now c)"

definition replay_tx ::
  "pgsql \<Rightarrow> call \<Rightarrow> string \<Rightarrow> string \<Rightarrow> tx \<Rightarrow> (string \<times> string \<times> bool) result \<times> tx" where
  "replay_tx pg c sid wid t =
     (case tx_run c 0 (claim_dlq pg c sid wid) t of
        (Inl e, t1) \<Rightarrow> (if isAbsent e then (Inr ([], [], False), t1) else (Inl (ErrOther ''store: claim replay''), t1))
      | (Inr (claimed, replay), t1) \<Rightarrow>
         (case tx_run c 1 (insert_from pg claimed (replay_row c (replay + 1))) t1 of
            (Inl e, t2) \<Rightarrow> (Inl (ErrOther ''store: insert replay chain''), t2)
          | (Inr newID, t2) \<Rightarrow> (Inr (claimed, newID, True), t2)))"

definition ReplayDLQ ::
  "pgsql \<Rightarrow> call \<Rightarrow> db \<Rightarrow> string \<Rightarrow> string \<Rightarrow> (string \<times> string \<times> bool) result \<times> db" where
  "ReplayDLQ pg c d sid wid = inTx c ''replay'' (replay_tx pg c sid wid) d"

definition expired :: "call \<Rightarrow> duration \<Rightarrow> dl_row \<Rightarrow> bool" where
  "expired c retention r \<longleftrightarrow> d_created_at r < c_now c - pg_interval (secondsArg retention)
     \<and> \<not> d_in_dlq r \<and> d_status r \<noteq> StatusPending"

definition delete_expired_stmt :: "call \<Rightarrow> duration \<Rightarrow> nat stmt" where
  "delete_expired_stmt c retention d =
     (Inr (rows_affected (expired c retention) (delivery_logs d)),
      d\<lparr>delivery_logs := sql_delete (expired c retention) (delivery_logs d)\<rparr>)"

definition DeleteExpired :: "call \<Rightarrow> db \<Rightarrow> duration \<Rightarrow> nat result \<times> db" where
  "DeleteExpired c d retention =
     (case pool_run c (delete_expired_stmt c retention) d of
        (Inl e, d') \<Rightarrow> (Inl (ErrOther ''store: delete expired''), d')
      | (Inr n, d') \<Rightarrow> (Inr n, d'))"

definition stale_idem :: "call \<Rightarrow> duration \<Rightarrow> idem_row \<Rightarrow> bool" where
  "stale_idem c ttl r \<longleftrightarrow> i_created_at r < c_now c - pg_interval (secondsArg ttl)"

definition prune_stmt :: "call \<Rightarrow> duration \<Rightarrow> nat stmt" where
  "prune_stmt c ttl d =
     (Inr (rows_affected (stale_idem c ttl) (ingest_idempotency d)),
      d\<lparr>ingest_idempotency := sql_delete (stale_idem c ttl) (ingest_idempotency d)\<rparr>)"

definition PruneIdempotency :: "call \<Rightarrow> db \<Rightarrow> duration \<Rightarrow> nat result \<times> db" where
  "PruneIdempotency c d ttl =
     (case pool_run c (prune_stmt c ttl) d of
        (Inl e, d') \<Rightarrow> (Inl (ErrOther ''store: prune idempotency''), d')
      | (Inr n, d') \<Rightarrow> (Inr n, d'))"

definition ListInDLQ :: "call \<Rightarrow> db \<Rightarrow> string list result" where
  "ListInDLQ c d =
     (if c_stmt_fails c 0 then Inl (ErrOther ''store: list in_dlq'')
      else Inr (map d_id (filter d_in_dlq (delivery_logs d))))"

definition IsInDLQ :: "pgsql \<Rightarrow> call \<Rightarrow> db \<Rightarrow> string \<Rightarrow> bool result" where
  "IsInDLQ pg c d lid =
     (case read_run c (select_log pg lid) d of
        Inr r \<Rightarrow> Inr (d_in_dlq r)
      | Inl e \<Rightarrow> if isAbsent e then Inr False else Inl (ErrOther ''store: is in_dlq''))"

definition aged_dlq :: "call \<Rightarrow> duration \<Rightarrow> dl_row \<Rightarrow> bool" where
  "aged_dlq c maxAge r \<longleftrightarrow> d_in_dlq r \<and> d_updated_at r < c_now c - pg_interval (secondsArg maxAge)"

definition force_ack_stmt :: "call \<Rightarrow> duration \<Rightarrow> string list stmt" where
  "force_ack_stmt c maxAge d =
     (Inr (map d_id (filter (aged_dlq c maxAge) (delivery_logs d))),
      d\<lparr>delivery_logs := sql_update (aged_dlq c maxAge) (acked_row c) (delivery_logs d)\<rparr>)"

definition ForceAckOldDLQ :: "call \<Rightarrow> db \<Rightarrow> duration \<Rightarrow> string list result \<times> db" where
  "ForceAckOldDLQ c d maxAge =
     (case pool_run c (force_ack_stmt c maxAge) d of
        (Inl e, d') \<Rightarrow> (Inl (ErrOther ''store: force-ack old dlq''), d')
      | (Inr ids, d') \<Rightarrow> (Inr ids, d'))"

end
