(* ===== verification/Subscription_Store.thy ===== *)
theory Subscription_Store
  imports Delivery_Store
begin

text \<open>
  \<^verbatim>\<open>internal/store/subscription_repo.go\<close>. \<open>Create\<close> and \<open>Update\<close> write fields back into the
  caller's struct; the model returns the updated struct. Deleting a subscription cascades to its
  delivery logs and idempotency records, as the foreign keys of the schema say.
\<close>

definition select_sub :: "pgsql \<Rightarrow> string \<Rightarrow> db \<Rightarrow> sql_error + sub_row" where
  "select_sub pg sid d =
     (case uuid_in pg sid of
        None \<Rightarrow> Inl (PgError ''22P02'')
      | Some i \<Rightarrow> (case sub_by_id d i of None \<Rightarrow> Inl ErrNoRows | Some r \<Rightarrow> Inr r))"

definition GetSubByID :: "pgsql \<Rightarrow> call \<Rightarrow> db \<Rightarrow> string \<Rightarrow> Subscription result" where
  "GetSubByID pg c d sid =
     (case read_run c (select_sub pg sid) d of
        Inr r \<Rightarrow> Inr (scanSubscription r)
      | Inl e \<Rightarrow> if isAbsent e then Inl ErrNotFound else Inl (ErrOther ''store: get subscription''))"

definition insert_sub :: "call \<Rightarrow> Subscription \<Rightarrow> sub_row stmt" where
  "insert_sub c s d =
     (let r = \<lparr>s_id = c_uuid c, s_target_url = S_TargetURL s, s_secret_key = S_SecretKey s,
               s_previous_secret_key = None, s_secret_rotated_at = None,
               s_event_types = S_EventTypes s, s_is_active = S_IsActive s,
               s_consecutive_failures = 0, s_created_at = c_now c, s_updated_at = c_now c\<rparr> in
      if sub_by_id d (c_uuid c) \<noteq> None then (Inl (PgError ''23505''), d)
      else (Inr r, d\<lparr>subscriptions := sql_insert r (subscriptions d)\<rparr>))"

definition CreateSub :: "call \<Rightarrow> db \<Rightarrow> Subscription \<Rightarrow> Subscription result \<times> db" where
  "CreateSub c d s =
     (case pool_run c (insert_sub c s) d of
        (Inl e, d') \<Rightarrow> (Inl (ErrOther ''store: create subscription''), d')
      | (Inr r, d') \<Rightarrow>
          (Inr (s\<lparr>S_ID := s_id r, S_CreatedAt := s_created_at r, S_UpdatedAt := s_updated_at r\<rparr>), d'))"

abbreviation sub_pos :: "sub_row \<Rightarrow> time \<times> string" where
  "sub_pos r \<equiv> (s_created_at r, s_id r)"

definition ListSubs ::
  "pgsql \<Rightarrow> call \<Rightarrow> db \<Rightarrow> int \<Rightarrow> Cursor option \<Rightarrow> Subscription Page result" where
  "ListSubs pg c d limit0 after =
     (let limit = nat (if limit0 \<le> 0 then 20 else limit0) in
      if c_stmt_fails c 0 then Inl (ErrOther ''store: list subscriptions'')
      else case (case after of
                   None \<Rightarrow> Some (\<lambda>r. True)
                 | Some a \<Rightarrow> (case uuid_in pg (C_ID a) of
                                None \<Rightarrow> None
                              | Some i \<Rightarrow> Some (\<lambda>r. sub_pos r < (C_CreatedAt a, i)))) of
        None \<Rightarrow> Inl (ErrOther ''store: list subscriptions'')
      | Some P \<Rightarrow>
         (let items = map scanSubscription
                (take (limit + 1) (rev (sort_key sub_pos (filter P (subscriptions d))))) in
          if length items > limit then
            (let last = items ! (limit - 1) in
             Inr \<lparr>Items = take limit items,
                  NextCursor = Some \<lparr>C_CreatedAt = S_CreatedAt last, C_ID = S_ID last\<rparr>\<rparr>)
          else Inr \<lparr>Items = items, NextCursor = None\<rparr>))"

definition updated_sub :: "call \<Rightarrow> Subscription \<Rightarrow> sub_row \<Rightarrow> sub_row" where
  "updated_sub c s r =
     r\<lparr>s_target_url := S_TargetURL s, s_event_types := S_EventTypes s,
       s_is_active := S_IsActive s, s_updated_at := c_now c\<rparr>"

definition UpdateSub :: "pgsql \<Rightarrow> call \<Rightarrow> db \<Rightarrow> Subscription \<Rightarrow> Subscription result \<times> db" where
  "UpdateSub pg c d s =
     (case pool_run c (update_sub_returning pg (S_ID s) (updated_sub c s)) d of
        (Inl e, d') \<Rightarrow>
          (if isAbsent e then (Inl ErrNotFound, d') else (Inl (ErrOther ''store: update subscription''), d'))
      | (Inr r, d') \<Rightarrow> (Inr (s\<lparr>S_UpdatedAt := s_updated_at r\<rparr>), d'))"

definition rotated_sub :: "call \<Rightarrow> string \<Rightarrow> sub_row \<Rightarrow> sub_row" where
  "rotated_sub c newSecret r =
     r\<lparr>s_previous_secret_key := Some (s_secret_key r), s_secret_key := newSecret,
       s_secret_rotated_at := Some (c_now c), s_updated_at := c_now c\<rparr>"

definition RotateSecretSub :: "pgsql \<Rightarrow> call \<Rightarrow> db \<Rightarrow> string \<Rightarrow> string \<Rightarrow> Subscription result \<times> db" where
  "RotateSecretSub pg c d sid newSecret =
     (case pool_run c (update_sub_returning pg sid (rotated_sub c newSecret)) d of
        (Inl e, d') \<Rightarrow>
          (if isAbsent e then (Inl ErrNotFound, d') else (Inl (ErrOther ''store: rotate secret''), d'))
      | (Inr r, d') \<Rightarrow> (Inr (scanSubscription r), d'))"

definition delete_sub_stmt :: "pgsql \<Rightarrow> string \<Rightarrow> nat stmt" where
  "delete_sub_stmt pg sid d =
     (case uuid_in pg sid of
        None \<Rightarrow> (Inl (PgError ''22P02''), d)
      | Some i \<Rightarrow>
          (Inr (rows_affected (\<lambda>r. s_id r = i) (subscriptions d)),
           d\<lparr>subscriptions := sql_delete (\<lambda>r. s_id r = i) (subscriptions d),
             delivery_logs := sql_delete (\<lambda>r. d_subscription_id r = i) (delivery_logs d),
             ingest_idempotency := sql_delete (\<lambda>r. i_subscription_id r = i) (ingest_idempotency d)\<rparr>))"

definition DeleteSub :: "pgsql \<Rightarrow> call \<Rightarrow> db \<Rightarrow> string \<Rightarrow> unit result \<times> db" where
  "DeleteSub pg c d sid =
     (case pool_run c (delete_sub_stmt pg sid) d of
        (Inl e, d') \<Rightarrow>
          (if isInvalidUUID e then (Inl ErrNotFound, d') else (Inl (ErrOther ''store: delete subscription''), d'))
      | (Inr n, d') \<Rightarrow> (if n = 0 then (Inl ErrNotFound, d') else (Inr (), d')))"

section \<open>Operations and the databases they leave\<close>

text \<open>The database component of an operation is that of its statement or transaction.\<close>

lemma snd_case_result:
  "snd (case p of (Inl e, d') \<Rightarrow> (f e, d') | (Inr x, d') \<Rightarrow> (g x, d')) = snd p"
  by (auto split: prod.splits sum.splits)

lemma store_op_db:
  "snd (ClaimPending pg c d lid lease) =
     snd (pool_run c (update_log pg lid (\<lambda>r. is_pending r \<and> due (c_now c) r) (lease_row c lease)) d)"
  "snd (MarkDropped pg c d lid err) =
     snd (pool_run c (update_log pg lid is_pending (dropped_row c err)) d)"
  "snd (RescheduleSamePending pg c d lid at) =
     snd (pool_run c (update_log pg lid is_pending (rescheduled_row c at)) d)"
  "snd (RearmLeaseLessPending c locked d limit orphan) =
     snd (pool_run c (rearm_stmt c locked limit orphan) d)"
  "snd (AckDLQ pg c d sid wid) = snd (pool_run c (claim_dlq pg c sid wid) d)"
  "snd (DeleteExpired c d retention) = snd (pool_run c (delete_expired_stmt c retention) d)"
  "snd (PruneIdempotency c d ttl) = snd (pool_run c (prune_stmt c ttl) d)"
  "snd (ForceAckOldDLQ c d maxAge) = snd (pool_run c (force_ack_stmt c maxAge) d)"
  "snd (CreateSub c d s) = snd (pool_run c (insert_sub c s) d)"
  "snd (UpdateSub pg c d s) = snd (pool_run c (update_sub_returning pg (S_ID s) (updated_sub c s)) d)"
  "snd (RotateSecretSub pg c d sid k) =
     snd (pool_run c (update_sub_returning pg sid (rotated_sub c k)) d)"
  "snd (DeleteSub pg c d sid) = snd (pool_run c (delete_sub_stmt pg sid) d)"
  by (auto simp: ClaimPending_def MarkDropped_def RescheduleSamePending_def
      RearmLeaseLessPending_def AckDLQ_def DeleteExpired_def PruneIdempotency_def
      ForceAckOldDLQ_def CreateSub_def UpdateSub_def RotateSecretSub_def DeleteSub_def
      split: prod.splits sum.splits if_splits)

end
