(* ===== verification/Store_Invariants.thy ===== *)
theory Store_Invariants
  imports Subscription_Store
begin

text \<open>
  The invariants of the delivery tables and their preservation by every repository operation.

  \<^item> \<open>core_inv\<close>: primary keys, foreign keys, per-row well-formedness (\<open>row_ok\<close>) and the chain
    structure (\<open>chain_ok\<close>): the attempts of one webhook are totally ordered by
    (replay number, attempt number), and a row that is still \<open>live\<close> (pending, or waiting in the
    dead-letter queue) is the last of its webhook. So a webhook has at most one live row.
  \<^item> \<open>succ_ok\<close>: every \<^verbatim>\<open>failed_attempt\<close> row has its successor in the table.
  \<^item> \<open>evolves\<close>: how a single row may change: its identity columns are fixed, a terminal status is
    final, and a row does not come back to life.

  Each operation has one preservation lemma, built from three facts about tables: an update by
  evolving rows, an insert of a later attempt, a delete of rows that are not live.
  \<open>db_step\<close> collects the operations into one step relation, in which any worker, handler or
  maintenance process may run any operation next, with any fault.
\<close>

section \<open>Invariants\<close>

definition pos :: "dl_row \<Rightarrow> int \<times> int" where
  "pos r = (d_replay_number r, d_attempt_number r)"

definition live :: "dl_row \<Rightarrow> bool" where
  "live r \<longleftrightarrow> is_pending r \<or> d_in_dlq r"

definition row_ok :: "time \<Rightarrow> dl_row \<Rightarrow> bool" where
  "row_ok now r \<longleftrightarrow> 1 \<le> d_attempt_number r \<and> 0 \<le> d_replay_number r
     \<and> (d_in_dlq r \<longrightarrow> d_status r = StatusFinalFailure)
     \<and> (is_pending r \<longrightarrow> d_next_retry_at r \<noteq> None) \<and> d_created_at r \<le> now"

definition chain_ok :: "dl_row list \<Rightarrow> bool" where
  "chain_ok t \<longleftrightarrow> (\<forall>r \<in> set t. \<forall>r' \<in> set t. d_webhook_id r = d_webhook_id r' \<longrightarrow> d_id r \<noteq> d_id r' \<longrightarrow>
     d_subscription_id r = d_subscription_id r' \<and> pos r \<noteq> pos r' \<and> (live r \<longrightarrow> pos r' < pos r))"

definition successor_of :: "dl_row \<Rightarrow> dl_row \<Rightarrow> bool" where
  "successor_of r r' \<longleftrightarrow> d_webhook_id r' = d_webhook_id r \<and> d_replay_number r' = d_replay_number r
     \<and> d_attempt_number r' = d_attempt_number r + 1 \<and> d_created_at r \<le> d_created_at r'"

definition succ_ok :: "dl_row list \<Rightarrow> bool" where
  "succ_ok t \<longleftrightarrow> (\<forall>r \<in> set t. d_status r = StatusFailedAttempt \<longrightarrow> (\<exists>r' \<in> set t. successor_of r r'))"

definition fk_ok :: "db \<Rightarrow> bool" where
  "fk_ok d \<longleftrightarrow> (\<forall>r \<in> set (delivery_logs d). sub_by_id d (d_subscription_id r) \<noteq> None)
     \<and> (\<forall>r \<in> set (ingest_idempotency d). sub_by_id d (i_subscription_id r) \<noteq> None)"

definition core_inv :: "pgsql \<Rightarrow> time \<Rightarrow> db \<Rightarrow> bool" where
  "core_inv pg now d \<longleftrightarrow>
     keyed s_id (subscriptions d) \<and> keyed d_id (delivery_logs d) \<and> keyed idem_key (ingest_idempotency d)
     \<and> fk_ok d \<and> (\<forall>r \<in> set (delivery_logs d). row_ok now r) \<and> chain_ok (delivery_logs d)
     \<and> (\<forall>r \<in> set (delivery_logs d). uuid_in pg (d_id r) = Some (d_id r))"

definition db_inv :: "pgsql \<Rightarrow> time \<Rightarrow> db \<Rightarrow> bool" where
  "db_inv pg now d \<longleftrightarrow> core_inv pg now d \<and> succ_ok (delivery_logs d)"

lemma row_ok_mono: "row_ok t r \<Longrightarrow> t \<le> t' \<Longrightarrow> row_ok t' r"
  by (auto simp: row_ok_def)

lemma core_inv_mono: "core_inv pg t d \<Longrightarrow> t \<le> t' \<Longrightarrow> core_inv pg t' d"
  by (auto simp: core_inv_def intro: row_ok_mono)

lemma db_inv_mono: "db_inv pg t d \<Longrightarrow> t \<le> t' \<Longrightarrow> db_inv pg t' d"
  by (auto simp: db_inv_def intro: core_inv_mono)

lemma db_inv_empty: "db_inv pg t empty_db"
  by (simp add: db_inv_def core_inv_def succ_ok_def empty_db_def keyed_def fk_ok_def chain_ok_def)

lemma core_inv_keyed: "core_inv pg t d \<Longrightarrow> keyed d_id (delivery_logs d)"
  by (simp add: core_inv_def)

lemma live_last:
  assumes "chain_ok t" "x \<in> set t" "live x" "r \<in> set t" "d_webhook_id r = d_webhook_id x"
    "d_id r \<noteq> d_id x"
  shows "\<not> live r \<and> pos r < pos x \<and> d_subscription_id r = d_subscription_id x"
  using assms unfolding chain_ok_def by (metis less_asym)

section \<open>How rows change\<close>

definition same_ident :: "dl_row \<Rightarrow> dl_row \<Rightarrow> bool" where
  "same_ident r r' \<longleftrightarrow> d_id r' = d_id r \<and> d_webhook_id r' = d_webhook_id r
     \<and> d_subscription_id r' = d_subscription_id r \<and> d_target_url r' = d_target_url r
     \<and> d_payload r' = d_payload r \<and> d_event_type r' = d_event_type r
     \<and> d_attempt_number r' = d_attempt_number r \<and> d_replay_number r' = d_replay_number r
     \<and> d_created_at r' = d_created_at r"

definition evolves :: "dl_row \<Rightarrow> dl_row \<Rightarrow> bool" where
  "evolves r r' \<longleftrightarrow> same_ident r r' \<and> (live r' \<longrightarrow> live r)
     \<and> (d_in_dlq r' \<longrightarrow> d_status r' = StatusFinalFailure)
     \<and> (is_pending r' \<longrightarrow> is_pending r \<and> d_next_retry_at r' \<noteq> None)
     \<and> (\<not> is_pending r \<longrightarrow> d_status r' = d_status r \<and> d_http_status r' = d_http_status r
          \<and> d_error_details r' = d_error_details r)"

lemma same_ident_refl [simp]: "same_ident r r"
  by (simp add: same_ident_def)

lemma same_ident_trans: "same_ident a b \<Longrightarrow> same_ident b c \<Longrightarrow> same_ident a c"
  by (simp add: same_ident_def)

lemma evolves_refl: "row_ok t r \<Longrightarrow> evolves r r"
  by (auto simp: evolves_def row_ok_def)

lemma evolves_row_ok: "row_ok t r \<Longrightarrow> evolves r r' \<Longrightarrow> row_ok t r'"
  by (auto simp: evolves_def row_ok_def same_ident_def)

lemma pos_same: "same_ident r r' \<Longrightarrow> pos r' = pos r"
  by (simp add: same_ident_def pos_def)

lemmas row_fun_defs = lease_row_def success_row_def final_row_def dropped_row_def failed_row_def
  rescheduled_row_def acked_row_def

lemma row_fun_sel [simp]:
  "d_id (lease_row c l r) = d_id r" "d_id (success_row c s r) = d_id r" "d_id (final_row c st err r) = d_id r"
  "d_id (dropped_row c err r) = d_id r" "d_id (failed_row c st err r) = d_id r"
  "d_id (rescheduled_row c at r) = d_id r" "d_id (acked_row c r) = d_id r"
  "d_status (lease_row c l r) = d_status r" "d_status (success_row c s r) = StatusSuccess"
  "d_status (final_row c st err r) = StatusFinalFailure" "d_status (dropped_row c err r) = StatusFinalFailure"
  "d_status (failed_row c st err r) = StatusFailedAttempt"
  "d_status (rescheduled_row c at r) = d_status r" "d_status (acked_row c r) = d_status r"
  by (simp_all add: row_fun_defs)

lemma evolves_row_funs:
  assumes "row_ok t r"
  shows "is_pending r \<Longrightarrow> evolves r (lease_row c l r)"
    and "is_pending r \<Longrightarrow> evolves r (success_row c st r)"
    and "is_pending r \<Longrightarrow> evolves r (final_row c st' err r)"
    and "is_pending r \<Longrightarrow> evolves r (dropped_row c err r)"
    and "is_pending r \<Longrightarrow> evolves r (failed_row c st' err r)"
    and "is_pending r \<Longrightarrow> evolves r (rescheduled_row c at r)"
    and "evolves r (acked_row c r)"
  using assms by (auto simp: evolves_def row_ok_def same_ident_def live_def row_fun_defs)

section \<open>Table facts\<close>

lemma fk_ok_logs:
  "fk_ok d \<Longrightarrow> (\<And>r. r \<in> set t \<Longrightarrow> sub_by_id d (d_subscription_id r) \<noteq> None) \<Longrightarrow>
     fk_ok (d\<lparr>delivery_logs := t\<rparr>)"
  by (simp add: fk_ok_def)

lemma chain_ok_update:
  assumes "chain_ok t" and "\<And>r. r \<in> set t \<Longrightarrow> P r \<Longrightarrow> evolves r (f r)"
  shows "chain_ok (sql_update P f t)"
proof -
  have h: "same_ident r0 (if P r0 then f r0 else r0) \<and> (live (if P r0 then f r0 else r0) \<longrightarrow> live r0)"
    if "r0 \<in> set t" for r0
    using assms(2) [OF that] by (simp add: evolves_def)
  show ?thesis
    unfolding chain_ok_def
  proof (intro ballI impI)
    fix r r'
    assume "r \<in> set (sql_update P f t)" "r' \<in> set (sql_update P f t)"
      and eq: "d_webhook_id r = d_webhook_id r'" "d_id r \<noteq> d_id r'"
    then obtain a b where ab: "a \<in> set t" "b \<in> set t"
      and r: "r = (if P a then f a else a)" "r' = (if P b then f b else b)"
      by (auto simp: in_sql_update)
    have sa: "same_ident a r" "live r \<longrightarrow> live a" and sb: "same_ident b r'"
      using h [OF ab(1)] h [OF ab(2)] unfolding r by simp_all
    have "d_webhook_id a = d_webhook_id b" "d_id a \<noteq> d_id b"
      using eq sa(1) sb by (simp_all add: same_ident_def)
    with assms(1) ab have "d_subscription_id a = d_subscription_id b \<and> pos a \<noteq> pos b
        \<and> (live a \<longrightarrow> pos b < pos a)"
      unfolding chain_ok_def by blast
    moreover note pos_same [OF sa(1)] pos_same [OF sb]
    moreover have "d_subscription_id r = d_subscription_id a" "d_subscription_id r' = d_subscription_id b"
      using sa(1) sb by (simp_all only: same_ident_def)
    ultimately show "d_subscription_id r = d_subscription_id r' \<and> pos r \<noteq> pos r'
        \<and> (live r \<longrightarrow> pos r' < pos r)"
      using sa(2) by metis
  qed
qed

lemma core_inv_update:
  assumes inv: "core_inv pg t d"
    and ev: "\<And>r. r \<in> set (delivery_logs d) \<Longrightarrow> P r \<Longrightarrow> evolves r (f r)"
    and k: "\<And>r. d_id (f r) = d_id r"
  shows "core_inv pg t (d\<lparr>delivery_logs := sql_update P f (delivery_logs d)\<rparr>)"
proof -
  let ?t = "delivery_logs d"
  have rows: "\<forall>r \<in> set ?t. row_ok t r" and can: "\<forall>r \<in> set ?t. uuid_in pg (d_id r) = Some (d_id r)"
    and fk: "fk_ok d" and ch: "chain_ok ?t"
    using inv by (simp_all add: core_inv_def)
  have "\<forall>r \<in> set (sql_update P f ?t). row_ok t r"
    using rows ev evolves_row_ok by (metis (no_types, lifting) in_sql_update)
  moreover have "\<forall>r \<in> set (sql_update P f ?t). uuid_in pg (d_id r) = Some (d_id r)"
    using can k by (auto simp: in_sql_update)
  moreover have "fk_ok (d\<lparr>delivery_logs := sql_update P f ?t\<rparr>)"
    using fk ev by (intro fk_ok_logs) (auto simp: in_sql_update fk_ok_def evolves_def same_ident_def)
  moreover have "keyed d_id (sql_update P f ?t)"
    using inv k by (auto simp: core_inv_def intro: keyed_update)
  ultimately show ?thesis
    using inv chain_ok_update [OF ch ev] by (simp add: core_inv_def)
qed

lemma core_inv_insert:
  assumes inv: "core_inv pg t d" and new: "log_by_id d (d_id n) = None"
    and sub: "sub_by_id d (d_subscription_id n) \<noteq> None"
    and ok: "row_ok t n" and can: "uuid_in pg (d_id n) = Some (d_id n)"
    and later: "\<And>r. r \<in> set (delivery_logs d) \<Longrightarrow> d_webhook_id r = d_webhook_id n \<Longrightarrow>
      \<not> live r \<and> pos r < pos n \<and> d_subscription_id r = d_subscription_id n"
  shows "core_inv pg t (d\<lparr>delivery_logs := sql_insert n (delivery_logs d)\<rparr>)"
proof -
  let ?t = "delivery_logs d"
  have ch: "chain_ok ?t" using inv by (simp add: core_inv_def)
  have "chain_ok (sql_insert n ?t)"
    unfolding chain_ok_def set_sql_insert
  proof (intro ballI impI)
    fix r r'
    assume r: "r \<in> insert n (set ?t)" "r' \<in> insert n (set ?t)"
      and eq: "d_webhook_id r = d_webhook_id r'" "d_id r \<noteq> d_id r'"
    show "d_subscription_id r = d_subscription_id r' \<and> pos r \<noteq> pos r' \<and> (live r \<longrightarrow> pos r' < pos r)"
    proof -
      consider "r = n" "r' \<in> set ?t" | "r' = n" "r \<in> set ?t" | "r \<in> set ?t" "r' \<in> set ?t"
        using r eq(2) by blast
      then show ?thesis
      proof cases
        case 1
        with later [of r'] eq show ?thesis by auto
      next
        case 2
        with later [of r] eq show ?thesis by auto
      next
        case 3
        with eq ch show ?thesis unfolding chain_ok_def by blast
      qed
    qed
  qed
  moreover have "keyed d_id (sql_insert n ?t)"
    using inv new by (auto simp: core_inv_def keyed_insert lookup_row_None)
  moreover have "fk_ok (d\<lparr>delivery_logs := sql_insert n ?t\<rparr>)"
    using inv sub by (intro fk_ok_logs) (auto simp: core_inv_def fk_ok_def sql_simps)
  ultimately show ?thesis
    using inv ok can by (auto simp: core_inv_def sql_simps)
qed

lemma core_inv_delete:
  assumes "core_inv pg t d"
  shows "core_inv pg t (d\<lparr>delivery_logs := sql_delete P (delivery_logs d)\<rparr>)"
  using assms
  by (auto simp: core_inv_def sql_simps keyed_delete chain_ok_def fk_ok_def)

lemma succ_ok_update:
  assumes "succ_ok t" and "\<And>r. r \<in> set t \<Longrightarrow> P r \<Longrightarrow> same_ident r (f r)"
    and "\<And>r. r \<in> set t \<Longrightarrow> P r \<Longrightarrow> d_status (f r) = StatusFailedAttempt \<Longrightarrow> d_status r = StatusFailedAttempt"
  shows "succ_ok (sql_update P f t)"
  unfolding succ_ok_def
proof (intro ballI impI)
  let ?h = "\<lambda>r. if P r then f r else r"
  fix r assume "r \<in> set (sql_update P f t)" and fa: "d_status r = StatusFailedAttempt"
  then obtain a where a: "a \<in> set t" "r = ?h a" by (auto simp: in_sql_update)
  with assms(3) fa have "d_status a = StatusFailedAttempt" by (auto split: if_splits)
  with assms(1) a obtain b where b: "b \<in> set t" "successor_of a b" by (auto simp: succ_ok_def)
  have "same_ident a (?h a)" "same_ident b (?h b)" using assms(2) a b by simp_all
  with b a have "successor_of r (?h b)" by (auto simp: successor_of_def same_ident_def)
  moreover have "?h b \<in> set (sql_update P f t)" using b by (auto simp: in_sql_update)
  ultimately show "\<exists>r' \<in> set (sql_update P f t). successor_of r r'" by blast
qed

lemma succ_ok_insert:
  "succ_ok t \<Longrightarrow> d_status n \<noteq> StatusFailedAttempt \<Longrightarrow> succ_ok (sql_insert n t)"
  by (auto simp: succ_ok_def sql_simps)

lemma db_inv_update:
  assumes inv: "db_inv pg t d"
    and ev: "\<And>r. r \<in> set (delivery_logs d) \<Longrightarrow> P r \<Longrightarrow> evolves r (f r)"
    and k: "\<And>r. d_id (f r) = d_id r"
    and nf: "\<And>r. r \<in> set (delivery_logs d) \<Longrightarrow> P r \<Longrightarrow> d_status (f r) = StatusFailedAttempt \<Longrightarrow>
      d_status r = StatusFailedAttempt"
  shows "db_inv pg t (d\<lparr>delivery_logs := sql_update P f (delivery_logs d)\<rparr>)"
proof -
  have "core_inv pg t (d\<lparr>delivery_logs := sql_update P f (delivery_logs d)\<rparr>)"
    using inv ev k by (intro core_inv_update) (simp_all add: db_inv_def)
  moreover have "succ_ok (sql_update P f (delivery_logs d))"
  proof (rule succ_ok_update)
    show "succ_ok (delivery_logs d)" using inv by (simp add: db_inv_def)
    show "same_ident r (f r)" if "r \<in> set (delivery_logs d)" "P r" for r
      using ev [OF that] by (simp only: evolves_def)
  qed (rule nf)
  ultimately show ?thesis by (simp add: db_inv_def)
qed

lemma db_inv_rowsD: "db_inv pg t d \<Longrightarrow> r \<in> set (delivery_logs d) \<Longrightarrow> row_ok t r"
  by (simp add: db_inv_def core_inv_def)

text \<open>Subscription rows may change freely as long as their ids stay.\<close>

lemma sub_lookup_same_ids:
  "map s_id t = map s_id t' \<Longrightarrow> (lookup_row s_id i t = None) = (lookup_row s_id i t' = None)"
proof -
  assume "map s_id t = map s_id t'"
  then have "s_id ` set t = s_id ` set t'" by (metis set_map)
  then show ?thesis by (force simp: lookup_row_None)
qed

lemma db_inv_subs:
  assumes "db_inv pg t d" and "map s_id u = map s_id (subscriptions d)"
  shows "db_inv pg t (d\<lparr>subscriptions := u\<rparr>)"
  using assms sub_lookup_same_ids [OF assms(2)]
  by (auto simp: db_inv_def core_inv_def fk_ok_def keyed_def)

end
