(* ===== verification/Store_Steps.thy ===== *)
theory Store_Steps
  imports Store_Invariants
begin

text \<open>
  Preservation of \<open>db_inv\<close> by each repository operation, and the step relation \<open>db_step\<close>
  of the whole store with its reachable states.
\<close>

section \<open>Inversion of statements and transaction bodies\<close>

lemma tx_run_Inr:
  "tx_run c k st t = (Inr x, t') \<Longrightarrow>
     st (tx_db t) = (Inr x, tx_db t') \<and> tx_aborted t' = tx_aborted t \<and> \<not> tx_aborted t"
  by (auto simp: tx_run_def split: if_splits prod.splits sum.splits)

lemma tx_run_Inl_ok:
  "tx_run c k st t = (Inl e, t') \<Longrightarrow> \<not> tx_aborted t' \<Longrightarrow> e = ErrNoRows \<and> t' = t"
  by (auto simp: tx_run_def split: if_splits prod.splits sum.splits)

lemma update_log_Inr:
  "update_log pg lid P f d = (Inr n, d') \<longleftrightarrow>
     (\<exists>i. uuid_in pg lid = Some i
        \<and> n = rows_affected (\<lambda>r. d_id r = i \<and> P r) (delivery_logs d)
        \<and> d' = d\<lparr>delivery_logs := sql_update (\<lambda>r. d_id r = i \<and> P r) f (delivery_logs d)\<rparr>)"
  by (auto simp: update_log_def split: option.splits)

lemma update_sub_Inr:
  "update_sub pg sid P f d = (Inr n, d') \<longleftrightarrow>
     (\<exists>i. uuid_in pg sid = Some i
        \<and> n = rows_affected (\<lambda>r. s_id r = i \<and> P r) (subscriptions d)
        \<and> d' = d\<lparr>subscriptions := sql_update (\<lambda>r. s_id r = i \<and> P r) f (subscriptions d)\<rparr>)"
  by (auto simp: update_sub_def split: option.splits)

lemma update_sub_returning_Inr:
  "update_sub_returning pg sid f d = (Inr r', d') \<longleftrightarrow>
     (\<exists>i r. uuid_in pg sid = Some i \<and> sub_by_id d i = Some r \<and> r' = f r
        \<and> d' = d\<lparr>subscriptions := sql_update (\<lambda>r. s_id r = i) f (subscriptions d)\<rparr>)"
  by (auto simp: update_sub_returning_def split: option.splits)

lemma insert_log_Inr:
  "insert_log n d = (Inr x, d') \<longleftrightarrow>
     x = d_id n \<and> log_by_id d (d_id n) = None \<and> sub_by_id d (d_subscription_id n) \<noteq> None
     \<and> d' = d\<lparr>delivery_logs := sql_insert n (delivery_logs d)\<rparr>"
  by (auto simp: insert_log_def)

lemma insert_from_Inr:
  "insert_from pg lid mk d = (Inr x, d') \<longleftrightarrow>
     (\<exists>i r. uuid_in pg lid = Some i \<and> log_by_id d i = Some r \<and> insert_log (mk r) d = (Inr x, d'))"
  by (auto simp: insert_from_def split: option.splits)

lemmas stmt_invs = update_log_Inr update_sub_Inr update_sub_returning_Inr insert_log_Inr insert_from_Inr

section \<open>Single statement operations\<close>

lemma update_log_pres:
  assumes inv: "db_inv pg t d" and now: "t \<le> c_now c"
    and P: "\<And>r. P r \<Longrightarrow> is_pending r"
    and ev: "\<And>r. row_ok t r \<Longrightarrow> is_pending r \<Longrightarrow> evolves r (f r)"
    and k: "\<And>r. d_id (f r) = d_id r"
    and nf: "\<And>r. P r \<Longrightarrow> d_status (f r) \<noteq> StatusFailedAttempt"
  shows "db_inv pg (c_now c) (snd (pool_run c (update_log pg lid P f) d))"
proof (rule pool_run_pres)
  from inv now show "db_inv pg (c_now c) d" by (rule db_inv_mono)
next
  fix x d' assume "update_log pg lid P f d = (Inr x, d')"
  then obtain i where d': "d' = d\<lparr>delivery_logs := sql_update (\<lambda>r. d_id r = i \<and> P r) f (delivery_logs d)\<rparr>"
    by (auto simp: update_log_Inr)
  have "db_inv pg t d'"
    unfolding d' using inv P ev k nf by (intro db_inv_update) (auto dest: db_inv_rowsD)
  then show "db_inv pg (c_now c) d'" using now by (rule db_inv_mono)
qed

lemma ClaimPending_inv:
  "db_inv pg t d \<Longrightarrow> t \<le> c_now c \<Longrightarrow> db_inv pg (c_now c) (snd (ClaimPending pg c d lid lease))"
  unfolding store_op_db
  by (rule update_log_pres) (auto simp: evolves_row_funs)

lemma MarkDropped_inv:
  "db_inv pg t d \<Longrightarrow> t \<le> c_now c \<Longrightarrow> db_inv pg (c_now c) (snd (MarkDropped pg c d lid err))"
  unfolding store_op_db
  by (rule update_log_pres) (auto simp: evolves_row_funs)

lemma RescheduleSamePending_inv:
  "db_inv pg t d \<Longrightarrow> t \<le> c_now c \<Longrightarrow> db_inv pg (c_now c) (snd (RescheduleSamePending pg c d lid at))"
  unfolding store_op_db
  by (rule update_log_pres) (auto simp: evolves_row_funs)

text \<open>The orphan backstop finds nothing: a pending row always has a due time.\<close>

lemma no_lease_less: "db_inv pg t d \<Longrightarrow> rearm_ids c locked limit orphan d = []"
proof -
  assume inv: "db_inv pg t d"
  have "filter (\<lambda>r. lease_less c orphan r \<and> \<not> locked (d_id r)) (delivery_logs d) = []"
    using db_inv_rowsD [OF inv] by (auto simp: filter_empty_conv lease_less_def row_ok_def)
  then show ?thesis by (simp add: rearm_ids_def)
qed

lemma rearm_stmt_idle: "db_inv pg t d \<Longrightarrow> rearm_stmt c locked limit orphan d = (Inr [], d)"
  by (simp add: rearm_stmt_def no_lease_less sql_update_none)

lemma Rearm_inv:
  assumes "db_inv pg t d" and "t \<le> c_now c"
  shows "db_inv pg (c_now c) (snd (RearmLeaseLessPending c locked d limit orphan))"
  unfolding store_op_db
  by (rule pool_run_pres) (use assms db_inv_mono [OF assms] in \<open>auto simp: rearm_stmt_idle\<close>)

lemma claim_dlq_Inr:
  "claim_dlq pg c sid wid d = (Inr (i, n), d') \<Longrightarrow>
     \<exists>s w r. uuid_in pg sid = Some s \<and> uuid_in pg wid = Some w \<and> r \<in> set (delivery_logs d)
       \<and> in_dlq_of s w r \<and> i = d_id r \<and> n = d_replay_number r
       \<and> d' = d\<lparr>delivery_logs := sql_update (in_dlq_of s w) (acked_row c) (delivery_logs d)\<rparr>"
  by (auto simp: claim_dlq_def Cons_eq_filter_iff split: option.splits list.splits dest!: filter_eq_ConsD)

lemma db_inv_ack:
  "db_inv pg t d \<Longrightarrow> db_inv pg t (d\<lparr>delivery_logs := sql_update P (acked_row c) (delivery_logs d)\<rparr>)"
  by (rule db_inv_update) (auto dest: db_inv_rowsD intro: evolves_row_funs)

lemma AckDLQ_inv:
  assumes "db_inv pg t d" and "t \<le> c_now c"
  shows "db_inv pg (c_now c) (snd (AckDLQ pg c d sid wid))"
  unfolding store_op_db
proof (rule pool_run_pres)
  show "db_inv pg (c_now c) d" using assms by (rule db_inv_mono)
  fix x d' assume "claim_dlq pg c sid wid d = (Inr x, d')"
  then show "db_inv pg (c_now c) d'"
    using db_inv_mono [OF assms] by (cases x) (auto dest!: claim_dlq_Inr intro: db_inv_ack)
qed

lemma ForceAck_inv:
  assumes "db_inv pg t d" and "t \<le> c_now c"
  shows "db_inv pg (c_now c) (snd (ForceAckOldDLQ c d maxAge))"
  unfolding store_op_db
  by (rule pool_run_pres)
    (use db_inv_mono [OF assms] in \<open>simp_all add: force_ack_stmt_def db_inv_ack\<close>)

text \<open>Retention removes a failed attempt no later than its successor.\<close>

lemma succ_ok_expired:
  assumes inv: "db_inv pg t d"
  shows "succ_ok (sql_delete (expired c ret) (delivery_logs d))"
  unfolding succ_ok_def
proof (intro ballI impI)
  fix r assume r: "r \<in> set (sql_delete (expired c ret) (delivery_logs d))"
    and fa: "d_status r = StatusFailedAttempt"
  then have rt: "r \<in> set (delivery_logs d)" and ne: "\<not> expired c ret r" by (auto simp: sql_simps)
  with inv fa obtain r' where r': "r' \<in> set (delivery_logs d)" "successor_of r r'"
    by (auto simp: db_inv_def succ_ok_def)
  have "\<not> d_in_dlq r" using db_inv_rowsD [OF inv rt] fa by (auto simp: row_ok_def)
  with ne fa have "\<not> d_created_at r < c_now c - pg_interval (secondsArg ret)" by (simp add: expired_def)
  with r' have "\<not> expired c ret r'" by (auto simp: expired_def successor_of_def)
  with r' show "\<exists>r' \<in> set (sql_delete (expired c ret) (delivery_logs d)). successor_of r r'"
    by (auto simp: sql_simps)
qed

lemma DeleteExpired_inv:
  assumes "db_inv pg t d" and "t \<le> c_now c"
  shows "db_inv pg (c_now c) (snd (DeleteExpired c d ret))"
  unfolding store_op_db
proof (rule pool_run_pres)
  show "db_inv pg (c_now c) d" using assms by (rule db_inv_mono)
  fix x d' assume "delete_expired_stmt c ret d = (Inr x, d')"
  then have d': "d' = d\<lparr>delivery_logs := sql_delete (expired c ret) (delivery_logs d)\<rparr>"
    by (simp add: delete_expired_stmt_def)
  have "db_inv pg t d'"
    unfolding d' using assms(1) succ_ok_expired [OF assms(1)]
    by (auto simp: db_inv_def intro: core_inv_delete)
  then show "db_inv pg (c_now c) d'" using assms(2) by (rule db_inv_mono)
qed

lemma PruneIdempotency_inv:
  assumes "db_inv pg t d" and "t \<le> c_now c"
  shows "db_inv pg (c_now c) (snd (PruneIdempotency c d ttl))"
  unfolding store_op_db
proof (rule pool_run_pres)
  show inv: "db_inv pg (c_now c) d" using assms by (rule db_inv_mono)
  fix x d' assume "prune_stmt c ttl d = (Inr x, d')"
  then have "d' = d\<lparr>ingest_idempotency := sql_delete (stale_idem c ttl) (ingest_idempotency d)\<rparr>"
    by (simp add: prune_stmt_def)
  with inv show "db_inv pg (c_now c) d'"
    by (simp add: db_inv_def core_inv_def fk_ok_def keyed_delete set_sql_delete)
qed

section \<open>Transactions\<close>

lemma MarkSuccess_inv:
  assumes inv: "db_inv pg t d" and now: "t \<le> c_now c"
  shows "db_inv pg (c_now c) (snd (MarkSuccess pg c d lid sid st))"
  unfolding MarkSuccess_def
proof (rule inTx_pres)
  show "db_inv pg (c_now c) d" using inv now by (rule db_inv_mono)
  fix x t' assume run: "mark_success_tx pg c lid sid st \<lparr>tx_db = d, tx_aborted = False\<rparr> = (Inr x, t')"
  have upd: "db_inv pg t (d\<lparr>delivery_logs := sql_update (\<lambda>r. d_id r = i \<and> is_pending r)
      (success_row c st) (delivery_logs d)\<rparr>)" for i
    using inv by (intro db_inv_update)
      (auto dest: db_inv_rowsD intro: evolves_row_funs)
  from run have "db_inv pg t (tx_db t')"
    by (auto simp: mark_success_tx_def stmt_invs reset_failures_def upd
        split: prod.splits sum.splits if_splits dest!: tx_run_Inr intro!: db_inv_subs)
  then show "db_inv pg (c_now c) (tx_db t')" using now by (rule db_inv_mono)
qed

lemma FinalizeFailure_inv:
  assumes inv: "db_inv pg t d" and now: "t \<le> c_now c"
  shows "db_inv pg (c_now c) (snd (FinalizeFailure pg c d lid sid st err th))"
  unfolding FinalizeFailure_def
proof (rule inTx_pres)
  show "db_inv pg (c_now c) d" using inv now by (rule db_inv_mono)
  fix x t' assume run: "finalize_tx pg c lid sid st err th \<lparr>tx_db = d, tx_aborted = False\<rparr> = (Inr x, t')"
    and ok: "\<not> tx_aborted t'"
  have upd: "db_inv pg t (d\<lparr>delivery_logs := sql_update (\<lambda>r. d_id r = i \<and> is_pending r)
      (final_row c st err) (delivery_logs d)\<rparr>)" for i
    using inv by (intro db_inv_update)
      (auto dest: db_inv_rowsD intro: evolves_row_funs)
  from run ok have "db_inv pg t (tx_db t')"
    by (auto simp: finalize_tx_def stmt_invs bump_failures_def upd
        split: prod.splits sum.splits if_splits dest!: tx_run_Inr tx_run_Inl_ok intro!: db_inv_subs)
  then show "db_inv pg (c_now c) (tx_db t')" using now by (rule db_inv_mono)
qed

text \<open>After a live row has gone, a later position can be inserted into its webhook.\<close>

lemma insert_after_live:
  assumes inv: "core_inv pg t d" and x: "x \<in> set (delivery_logs d)" "live x"
    and ev: "\<And>r. r \<in> set (delivery_logs d) \<Longrightarrow> P r \<Longrightarrow> evolves r (f r)"
    and k: "\<And>r. d_id (f r) = d_id r" and Px: "P x" and dead: "\<not> live (f x)"
    and ins: "insert_log n (d\<lparr>delivery_logs := sql_update P f (delivery_logs d)\<rparr>) = (Inr i, d')"
    and n: "d_webhook_id n = d_webhook_id x" "d_subscription_id n = d_subscription_id x" "pos x < pos n"
    and ok: "row_ok t n" and can: "uuid_in pg (d_id n) = Some (d_id n)"
  shows "core_inv pg t d'"
proof -
  let ?t = "delivery_logs d"
  let ?d1 = "d\<lparr>delivery_logs := sql_update P f ?t\<rparr>"
  have inv1: "core_inv pg t ?d1" using inv ev k by (rule core_inv_update)
  have ch: "chain_ok ?t" using inv by (simp add: core_inv_def)
  from ins have d': "d' = ?d1\<lparr>delivery_logs := sql_insert n (delivery_logs ?d1)\<rparr>"
    and new: "log_by_id ?d1 (d_id n) = None" and sub: "sub_by_id ?d1 (d_subscription_id n) \<noteq> None"
    by (auto simp: insert_log_Inr)
  show ?thesis
    unfolding d'
  proof (rule core_inv_insert [OF inv1 new sub ok can])
    fix r assume "r \<in> set (delivery_logs ?d1)" and w: "d_webhook_id r = d_webhook_id n"
    then obtain a where a: "a \<in> set ?t" "r = (if P a then f a else a)" by (auto simp: in_sql_update)
    have s: "same_ident a r" and l: "live r \<longrightarrow> live a" using ev [OF a(1)] a(2) by (auto simp: evolves_def)
    have w': "d_webhook_id a = d_webhook_id x" using s w n by (simp add: same_ident_def)
    show "\<not> live r \<and> pos r < pos n \<and> d_subscription_id r = d_subscription_id n"
    proof (cases "d_id a = d_id x")
      case True
      then have "a = x" using core_inv_keyed [OF inv] a(1) x(1) by (blast intro: keyed_unique)
      then show ?thesis using a Px dead n pos_same [OF s] s by (simp add: same_ident_def)
    next
      case False
      from live_last [OF ch x a(1) w' False] show ?thesis
        using l n pos_same [OF s] s by (auto simp: same_ident_def)
    qed
  qed
qed

lemma pending_row_sel [simp]:
  "d_id (pending_row c w s u p e a rn at) = c_uuid c"
  "d_webhook_id (pending_row c w s u p e a rn at) = w"
  "d_subscription_id (pending_row c w s u p e a rn at) = s"
  "d_status (pending_row c w s u p e a rn at) = StatusPending"
  "d_attempt_number (pending_row c w s u p e a rn at) = a"
  "d_replay_number (pending_row c w s u p e a rn at) = rn"
  "d_created_at (pending_row c w s u p e a rn at) = c_now c"
  "d_next_retry_at (pending_row c w s u p e a rn at) = Some at"
  "d_in_dlq (pending_row c w s u p e a rn at) = False"
  "d_target_url (pending_row c w s u p e a rn at) = u"
  "d_payload (pending_row c w s u p e a rn at) = p"
  "d_event_type (pending_row c w s u p e a rn at) = e"
  by (simp_all add: pending_row_def)

lemma pending_row_ok: "1 \<le> a \<Longrightarrow> 0 \<le> rn \<Longrightarrow> row_ok (c_now c) (pending_row c w s u p e a rn at)"
  by (simp add: row_ok_def)

lemma succ_ok_retry:
  assumes ok: "succ_ok t" and keyed: "keyed d_id t" and x: "x \<in> set t"
    and f: "\<And>r. same_ident r (f r)" and n: "successor_of x n" "d_status n \<noteq> StatusFailedAttempt"
  shows "succ_ok (sql_insert n (sql_update (\<lambda>r. d_id r = d_id x \<and> P r) f t))"
  unfolding succ_ok_def set_sql_insert
proof (intro ballI impI)
  let ?Q = "\<lambda>r. d_id r = d_id x \<and> P r"
  let ?h = "\<lambda>r. if ?Q r then f r else r"
  fix r assume "r \<in> insert n (set (sql_update ?Q f t))" and fa: "d_status r = StatusFailedAttempt"
  with n(2) obtain a where a: "a \<in> set t" "r = ?h a" by (auto simp: in_sql_update)
  have sa: "same_ident a r" using f [of a] a(2) by simp
  show "\<exists>r' \<in> insert n (set (sql_update ?Q f t)). successor_of r r'"
  proof (cases "d_id a = d_id x")
    case True
    with keyed a(1) x have "a = x" by (blast intro: keyed_unique)
    with n(1) sa have "successor_of r n" by (auto simp: successor_of_def same_ident_def)
    then show ?thesis by blast
  next
    case False
    with a fa ok obtain b where b: "b \<in> set t" "successor_of r b"
      by (auto simp: succ_ok_def)
    have "same_ident b (?h b)" using f [of b] by simp
    with b have "successor_of r (?h b)" by (auto simp: successor_of_def same_ident_def)
    moreover have "?h b \<in> set (sql_update ?Q f t)" using b(1) by (auto simp: in_sql_update)
    ultimately show ?thesis by blast
  qed
qed

lemma FailAndScheduleRetry_inv:
  assumes inv0: "db_inv pg t d" and now: "t \<le> c_now c" and can: "uuid_in pg (c_uuid c) = Some (c_uuid c)"
  shows "db_inv pg (c_now c) (snd (FailAndScheduleRetry pg c d lid st err at))"
  unfolding FailAndScheduleRetry_def
proof (rule inTx_pres)
  show inv: "db_inv pg (c_now c) d" using inv0 now by (rule db_inv_mono)
  let ?tab = "delivery_logs d"
  fix res t' assume run: "fail_retry_tx pg c lid st err at \<lparr>tx_db = d, tx_aborted = False\<rparr> = (Inr res, t')"
  then obtain i where i: "uuid_in pg lid = Some i"
    by (auto simp: fail_retry_tx_def update_log_Inr split: prod.splits sum.splits dest!: tx_run_Inr)
  let ?P = "\<lambda>r. d_id r = i \<and> is_pending r"
  let ?d1 = "d\<lparr>delivery_logs := sql_update ?P (failed_row c st err) ?tab\<rparr>"
  have ev: "evolves r (failed_row c st err r)" if "r \<in> set ?tab" "?P r" for r
    using that db_inv_rowsD [OF inv] by (auto intro: evolves_row_funs)
  have nolive: "\<not> live (failed_row c st err r)" if "r \<in> set ?tab" "is_pending r" for r
    using db_inv_rowsD [OF inv that(1)] that(2) by (auto simp: live_def failed_row_def row_ok_def)
  show "db_inv pg (c_now c) (tx_db t')"
  proof (cases "rows_affected ?P ?tab = 0")
    case True
    then have "?d1 = d" by (simp add: sql_update_none rows_affected_0)
    with run True i inv show ?thesis
      by (auto simp: fail_retry_tx_def update_log_Inr split: prod.splits sum.splits if_splits dest!: tx_run_Inr)
  next
    case False
    then obtain x where x: "x \<in> set ?tab" "d_id x = i" "is_pending x" by (auto simp: rows_affected_0)
    have key: "keyed d_id ?tab" using inv by (simp add: db_inv_def core_inv_def)
    have lk: "log_by_id ?d1 i = Some (failed_row c st err x)"
      using lookup_row_eq [OF key, of i x] x by (simp add: lookup_row_update)
    let ?n = "successor_row c at (failed_row c st err x)"
    from run False i lk have ins: "insert_log ?n ?d1 = (Inr (fst res), tx_db t')"
      by (auto simp: fail_retry_tx_def update_log_Inr insert_from_Inr
          split: prod.splits sum.splits if_splits dest!: tx_run_Inr)
    have rx: "row_ok (c_now c) x" using db_inv_rowsD [OF inv x(1)] .
    have core: "core_inv pg (c_now c) (tx_db t')"
    proof (rule insert_after_live [OF _ x(1) _ ev _ _ _ ins])
      show "core_inv pg (c_now c) d" using inv by (simp add: db_inv_def)
      show "live x" using x by (simp add: live_def)
      show "\<not> live (failed_row c st err x)" using x by (simp add: nolive)
      show "pos x < pos ?n" by (simp add: pos_def successor_row_def failed_row_def)
      show "row_ok (c_now c) ?n" using rx by (simp add: successor_row_def pending_row_ok failed_row_def row_ok_def)
    qed (use x can in \<open>simp_all add: successor_row_def failed_row_def\<close>)
    have "succ_ok (sql_insert ?n (sql_update (\<lambda>r. d_id r = d_id x \<and> is_pending r) (failed_row c st err) ?tab))"
    proof (rule succ_ok_retry [OF _ key x(1)])
      show "succ_ok ?tab" using inv by (simp add: db_inv_def)
      show "successor_of x ?n" using rx by (simp add: successor_of_def successor_row_def failed_row_def row_ok_def)
    qed (simp_all add: same_ident_def failed_row_def successor_row_def)
    with core ins x show ?thesis by (auto simp: db_inv_def insert_log_Inr)
  qed
qed

lemma ReplayDLQ_inv:
  assumes inv0: "db_inv pg t d" and now: "t \<le> c_now c" and can: "uuid_in pg (c_uuid c) = Some (c_uuid c)"
  shows "db_inv pg (c_now c) (snd (ReplayDLQ pg c d sid wid))"
  unfolding ReplayDLQ_def
proof (rule inTx_pres)
  show inv: "db_inv pg (c_now c) d" using inv0 now by (rule db_inv_mono)
  let ?tab = "delivery_logs d"
  fix res t' assume run: "replay_tx pg c sid wid \<lparr>tx_db = d, tx_aborted = False\<rparr> = (Inr res, t')"
    and ok: "\<not> tx_aborted t'"
  show "db_inv pg (c_now c) (tx_db t')"
  proof (cases "tx_run c 0 (claim_dlq pg c sid wid) \<lparr>tx_db = d, tx_aborted = False\<rparr>")
    case (Pair r1 t1)
    show ?thesis
    proof (cases r1)
      case (Inl e)
      with Pair run ok have "t' = \<lparr>tx_db = d, tx_aborted = False\<rparr>"
        by (auto simp: replay_tx_def split: if_splits dest!: tx_run_Inl_ok)
      then show ?thesis using inv by simp
    next
      case (Inr p)
      obtain i rn where p: "p = (i, rn)" by fastforce
      from Pair Inr p have "claim_dlq pg c sid wid d = (Inr (i, rn), tx_db t1)"
        by (auto dest!: tx_run_Inr)
      from claim_dlq_Inr [OF this] obtain s w x where
        x: "x \<in> set ?tab" "in_dlq_of s w x" "i = d_id x" "rn = d_replay_number x"
        and t1: "tx_db t1 = d\<lparr>delivery_logs := sql_update (in_dlq_of s w) (acked_row c) ?tab\<rparr>" by blast
      let ?n = "replay_row c (rn + 1) (acked_row c x)"
      have key: "keyed d_id ?tab" using inv by (simp add: db_inv_def core_inv_def)
      have rx: "row_ok (c_now c) x" using db_inv_rowsD [OF inv x(1)] .
      have ci: "uuid_in pg i = Some i" using inv x by (auto simp: db_inv_def core_inv_def)
      have lk: "log_by_id (tx_db t1) i = Some (acked_row c x)"
        unfolding t1 using lookup_row_eq [OF key, of i x] x by (simp add: lookup_row_update)
      from run Pair Inr p ci lk have ins: "insert_log ?n (tx_db t1) = (Inr (fst (snd res)), tx_db t')"
        by (auto simp: replay_tx_def insert_from_Inr split: prod.splits sum.splits dest!: tx_run_Inr)
      have core: "core_inv pg (c_now c) (tx_db t')"
      proof (rule insert_after_live [OF _ x(1) _ _ _ _ _ ins [unfolded t1]])
        show "core_inv pg (c_now c) d" using inv by (simp add: db_inv_def)
        show "live x" "in_dlq_of s w x" using x by (simp_all add: live_def in_dlq_of_def)
        show "evolves r (acked_row c r)" if "r \<in> set ?tab" for r
          using db_inv_rowsD [OF inv that] by (rule evolves_row_funs)
        show "\<not> live (acked_row c x)" using rx x(2) by (auto simp: live_def acked_row_def in_dlq_of_def row_ok_def)
        show "pos x < pos ?n" using x by (simp add: pos_def replay_row_def acked_row_def)
        show "row_ok (c_now c) ?n" using rx x by (simp add: replay_row_def pending_row_ok acked_row_def row_ok_def)
      qed (use can in \<open>simp_all add: replay_row_def acked_row_def\<close>)
      have "db_inv pg (c_now c) (tx_db t1)" unfolding t1 using inv by (rule db_inv_ack)
      then have "succ_ok (sql_insert ?n (delivery_logs (tx_db t1)))"
        by (intro succ_ok_insert) (simp_all add: db_inv_def replay_row_def)
      with core ins show ?thesis by (auto simp: db_inv_def insert_log_Inr)
    qed
  qed
qed

section \<open>Ingest\<close>

definition fresh_webhook :: "pgsql \<Rightarrow> db \<Rightarrow> string \<Rightarrow> bool" where
  "fresh_webhook pg d wid \<longleftrightarrow> (\<forall>r \<in> set (delivery_logs d). uuid_in pg wid \<noteq> Some (d_webhook_id r))"

lemma db_inv_insert_fresh:
  assumes inv: "db_inv pg t d" and ins: "insert_log n d = (Inr x, d')"
    and fresh: "\<And>r. r \<in> set (delivery_logs d) \<Longrightarrow> d_webhook_id r \<noteq> d_webhook_id n"
    and ok: "row_ok t n" "uuid_in pg (d_id n) = Some (d_id n)" "is_pending n"
  shows "db_inv pg t d'"
proof -
  from ins have d': "d' = d\<lparr>delivery_logs := sql_insert n (delivery_logs d)\<rparr>"
    and new: "log_by_id d (d_id n) = None" and sub: "sub_by_id d (d_subscription_id n) \<noteq> None"
    by (auto simp: insert_log_Inr)
  have "core_inv pg t d'"
    unfolding d' using inv new sub ok fresh by (intro core_inv_insert) (auto simp: db_inv_def)
  moreover have "succ_ok (sql_insert n (delivery_logs d))"
    using inv ok by (intro succ_ok_insert) (simp_all add: db_inv_def)
  ultimately show ?thesis by (simp add: db_inv_def d')
qed

lemma insert_idem_inv:
  assumes "db_inv pg t d" and "insert_idem pg c sid key wid d = (Inr w, d')"
  shows "db_inv pg t d' \<and> delivery_logs d' = delivery_logs d \<and> uuid_in pg wid = Some w"
proof -
  from assms(2) obtain s where w: "uuid_in pg wid = Some w" and new: "idem_by_key d (s, key) = None"
    and sub: "sub_by_id d s \<noteq> None"
    and d': "d' = d\<lparr>ingest_idempotency := sql_insert \<lparr>i_subscription_id = s, i_idempotency_key = key,
        i_webhook_id = w, i_created_at = c_now c\<rparr> (ingest_idempotency d)\<rparr>"
    by (auto simp: insert_idem_def split: option.splits if_splits)
  have "(s, key) \<notin> idem_key ` set (ingest_idempotency d)"
    using new by (auto simp: lookup_row_None)
  then have "keyed idem_key (ingest_idempotency d')"
    using assms(1) by (simp add: d' keyed_insert db_inv_def core_inv_def idem_key_def)
  then show ?thesis
    using assms(1) sub w by (simp add: d' db_inv_def core_inv_def fk_ok_def set_sql_insert)
qed

lemma insert_pending_inv:
  assumes inv: "db_inv pg (c_now c) d" and can: "uuid_in pg (c_uuid c) = Some (c_uuid c)"
    and fresh: "fresh_webhook pg d wid" and ins: "insert_pending pg c wid p d = (Inr x, d')"
  shows "db_inv pg (c_now c) d'"
proof -
  from ins obtain w s where w: "uuid_in pg wid = Some w" and i: "insert_log (pending_row c w s (P_TargetURL p)
      (jsonb_in pg (P_Payload p)) (nullStr (P_EventType p)) 1 0 (c_now c)) d = (Inr x, d')"
    by (auto simp: insert_pending_def split: option.splits)
  show ?thesis
    by (rule db_inv_insert_fresh [OF inv i]) (use fresh w can in \<open>auto simp: fresh_webhook_def pending_row_ok\<close>)
qed

lemma ingest_insert_tx_inv:
  assumes "ingest_insert_tx pg c wid p t1 = (Inr x, t2)" "db_inv pg (c_now c) (tx_db t1)"
    and "fresh_webhook pg (tx_db t1) wid" and "uuid_in pg (c_uuid c) = Some (c_uuid c)"
  shows "db_inv pg (c_now c) (tx_db t2)"
proof -
  from assms(1) obtain l where "insert_pending pg c wid p (tx_db t1) = (Inr l, tx_db t2)"
    by (auto simp: ingest_insert_tx_def split: prod.splits sum.splits if_splits dest!: tx_run_Inr)
  with assms(2-4) show ?thesis by (blast intro: insert_pending_inv)
qed

lemma select_idem_db: "select_idem pg s k d = (Inr y, d') \<Longrightarrow> d' = d"
  by (auto simp: select_idem_def split: option.splits)

lemma ingest_tx_inv:
  assumes inv: "db_inv pg (c_now c) d" and can: "uuid_in pg (c_uuid c) = Some (c_uuid c)"
    and fresh: "fresh_webhook pg d (P_WebhookID p)"
    and idem: "\<And>i j. uuid_in pg i = Some j \<Longrightarrow> uuid_in pg j = Some j"
    and run: "ingest_tx pg c p \<lparr>tx_db = d, tx_aborted = False\<rparr> = (Inr x, t')"
  shows "db_inv pg (c_now c) (tx_db t')"
proof (cases "P_IdempotencyKey p = []")
  case True
  with run have "ingest_insert_tx pg c (P_WebhookID p) p \<lparr>tx_db = d, tx_aborted = False\<rparr> = (Inr x, t')"
    by (simp add: ingest_tx_def)
  then show ?thesis by (rule ingest_insert_tx_inv) (use inv fresh can in simp_all)
next
  case False
  obtain r1 t1 where r1: "tx_run c 0 (insert_idem pg c (P_SubscriptionID p) (P_IdempotencyKey p) (P_WebhookID p))
      \<lparr>tx_db = d, tx_aborted = False\<rparr> = (r1, t1)" by fastforce
  show ?thesis
  proof (cases r1)
    case (Inr w)
    with r1 have "insert_idem pg c (P_SubscriptionID p) (P_IdempotencyKey p) (P_WebhookID p) d = (Inr w, tx_db t1)"
      by (auto dest!: tx_run_Inr)
    note ii = insert_idem_inv [OF inv this]
    from run False r1 Inr have "ingest_insert_tx pg c w p t1 = (Inr x, t')" by (simp add: ingest_tx_def)
    then show ?thesis
      by (rule ingest_insert_tx_inv)
        (use ii can fresh idem [of "P_WebhookID p" w] in \<open>simp_all add: fresh_webhook_def\<close>)
  next
    case (Inl e)
    from run False r1 Inl have e: "e = ErrNoRows" by (auto simp: ingest_tx_def split: if_splits)
    with run False r1 Inl obtain y where
      "tx_run c 1 (select_idem pg (P_SubscriptionID p) (P_IdempotencyKey p)) t1 = (Inr y, t')"
      by (auto simp: ingest_tx_def split: prod.splits sum.splits)
    then have "tx_db t' = tx_db t1" by (auto dest!: tx_run_Inr select_idem_db)
    moreover have "tx_db t1 = d"
      using r1 Inl by (auto simp: tx_run_def split: prod.splits sum.splits if_splits)
    ultimately show ?thesis using inv by simp
  qed
qed

lemma IngestPending_inv:
  assumes inv: "db_inv pg t d" and now: "t \<le> c_now c" and can: "uuid_in pg (c_uuid c) = Some (c_uuid c)"
    and fresh: "fresh_webhook pg d (P_WebhookID p)"
    and idem: "\<And>i j. uuid_in pg i = Some j \<Longrightarrow> uuid_in pg j = Some j"
  shows "db_inv pg (c_now c) (snd (IngestPending jv pg c d p))"
proof -
  note inv' = db_inv_mono [OF inv now]
  have "db_inv pg (c_now c) (snd (inTx c ''ingest'' (ingest_tx pg c p) d))"
    using ingest_tx_inv [OF inv' can fresh idem] inv' by (rule inTx_pres [rotated])
  then show ?thesis using inv' by (auto simp: IngestPending_def split: sum.splits)
qed

section \<open>Subscriptions\<close>

lemma db_inv_create:
  assumes "db_inv pg t d" "sub_by_id d (s_id r) = None"
  shows "db_inv pg t (d\<lparr>subscriptions := sql_insert r (subscriptions d)\<rparr>)"
  using assms
  by (auto simp: db_inv_def core_inv_def fk_ok_def keyed_insert lookup_row_insert lookup_row_None split: option.splits)

lemma CreateSub_inv:
  assumes "db_inv pg t d" and "t \<le> c_now c"
  shows "db_inv pg (c_now c) (snd (CreateSub c d s))"
  unfolding store_op_db
  by (rule pool_run_pres)
    (use db_inv_mono [OF assms] in \<open>auto simp: insert_sub_def Let_def split: if_splits intro: db_inv_create\<close>)

lemma update_sub_returning_inv:
  assumes "db_inv pg t d" and "t \<le> c_now c" and "\<And>r. s_id (f r) = s_id r"
  shows "db_inv pg (c_now c) (snd (pool_run c (update_sub_returning pg sid f) d))"
  by (rule pool_run_pres)
    (use assms(3) db_inv_mono [OF assms(1,2)] in \<open>auto simp: update_sub_returning_Inr intro!: db_inv_subs\<close>)

lemma UpdateSub_inv:
  "db_inv pg t d \<Longrightarrow> t \<le> c_now c \<Longrightarrow> db_inv pg (c_now c) (snd (UpdateSub pg c d s))"
  unfolding store_op_db by (rule update_sub_returning_inv) (simp_all add: updated_sub_def)

lemma RotateSecretSub_inv:
  "db_inv pg t d \<Longrightarrow> t \<le> c_now c \<Longrightarrow> db_inv pg (c_now c) (snd (RotateSecretSub pg c d sid k))"
  unfolding store_op_db by (rule update_sub_returning_inv) (simp_all add: rotated_sub_def)

lemma lookup_row_delete_key:
  "lookup_row k j (sql_delete (\<lambda>r. k r = i) t) = (if j = i then None else lookup_row k j t)"
  by (induction t) (auto simp: lookup_row_def sql_delete_def)

lemma db_inv_cascade:
  assumes inv: "db_inv pg t d"
  shows "db_inv pg t (d\<lparr>subscriptions := sql_delete (\<lambda>r. s_id r = i) (subscriptions d),
             delivery_logs := sql_delete (\<lambda>r. d_subscription_id r = i) (delivery_logs d),
             ingest_idempotency := sql_delete (\<lambda>r. i_subscription_id r = i) (ingest_idempotency d)\<rparr>)"
proof -
  let ?t = "sql_delete (\<lambda>r. d_subscription_id r = i) (delivery_logs d)"
  have "succ_ok ?t"
    unfolding succ_ok_def
  proof (intro ballI impI)
    fix r assume r: "r \<in> set ?t" and fa: "d_status r = StatusFailedAttempt"
    with inv obtain r' where r': "r' \<in> set (delivery_logs d)" "successor_of r r'"
      by (auto simp: db_inv_def succ_ok_def set_sql_delete)
    have ch: "chain_ok (delivery_logs d)" and key: "keyed d_id (delivery_logs d)"
      using inv by (simp_all add: db_inv_def core_inv_def)
    have "d_id r \<noteq> d_id r'" using keyed_unique [OF key, of r r'] r r' by (auto simp: successor_of_def set_sql_delete)
    then have "d_subscription_id r' = d_subscription_id r"
      using ch r r' by (auto simp: chain_ok_def successor_of_def set_sql_delete)
    with r r' show "\<exists>r' \<in> set ?t. successor_of r r'" by (auto simp: set_sql_delete)
  qed
  moreover have "core_inv pg t (d\<lparr>delivery_logs := ?t\<rparr>)"
    using inv by (intro core_inv_delete) (simp add: db_inv_def)
  ultimately show ?thesis
    using inv by (auto simp: db_inv_def core_inv_def fk_ok_def keyed_delete lookup_row_delete_key set_sql_delete)
qed

lemma DeleteSub_inv:
  assumes "db_inv pg t d" and "t \<le> c_now c"
  shows "db_inv pg (c_now c) (snd (DeleteSub pg c d sid))"
  unfolding store_op_db
  by (rule pool_run_pres)
    (use db_inv_mono [OF assms] in \<open>auto simp: delete_sub_stmt_def split: option.splits intro: db_inv_cascade\<close>)

end
