(* ===== verification/Store_History.thy ===== *)
theory Store_History
  imports Store_Steps
begin

text \<open>
  The store as one transition system, and what a single step does to the attempt table
  (\<open>table_rel\<close>): surviving rows evolve, new rows have new ids, and a live row leaves the table
  only together with its subscription.
\<close>

section \<open>What one operation does to the attempts\<close>

definition table_rel :: "db \<Rightarrow> db \<Rightarrow> bool" where
  "table_rel d d' \<longleftrightarrow>
     (\<forall>r' \<in> set (delivery_logs d').
        (\<exists>r \<in> set (delivery_logs d). evolves r r') \<or> d_id r' \<notin> d_id ` set (delivery_logs d))
   \<and> (\<forall>r \<in> set (delivery_logs d). live r \<longrightarrow>
        (\<exists>r' \<in> set (delivery_logs d'). d_id r' = d_id r) \<or> sub_by_id d' (d_subscription_id r) = None)"

lemma table_rel_same:
  "db_inv pg t d \<Longrightarrow> delivery_logs d' = delivery_logs d \<Longrightarrow> table_rel d d'"
  by (auto simp: table_rel_def dest: db_inv_rowsD intro!: evolves_refl)

lemma sql_update_id_image:
  "(\<And>r. d_id (f r) = d_id r) \<Longrightarrow> d_id ` set (sql_update P f t) = d_id ` set t"
  using sql_update_ids [of d_id f P t] by (metis set_map)

lemma table_rel_update:
  assumes inv: "db_inv pg t d"
    and ev: "\<And>r. r \<in> set (delivery_logs d) \<Longrightarrow> P r \<Longrightarrow> evolves r (f r)"
    and k: "\<And>r. d_id (f r) = d_id r"
    and d': "delivery_logs d' = sql_update P f (delivery_logs d)"
  shows "table_rel d d'"
proof -
  have "\<exists>r \<in> set (delivery_logs d). evolves r r'" if "r' \<in> set (delivery_logs d')" for r'
    using that ev db_inv_rowsD [OF inv] unfolding d' in_sql_update by (metis evolves_refl)
  moreover have "\<exists>r' \<in> set (delivery_logs d'). d_id r' = d_id r" if "r \<in> set (delivery_logs d)" for r
    using that sql_update_id_image [OF k, of P "delivery_logs d"] unfolding d' by (metis image_iff)
  ultimately show ?thesis by (auto simp: table_rel_def)
qed

lemma table_rel_insert:
  assumes rel: "table_rel d d1" and ids: "d_id ` set (delivery_logs d1) = d_id ` set (delivery_logs d)"
    and ins: "insert_log n d1 = (Inr x, d')"
  shows "table_rel d d'"
proof -
  from ins have d': "delivery_logs d' = sql_insert n (delivery_logs d1)" "subscriptions d' = subscriptions d1"
    and new: "log_by_id d1 (d_id n) = None" by (auto simp: insert_log_Inr)
  have "d_id n \<notin> d_id ` set (delivery_logs d)"
    using new unfolding ids [symmetric] by (auto simp: lookup_row_None)
  with rel show ?thesis by (auto simp: table_rel_def d' set_sql_insert)
qed

lemma pending_update_rel:
  assumes "db_inv pg t d" and "\<And>r. P r \<Longrightarrow> is_pending r"
    and "\<And>r. row_ok t r \<Longrightarrow> is_pending r \<Longrightarrow> evolves r (f r)" and "\<And>r. d_id (f r) = d_id r"
  shows "table_rel d (snd (pool_run c (update_log pg lid P f) d))"
proof (rule pool_run_pres)
  show "table_rel d d" using assms(1) by (rule table_rel_same) simp
  fix x d' assume "update_log pg lid P f d = (Inr x, d')"
  then obtain i where "delivery_logs d' = sql_update (\<lambda>r. d_id r = i \<and> P r) f (delivery_logs d)"
    by (auto simp: update_log_Inr)
  then show "table_rel d d'"
    by (rule table_rel_update [OF assms(1), rotated 2]) (use assms db_inv_rowsD [OF assms(1)] in blast)+
qed

lemma simple_ops_rel:
  assumes "db_inv pg t d"
  shows "table_rel d (snd (ClaimPending pg c d lid lease))"
    and "table_rel d (snd (MarkDropped pg c d lid err))"
    and "table_rel d (snd (RescheduleSamePending pg c d lid at))"
  unfolding store_op_db
  by (rule pending_update_rel [OF assms]; auto simp: evolves_row_funs)+

lemma ack_update_rel:
  "db_inv pg t d \<Longrightarrow> table_rel d (d\<lparr>delivery_logs := sql_update P (acked_row c) (delivery_logs d)\<rparr>)"
  by (rule table_rel_update) (auto dest: db_inv_rowsD intro: evolves_row_funs)

lemma dlq_ops_rel:
  assumes "db_inv pg t d"
  shows "table_rel d (snd (AckDLQ pg c d sid wid))" and "table_rel d (snd (ForceAckOldDLQ c d maxAge))"
  unfolding store_op_db
  by (rule pool_run_pres; use table_rel_same [OF assms] ack_update_rel [OF assms] in
      \<open>auto simp: force_ack_stmt_def dest!: claim_dlq_Inr\<close>)+

lemma tx_ops_rel:
  assumes inv: "db_inv pg t d"
  shows "table_rel d (snd (MarkSuccess pg c d lid sid st))"
    and "table_rel d (snd (FinalizeFailure pg c d lid sid st' err th))"
proof -
  have upd: "table_rel d d'" if "delivery_logs d' = sql_update (\<lambda>r. d_id r = i \<and> is_pending r) f (delivery_logs d)"
    "\<And>r. row_ok t r \<Longrightarrow> is_pending r \<Longrightarrow> evolves r (f r)" "\<And>r. d_id (f r) = d_id r" for d' i f
    by (rule table_rel_update [OF inv _ _ that(1)]) (use that db_inv_rowsD [OF inv] in blast)+
  show "table_rel d (snd (MarkSuccess pg c d lid sid st))"
    unfolding MarkSuccess_def
  proof (rule inTx_pres)
    fix x t' assume "mark_success_tx pg c lid sid st \<lparr>tx_db = d, tx_aborted = False\<rparr> = (Inr x, t')"
    then obtain i where "delivery_logs (tx_db t') =
        sql_update (\<lambda>r. d_id r = i \<and> is_pending r) (success_row c st) (delivery_logs d)"
      by (auto simp: mark_success_tx_def stmt_invs split: prod.splits sum.splits if_splits dest!: tx_run_Inr)
    then show "table_rel d (tx_db t')" by (rule upd) (simp_all add: evolves_row_funs)
  qed (rule table_rel_same [OF inv refl])
  show "table_rel d (snd (FinalizeFailure pg c d lid sid st' err th))"
    unfolding FinalizeFailure_def
  proof (rule inTx_pres)
    fix x t' assume "finalize_tx pg c lid sid st' err th \<lparr>tx_db = d, tx_aborted = False\<rparr> = (Inr x, t')"
      "\<not> tx_aborted t'"
    then obtain i where "delivery_logs (tx_db t') =
        sql_update (\<lambda>r. d_id r = i \<and> is_pending r) (final_row c st' err) (delivery_logs d)"
      by (fastforce simp: finalize_tx_def stmt_invs split: prod.splits sum.splits if_splits dest!: tx_run_Inr tx_run_Inl_ok)
    then show "table_rel d (tx_db t')" by (rule upd) (simp_all add: evolves_row_funs)
  qed (rule table_rel_same [OF inv refl])
qed

text \<open>What the transactions that insert an attempt leave behind.\<close>

lemma fail_retry_tx_logs:
  assumes run: "fail_retry_tx pg c lid st err at \<lparr>tx_db = d, tx_aborted = False\<rparr> = (Inr x, t')" and i: "uuid_in pg lid = Some i"
  shows "tx_db t' = d\<lparr>delivery_logs := sql_update (\<lambda>r. d_id r = i \<and> is_pending r) (failed_row c st err) (delivery_logs d)\<rparr>
    \<or> (\<exists>r y. insert_log (successor_row c at r)
          (d\<lparr>delivery_logs := sql_update (\<lambda>r. d_id r = i \<and> is_pending r) (failed_row c st err) (delivery_logs d)\<rparr>) = (Inr y, tx_db t'))"
  using run i by (fastforce simp: fail_retry_tx_def update_log_Inr insert_from_Inr
      split: prod.splits sum.splits if_splits dest!: tx_run_Inr)

lemma replay_tx_logs:
  assumes "replay_tx pg c sid wid \<lparr>tx_db = d, tx_aborted = False\<rparr> = (Inr x, t')" and "\<not> tx_aborted t'"
  shows "tx_db t' = d \<or> (\<exists>s w r y k. insert_log (replay_row c k r)
      (d\<lparr>delivery_logs := sql_update (in_dlq_of s w) (acked_row c) (delivery_logs d)\<rparr>) = (Inr y, tx_db t'))"
  using assms by (fastforce simp: replay_tx_def insert_from_Inr
      split: prod.splits sum.splits if_splits dest!: tx_run_Inr tx_run_Inl_ok claim_dlq_Inr)

lemma FailAndScheduleRetry_rel:
  assumes inv: "db_inv pg t d"
  shows "table_rel d (snd (FailAndScheduleRetry pg c d lid st err at))"
  unfolding FailAndScheduleRetry_def
proof (rule inTx_pres)
  fix x t' assume run: "fail_retry_tx pg c lid st err at \<lparr>tx_db = d, tx_aborted = False\<rparr> = (Inr x, t')"
  obtain i where i: "uuid_in pg lid = Some i"
    using run by (auto simp: fail_retry_tx_def update_log_Inr split: prod.splits sum.splits dest!: tx_run_Inr)
  let ?d1 = "d\<lparr>delivery_logs := sql_update (\<lambda>r. d_id r = i \<and> is_pending r) (failed_row c st err) (delivery_logs d)\<rparr>"
  have rel: "table_rel d ?d1"
    by (rule table_rel_update [OF inv, where P = "\<lambda>r. d_id r = i \<and> is_pending r" and f = "failed_row c st err"])
      (simp_all add: evolves_row_funs(5) [OF db_inv_rowsD [OF inv]])
  from fail_retry_tx_logs [OF run i] show "table_rel d (tx_db t')"
  proof (elim disjE exE)
    fix r y assume "insert_log (successor_row c at r) ?d1 = (Inr y, tx_db t')"
    then show ?thesis by (rule table_rel_insert [OF rel, rotated]) (simp add: sql_update_id_image)
  qed (use rel in simp)
qed (rule table_rel_same [OF inv refl])

lemma ReplayDLQ_rel:
  assumes inv: "db_inv pg t d"
  shows "table_rel d (snd (ReplayDLQ pg c d sid wid))"
  unfolding ReplayDLQ_def
proof (rule inTx_pres)
  fix x t' assume run: "replay_tx pg c sid wid \<lparr>tx_db = d, tx_aborted = False\<rparr> = (Inr x, t')"
    and ok: "\<not> tx_aborted t'"
  let ?ack = "\<lambda>s w. d\<lparr>delivery_logs := sql_update (in_dlq_of s w) (acked_row c) (delivery_logs d)\<rparr>"
  from replay_tx_logs [OF run ok] show "table_rel d (tx_db t')"
  proof (elim disjE exE)
    fix s w r y k assume "insert_log (replay_row c k r) (?ack s w) = (Inr y, tx_db t')"
    then show ?thesis
      by (rule table_rel_insert [OF ack_update_rel [OF inv], rotated]) (simp add: sql_update_id_image)
  qed (use table_rel_same [OF inv] in simp)
qed (rule table_rel_same [OF inv refl])

lemma insert_pending_log:
  "insert_pending pg c wid p d = (Inr x, d') \<Longrightarrow> \<exists>n. d_id n = c_uuid c \<and> insert_log n d = (Inr x, d')"
  by (force simp: insert_pending_def pending_row_def split: option.splits)

lemma ingest_insert_tx_log:
  "ingest_insert_tx pg c wid p t1 = (Inr x, t2) \<Longrightarrow> \<exists>n y. d_id n = c_uuid c \<and> insert_log n (tx_db t1) = (Inr y, tx_db t2)"
  by (auto simp: ingest_insert_tx_def split: prod.splits sum.splits if_splits
      dest!: tx_run_Inr insert_pending_log)

lemma insert_idem_logs:
  "insert_idem pg c sid key wid d = (Inr w, d') \<Longrightarrow> delivery_logs d' = delivery_logs d"
  by (auto simp: insert_idem_def split: option.splits if_splits)

lemma ingest_tx_logs:
  assumes run: "ingest_tx pg c p \<lparr>tx_db = d, tx_aborted = False\<rparr> = (Inr x, t')"
  shows "delivery_logs (tx_db t') = delivery_logs d
    \<or> (\<exists>n y d1. d_id n = c_uuid c \<and> delivery_logs d1 = delivery_logs d \<and> insert_log n d1 = (Inr y, tx_db t'))"
proof (cases "P_IdempotencyKey p = []")
  case True
  then show ?thesis using run by (auto simp: ingest_tx_def dest!: ingest_insert_tx_log)
next
  case False
  obtain r1 t1 where r1: "tx_run c 0 (insert_idem pg c (P_SubscriptionID p) (P_IdempotencyKey p) (P_WebhookID p))
      \<lparr>tx_db = d, tx_aborted = False\<rparr> = (r1, t1)" by fastforce
  have t1: "delivery_logs (tx_db t1) = delivery_logs d"
    using r1 by (auto simp: tx_run_def split: prod.splits sum.splits if_splits dest: insert_idem_logs)
  show ?thesis
    using run False r1 t1
    by (auto simp: ingest_tx_def split: prod.splits sum.splits if_splits
        dest!: ingest_insert_tx_log tx_run_Inr select_idem_db)
qed

lemma IngestPending_rel:
  assumes inv: "db_inv pg t d"
  shows "table_rel d (snd (IngestPending jv pg c d p))"
proof -
  have "table_rel d (snd (inTx c ''ingest'' (ingest_tx pg c p) d))"
  proof (rule inTx_pres)
    fix x t' assume run: "ingest_tx pg c p \<lparr>tx_db = d, tx_aborted = False\<rparr> = (Inr x, t')"
      and ok: "\<not> tx_aborted t'"
    from ingest_tx_logs [OF run] show "table_rel d (tx_db t')"
    proof (elim disjE exE conjE)
      fix n y d1 assume "delivery_logs d1 = delivery_logs d" "insert_log n d1 = (Inr y, tx_db t')"
      then show ?thesis using table_rel_insert [OF table_rel_same [OF inv]] by metis
    qed (rule table_rel_same [OF inv])
  qed (rule table_rel_same [OF inv refl])
  then show ?thesis using table_rel_same [OF inv refl] by (auto simp: IngestPending_def split: sum.splits)
qed

lemma table_rel_delete:
  assumes "db_inv pg t d" and "delivery_logs d' = sql_delete P (delivery_logs d)"
    and "\<And>r. r \<in> set (delivery_logs d) \<Longrightarrow> P r \<Longrightarrow> live r \<Longrightarrow> sub_by_id d' (d_subscription_id r) = None"
  shows "table_rel d d'"
  using assms by (auto simp: table_rel_def set_sql_delete dest: db_inv_rowsD intro: evolves_refl)

lemma other_ops_rel:
  assumes inv: "db_inv pg t d"
  shows "table_rel d (snd (DeleteExpired c d ret))"
    and "table_rel d (snd (PruneIdempotency c d ttl))"
    and "table_rel d (snd (RearmLeaseLessPending c locked d limit orphan))"
    and "table_rel d (snd (CreateSub c d s))"
    and "table_rel d (snd (UpdateSub pg c d s))"
    and "table_rel d (snd (RotateSecretSub pg c d sid k))"
    and "table_rel d (snd (DeleteSub pg c d sid))"
proof -
  note same = table_rel_same [OF inv]
  have pool: "table_rel d (snd (pool_run c st d))" if "\<And>x d'. st d = (Inr x, d') \<Longrightarrow> table_rel d d'" for st
    using same [OF refl] that by (rule pool_run_pres)
  show "table_rel d (snd (DeleteExpired c d ret))"
    unfolding store_op_db
    by (rule pool, rule table_rel_delete [OF inv, where P = "expired c ret"])
      (auto simp: delete_expired_stmt_def expired_def live_def)
  show "table_rel d (snd (PruneIdempotency c d ttl))"
    unfolding store_op_db by (rule pool, rule same) (auto simp: prune_stmt_def)
  show "table_rel d (snd (RearmLeaseLessPending c locked d limit orphan))"
    unfolding store_op_db by (rule pool, rule same) (auto simp: rearm_stmt_idle [OF inv])
  show "table_rel d (snd (CreateSub c d s))"
    unfolding store_op_db by (rule pool, rule same) (auto simp: insert_sub_def Let_def split: if_splits)
  show "table_rel d (snd (UpdateSub pg c d s))"
    unfolding store_op_db by (rule pool, rule same) (auto simp: update_sub_returning_Inr)
  show "table_rel d (snd (RotateSecretSub pg c d sid k))"
    unfolding store_op_db by (rule pool, rule same) (auto simp: update_sub_returning_Inr)
  show "table_rel d (snd (DeleteSub pg c d sid))"
    unfolding store_op_db
  proof (rule pool)
    fix x d' assume "delete_sub_stmt pg sid d = (Inr x, d')"
    then obtain i where l: "delivery_logs d' = sql_delete (\<lambda>r. d_subscription_id r = i) (delivery_logs d)"
      and s: "subscriptions d' = sql_delete (\<lambda>r. s_id r = i) (subscriptions d)"
      by (auto simp: delete_sub_stmt_def split: option.splits)
    show "table_rel d d'"
      using inv l by (rule table_rel_delete) (simp add: s lookup_row_delete_key)
  qed
qed

section \<open>The store as a transition system\<close>

text \<open>What the store relies on of its server: \<open>uuid_in\<close> returns canonical text. What each call
  relies on: the clock does not go backwards and \<^verbatim>\<open>gen_random_uuid()\<close> returns canonical text.\<close>

definition pg_ok :: "pgsql \<Rightarrow> bool" where
  "pg_ok pg \<longleftrightarrow> (\<forall>i j. uuid_in pg i = Some j \<longrightarrow> uuid_in pg j = Some j)"

definition call_ok :: "pgsql \<Rightarrow> time \<Rightarrow> call \<Rightarrow> bool" where
  "call_ok pg t c \<longleftrightarrow> t \<le> c_now c \<and> uuid_in pg (c_uuid c) = Some (c_uuid c)"

text \<open>Any caller may issue any repository call next, with any arguments and any fault; an ingest
  request carries a webhook id the store has not seen (the handler generates it).\<close>

inductive db_step :: "pgsql \<Rightarrow> (string \<Rightarrow> bool) \<Rightarrow> time \<times> db \<Rightarrow> time \<times> db \<Rightarrow> bool" for pg jv where
  ingest: "call_ok pg t c \<Longrightarrow> fresh_webhook pg d (P_WebhookID p) \<Longrightarrow>
    db_step pg jv (t, d) (c_now c, snd (IngestPending jv pg c d p))"
| claim: "call_ok pg t c \<Longrightarrow> db_step pg jv (t, d) (c_now c, snd (ClaimPending pg c d lid lease))"
| success: "call_ok pg t c \<Longrightarrow> db_step pg jv (t, d) (c_now c, snd (MarkSuccess pg c d lid sid st))"
| finalize: "call_ok pg t c \<Longrightarrow>
    db_step pg jv (t, d) (c_now c, snd (FinalizeFailure pg c d lid sid st' err threshold))"
| drop_row: "call_ok pg t c \<Longrightarrow> db_step pg jv (t, d) (c_now c, snd (MarkDropped pg c d lid err))"
| retry: "call_ok pg t c \<Longrightarrow>
    db_step pg jv (t, d) (c_now c, snd (FailAndScheduleRetry pg c d lid st' err at))"
| reschedule: "call_ok pg t c \<Longrightarrow>
    db_step pg jv (t, d) (c_now c, snd (RescheduleSamePending pg c d lid at))"
| rearm: "call_ok pg t c \<Longrightarrow>
    db_step pg jv (t, d) (c_now c, snd (RearmLeaseLessPending c locked d limit orphan))"
| ack: "call_ok pg t c \<Longrightarrow> db_step pg jv (t, d) (c_now c, snd (AckDLQ pg c d sid wid))"
| replay: "call_ok pg t c \<Longrightarrow> db_step pg jv (t, d) (c_now c, snd (ReplayDLQ pg c d sid wid))"
| expire: "call_ok pg t c \<Longrightarrow> db_step pg jv (t, d) (c_now c, snd (DeleteExpired c d retention))"
| prune: "call_ok pg t c \<Longrightarrow> db_step pg jv (t, d) (c_now c, snd (PruneIdempotency c d ttl))"
| force_ack: "call_ok pg t c \<Longrightarrow> db_step pg jv (t, d) (c_now c, snd (ForceAckOldDLQ c d maxAge))"
| create: "call_ok pg t c \<Longrightarrow> db_step pg jv (t, d) (c_now c, snd (CreateSub c d s))"
| update: "call_ok pg t c \<Longrightarrow> db_step pg jv (t, d) (c_now c, snd (UpdateSub pg c d s))"
| rotate: "call_ok pg t c \<Longrightarrow> db_step pg jv (t, d) (c_now c, snd (RotateSecretSub pg c d sid k))"
| delete: "call_ok pg t c \<Longrightarrow> db_step pg jv (t, d) (c_now c, snd (DeleteSub pg c d sid))"

inductive_cases db_stepE: "db_step pg jv (t, d) s'"

definition store_inv :: "pgsql \<Rightarrow> time \<times> db \<Rightarrow> bool" where
  "store_inv pg s \<longleftrightarrow> pg_ok pg \<and> db_inv pg (fst s) (snd s)"

lemmas op_invs = ClaimPending_inv MarkSuccess_inv FinalizeFailure_inv MarkDropped_inv
  FailAndScheduleRetry_inv RescheduleSamePending_inv Rearm_inv AckDLQ_inv ReplayDLQ_inv DeleteExpired_inv
  PruneIdempotency_inv ForceAck_inv CreateSub_inv UpdateSub_inv RotateSecretSub_inv DeleteSub_inv

lemmas op_rels = IngestPending_rel simple_ops_rel tx_ops_rel FailAndScheduleRetry_rel dlq_ops_rel
  ReplayDLQ_rel other_ops_rel

lemma db_step_inv:
  assumes step: "db_step pg jv (t, d) s'" and pg: "pg_ok pg" and inv: "db_inv pg t d"
  shows "db_inv pg (fst s') (snd s')"
proof -
  have idem: "\<And>i j. uuid_in pg i = Some j \<Longrightarrow> uuid_in pg j = Some j" using pg by (simp add: pg_ok_def)
  note ops = op_invs [OF inv] IngestPending_inv [OF inv _ _ _ idem]
  from step show ?thesis
    by (elim db_stepE; hypsubst) (unfold fst_conv snd_conv call_ok_def, (elim conjE, rule ops; assumption)+)
qed

interpretation store: step_invariant "db_step pg jv" "store_inv pg" for pg jv
  by unfold_locales (auto simp: store_inv_def dest: db_step_inv)

lemma db_step_rel:
  assumes "db_step pg jv (t, d) s'" and "db_inv pg t d"
  shows "table_rel d (snd s')" and "t \<le> fst s'"
proof -
  note ops = op_rels [OF assms(2)]
  show "table_rel d (snd s')"
    using assms(1) by (elim db_stepE; hypsubst) (unfold snd_conv, (rule ops)+)
  show "t \<le> fst s'"
    using assms(1) by (elim db_stepE; simp add: call_ok_def)
qed

lemma store_run_inv:
  "pg_ok pg \<Longrightarrow> (db_step pg jv)\<^sup>*\<^sup>* (t0, empty_db) (t, d) \<Longrightarrow> db_inv pg t d"
  using store.run_pres [of pg jv "(t0, empty_db)" "(t, d)"]
  by (simp add: store_inv_def db_inv_empty)

end
