(* ===== verification/Store_Correctness.thy ===== *)
theory Store_Correctness
  imports Store_History
begin

text \<open>
  What the delivery store guarantees: the consistency of every reachable database, the fate of a
  single attempt across a run, the outcome of the compare-and-set transitions, and the contracts of
  ingest, replay and retention.
\<close>

section \<open>A concrete server\<close>

text \<open>A server whose uuid type accepts every non-empty text as canonical; the examples below run
  the store on it.\<close>

definition plain_pg :: pgsql where
  "plain_pg = \<lparr>uuid_in = (\<lambda>s. if s = [] then None else Some s), jsonb_in = (\<lambda>s. s)\<rparr>"

lemma plain_pg_ok: "pg_ok plain_pg"
  by (simp add: pg_ok_def plain_pg_def)

definition demo_sub :: Subscription where
  "demo_sub = \<lparr>S_ID = [], S_TargetURL = ''https://h/'', S_SecretKey = ''k'', S_PreviousSecretKey = [],
     S_SecretRotatedAt = None, S_EventTypes = [], S_IsActive = True, S_ConsecutiveFailures = 0,
     S_CreatedAt = 0, S_UpdatedAt = 0\<rparr>"

definition demo_params :: "string \<Rightarrow> string \<Rightarrow> IngestParams" where
  "demo_params key wid = \<lparr>P_SubscriptionID = ''s'', P_IdempotencyKey = key, P_WebhookID = wid,
     P_TargetURL = ''https://h/'', P_Payload = ''{}'', P_EventType = []\<rparr>"

text \<open>A subscription \<open>''s''\<close>, an event ingested for it, its first attempt failed with a retry
  scheduled for second 5.\<close>

definition demo_db1 :: db where
  "demo_db1 = snd (CreateSub (ok_call 1 ''s'') empty_db demo_sub)"
definition demo_db2 :: db where
  "demo_db2 = snd (IngestPending (\<lambda>_. True) plain_pg (ok_call 2 ''a'') demo_db1 (demo_params ''key'' ''w''))"
definition demo_db3 :: db where
  "demo_db3 = snd (FailAndScheduleRetry plain_pg (ok_call 3 ''b'') demo_db2 ''a'' None ''boom'' 5)"

lemmas demo_defs = demo_db1_def demo_db2_def demo_db3_def demo_params_def demo_sub_def plain_pg_def
  ok_call_def

lemma demo_db1_eq:
  "demo_db1 = \<lparr>subscriptions = [\<lparr>s_id = ''s'', s_target_url = ''https://h/'', s_secret_key = ''k'',
      s_previous_secret_key = None, s_secret_rotated_at = None, s_event_types = [], s_is_active = True,
      s_consecutive_failures = 0, s_created_at = 1, s_updated_at = 1\<rparr>],
    delivery_logs = [], ingest_idempotency = []\<rparr>"
  by code_simp

lemma demo_db2_eq:
  "demo_db2 = demo_db1\<lparr>delivery_logs := [pending_row (ok_call 2 ''a'') ''w'' ''s'' ''https://h/'' ''{}'' None 1 0 2],
     ingest_idempotency := [\<lparr>i_subscription_id = ''s'', i_idempotency_key = ''key'', i_webhook_id = ''w'',
       i_created_at = 2\<rparr>]\<rparr>"
  by code_simp

lemma demo_db3_eq:
  "demo_db3 = demo_db2\<lparr>delivery_logs :=
     [failed_row (ok_call 3 ''b'') None ''boom'' (pending_row (ok_call 2 ''a'') ''w'' ''s'' ''https://h/'' ''{}'' None 1 0 2),
      pending_row (ok_call 3 ''b'') ''w'' ''s'' ''https://h/'' ''{}'' None 2 0 5]\<rparr>"
  by code_simp

lemma demo_call_ok: "t \<le> t' \<Longrightarrow> u \<noteq> [] \<Longrightarrow> call_ok plain_pg t (ok_call t' u)"
  by (simp add: call_ok_def plain_pg_def)

lemma demo_run1: "db_step plain_pg (\<lambda>_. True) (0, empty_db) (1, demo_db1)"
  using create [of plain_pg 0 "ok_call 1 ''s''" "\<lambda>_. True" empty_db demo_sub]
  by (simp add: demo_call_ok demo_db1_def)

lemma demo_run2: "db_step plain_pg (\<lambda>_. True) (1, demo_db1) (2, demo_db2)"
  using ingest [of plain_pg 1 "ok_call 2 ''a''" demo_db1 "demo_params ''key'' ''w''" "\<lambda>_. True"]
  by (simp add: demo_call_ok demo_db2_def fresh_webhook_def demo_db1_eq)

lemma demo_run3: "db_step plain_pg (\<lambda>_. True) (2, demo_db2) (3, demo_db3)"
  using retry [of plain_pg 2 "ok_call 3 ''b''" "\<lambda>_. True" demo_db2 "''a''" None "''boom''" 5]
  by (simp add: demo_call_ok demo_db3_def)

lemma demo_run: "(db_step plain_pg (\<lambda>_. True))\<^sup>*\<^sup>* (0, empty_db) (3, demo_db3)"
  using demo_run1 demo_run2 demo_run3 by (meson converse_rtranclp_into_rtranclp rtranclp.rtrancl_refl)

lemma demo_inv: "db_inv plain_pg 3 demo_db3"
  using store_run_inv [OF plain_pg_ok demo_run] .

lemma demo_inv2: "db_inv plain_pg 2 demo_db2"
  using demo_run1 demo_run2 store_run_inv [OF plain_pg_ok, of _ 0 2 demo_db2]
  by (meson converse_rtranclp_into_rtranclp rtranclp.rtrancl_refl)

section \<open>Reachable databases\<close>

text \<open>C2. At most one live attempt: in every database the store can reach, through any sequence of
  repository calls with any faults, a webhook has at most one attempt that is pending or dead-lettered,
  and that attempt is the last of its webhook: every other attempt of the webhook is settled and has a
  smaller (replay, attempt) position.\<close>

theorem at_most_one_live_attempt:
  assumes "pg_ok pg" and "(db_step pg jv)\<^sup>*\<^sup>* (t0, empty_db) (t, d)"
    and "r \<in> set (delivery_logs d)" "live r"
    and "r' \<in> set (delivery_logs d)" "d_webhook_id r' = d_webhook_id r" "r' \<noteq> r"
  shows "\<not> live r' \<and> pos r' < pos r \<and> d_subscription_id r' = d_subscription_id r"
proof -
  have inv: "db_inv pg t d" using assms(1,2) by (rule store_run_inv)
  then have ch: "chain_ok (delivery_logs d)" and key: "keyed d_id (delivery_logs d)"
    by (simp_all add: db_inv_def core_inv_def)
  show ?thesis
    using live_last [OF ch assms(3,4,5,6)] keyed_unique [OF key assms(5,3)] assms(7) by blast
qed

theorem at_most_one_live_attempt_witness:
  "live (delivery_logs demo_db3 ! 1) \<and> \<not> live (delivery_logs demo_db3 ! 0)
    \<and> pos (delivery_logs demo_db3 ! 0) < pos (delivery_logs demo_db3 ! 1)"
proof -
  have l: "live (delivery_logs demo_db3 ! 1)"
    and o: "d_webhook_id (delivery_logs demo_db3 ! 0) = d_webhook_id (delivery_logs demo_db3 ! 1)"
      "delivery_logs demo_db3 ! 0 \<noteq> delivery_logs demo_db3 ! 1"
    and m: "delivery_logs demo_db3 ! 1 \<in> set (delivery_logs demo_db3)"
      "delivery_logs demo_db3 ! 0 \<in> set (delivery_logs demo_db3)"
    by (simp_all add: demo_db3_eq live_def pending_row_def failed_row_def)
  from at_most_one_live_attempt [OF plain_pg_ok demo_run m(1) l m(2) o] l show ?thesis by blast
qed

lemma last_not_failed:
  assumes inv: "db_inv pg t d" and mem: "r \<in> set (delivery_logs d)"
  shows "\<exists>l \<in> set (delivery_logs d). d_webhook_id l = d_webhook_id r
    \<and> d_status l \<noteq> StatusFailedAttempt
    \<and> (\<forall>r' \<in> set (delivery_logs d). d_webhook_id r' = d_webhook_id r \<longrightarrow> pos r' \<le> pos l)"
proof -
  let ?S = "{x \<in> set (delivery_logs d). d_webhook_id x = d_webhook_id r}"
  have fin: "finite (pos ` ?S)" "pos ` ?S \<noteq> {}" using mem by auto
  from Max_in [OF fin] obtain l where l: "l \<in> ?S" "pos l = Max (pos ` ?S)" by (metis (no_types, lifting) imageE)
  then have mx: "pos r' \<le> pos l" if "r' \<in> ?S" for r' using that fin by (simp add: l(2))
  have "d_status l \<noteq> StatusFailedAttempt"
  proof
    assume "d_status l = StatusFailedAttempt"
    with inv l obtain s where "s \<in> set (delivery_logs d)" "successor_of l s"
      by (auto simp: db_inv_def succ_ok_def)
    with l(1) have "s \<in> ?S" "pos l < pos s" by (simp_all add: successor_of_def pos_def)
    with mx [of s] show False by simp
  qed
  with l mx show ?thesis by auto
qed

text \<open>C1. No event is lost: in every reachable database, the last attempt of a webhook is pending,
  delivered or a final failure, never a failed attempt waiting for a successor nobody created. A
  failed attempt is recorded in the same transaction that inserts its successor, and retention
  removes it no later than that successor.\<close>

theorem no_lost_event:
  assumes "pg_ok pg" and "(db_step pg jv)\<^sup>*\<^sup>* (t0, empty_db) (t, d)"
    and "r \<in> set (delivery_logs d)"
  shows "\<exists>l \<in> set (delivery_logs d). d_webhook_id l = d_webhook_id r
    \<and> d_status l \<noteq> StatusFailedAttempt
    \<and> (\<forall>r' \<in> set (delivery_logs d). d_webhook_id r' = d_webhook_id r \<longrightarrow> pos r' \<le> pos l)"
  using last_not_failed [OF store_run_inv [OF assms(1,2)] assms(3)] .

theorem no_lost_event_witness:
  "\<exists>l \<in> set (delivery_logs demo_db3). d_webhook_id l = ''w'' \<and> d_status l \<noteq> StatusFailedAttempt"
proof -
  let ?r = "delivery_logs demo_db3 ! 0"
  have "?r \<in> set (delivery_logs demo_db3)" "d_webhook_id ?r = ''w''"
    by (simp_all add: demo_db3_eq pending_row_def failed_row_def)
  with no_lost_event [OF plain_pg_ok demo_run, of ?r] show ?thesis by auto
qed

section \<open>The fate of one attempt\<close>

text \<open>A run in which no call's \<^verbatim>\<open>gen_random_uuid()\<close> returns \<open>i\<close> for a new row.\<close>

definition keeps_id :: "pgsql \<Rightarrow> (string \<Rightarrow> bool) \<Rightarrow> string \<Rightarrow> time \<times> db \<Rightarrow> time \<times> db \<Rightarrow> bool" where
  "keeps_id pg jv i s s' \<longleftrightarrow> db_step pg jv s s' \<and>
     (i \<in> d_id ` set (delivery_logs (snd s')) \<longrightarrow> i \<in> d_id ` set (delivery_logs (snd s)))"

interpretation kept: step_invariant "keeps_id pg jv i" "store_inv pg" for pg jv i
  by unfold_locales (auto simp: keeps_id_def intro: store.step_pres)

text \<open>How two versions of an attempt are related across a run.\<close>

definition attempt_rel :: "dl_row \<Rightarrow> dl_row \<Rightarrow> bool" where
  "attempt_rel r r' \<longleftrightarrow> same_ident r r' \<and> (is_pending r' \<longrightarrow> is_pending r)
     \<and> (d_in_dlq r' \<longrightarrow> live r)
     \<and> (\<not> is_pending r \<longrightarrow> d_status r' = d_status r \<and> d_http_status r' = d_http_status r
          \<and> d_error_details r' = d_error_details r)"

lemma evolves_attempt_rel: "evolves r r' \<Longrightarrow> attempt_rel r r'"
  unfolding evolves_def attempt_rel_def live_def by blast

lemma attempt_rel_trans: "attempt_rel a b \<Longrightarrow> attempt_rel b c \<Longrightarrow> attempt_rel a c"
  unfolding attempt_rel_def live_def by (metis same_ident_trans)

lemma attempt_rel_refl: "attempt_rel r r"
  by (simp add: attempt_rel_def live_def)

definition kept_rel :: "string \<Rightarrow> time \<times> db \<Rightarrow> time \<times> db \<Rightarrow> bool" where
  "kept_rel i s s' \<longleftrightarrow> (\<forall>r \<in> set (delivery_logs (snd s)). \<forall>r' \<in> set (delivery_logs (snd s')).
     d_id r = i \<longrightarrow> d_id r' = i \<longrightarrow> attempt_rel r r')"

lemma store_inv_key: "store_inv pg s \<Longrightarrow> keyed d_id (delivery_logs (snd s))"
  by (simp add: store_inv_def db_inv_def core_inv_def)

lemma kept_step:
  assumes inv: "store_inv pg s" and step: "keeps_id pg jv i s s'"
  shows "kept_rel i s s'"
  unfolding kept_rel_def
proof (intro ballI impI)
  obtain t d where s: "s = (t, d)" by fastforce
  have rel: "table_rel d (snd s')"
    using inv step by (auto simp: s store_inv_def keeps_id_def intro: db_step_rel)
  fix r r' assume r: "r \<in> set (delivery_logs (snd s))" "d_id r = i"
    and r': "r' \<in> set (delivery_logs (snd s'))" "d_id r' = i"
  have "d_id r' \<in> d_id ` set (delivery_logs d)" using r r' by (auto simp: s)
  with rel r'(1) obtain r0 where r0: "r0 \<in> set (delivery_logs d)" "evolves r0 r'"
    unfolding table_rel_def by blast
  then have "d_id r0 = i" using r' by (simp add: evolves_def same_ident_def)
  with r0 r have "r0 = r" using keyed_unique [OF store_inv_key [OF inv]] by (auto simp: s)
  with r0 show "attempt_rel r r'" by (simp add: evolves_attempt_rel)
qed

lemma kept_run:
  assumes "(keeps_id pg jv i)\<^sup>*\<^sup>* s s'" and "store_inv pg s"
  shows "kept_rel i s s'"
proof (rule kept.run_relates [OF assms])
  show "kept_rel i s s" if "store_inv pg s" for s
    using keyed_unique [OF store_inv_key [OF that]] attempt_rel_refl unfolding kept_rel_def by metis
next
  fix a b c assume a: "kept_rel i a b" "kept_rel i b c" "keeps_id pg jv i b c"
  show "kept_rel i a c"
    unfolding kept_rel_def
  proof (intro ballI impI)
    fix r r' assume r: "r \<in> set (delivery_logs (snd a))" "r' \<in> set (delivery_logs (snd c))" "d_id r = i" "d_id r' = i"
    then obtain m where "m \<in> set (delivery_logs (snd b))" "d_id m = i"
      using a(3) unfolding keeps_id_def by (metis (no_types, lifting) imageE image_eqI)
    with a r have "attempt_rel r m" "attempt_rel m r'" unfolding kept_rel_def by blast+
    then show "attempt_rel r r'" by (rule attempt_rel_trans)
  qed
qed (rule kept_step)

text \<open>A settled attempt never changes again: across any run of repository calls, an attempt that
  is not pending keeps its status, HTTP status, error text and every identifying field for as long as
  its row exists, and it is in the dead-letter set later only if it was there before.\<close>

theorem settled_attempt_immutable:
  assumes "pg_ok pg" and "db_inv pg t d" and "(keeps_id pg jv i)\<^sup>*\<^sup>* (t, d) (t', d')"
    and "r \<in> set (delivery_logs d)" "d_id r = i" "\<not> is_pending r"
    and "r' \<in> set (delivery_logs d')" "d_id r' = i"
  shows "same_ident r r' \<and> d_status r' = d_status r \<and> d_http_status r' = d_http_status r
    \<and> d_error_details r' = d_error_details r \<and> (d_in_dlq r' \<longrightarrow> d_in_dlq r)"
proof -
  have "kept_rel i (t, d) (t', d')"
    using assms(1,2) by (intro kept_run [OF assms(3)]) (simp add: store_inv_def)
  with assms(4,5,7,8) have "attempt_rel r r'" by (simp add: kept_rel_def)
  with assms(6) show ?thesis unfolding attempt_rel_def live_def by blast
qed

theorem settled_attempt_immutable_witness:
  "\<exists>r'. r' \<in> set (delivery_logs (snd (MarkSuccess plain_pg (ok_call 4 ''u'') demo_db3 ''b'' ''s'' 200)))
     \<and> d_id r' = ''a'' \<and> d_status r' = StatusFailedAttempt"
proof -
  let ?r = "delivery_logs demo_db3 ! 0"
  let ?d = "snd (MarkSuccess plain_pg (ok_call 4 ''u'') demo_db3 ''b'' ''s'' 200)"
  have d: "delivery_logs ?d ! 0 = ?r" "length (delivery_logs ?d) = 2" by code_simp+
  have r: "?r \<in> set (delivery_logs demo_db3)" "d_id ?r = ''a''" "\<not> is_pending ?r"
    "d_status ?r = StatusFailedAttempt"
    by (simp_all add: demo_db3_eq pending_row_def failed_row_def)
  have m: "?r \<in> set (delivery_logs ?d)" using d by (metis nth_mem zero_less_numeral)
  have "keeps_id plain_pg (\<lambda>_. True) ''a'' (3, demo_db3) (4, ?d)"
    using success [of plain_pg 3 "ok_call 4 ''u''" "\<lambda>_. True" demo_db3 "''b''" "''s''" 200] r
    by (auto simp: keeps_id_def demo_call_ok image_iff intro: sym)
  then have "(keeps_id plain_pg (\<lambda>_. True) ''a'')\<^sup>*\<^sup>* (3, demo_db3) (4, ?d)" ..
  from settled_attempt_immutable [OF plain_pg_ok demo_inv this r(1-3) m r(2)] r m show ?thesis by blast
qed

section \<open>Compare-and-set transitions\<close>

text \<open>The four calls that finish an attempt, and whether the caller won.\<close>

datatype finish =
    By_success string int
  | By_final string "int option" string int
  | By_drop string
  | By_retry "int option" string time

fun run_finish :: "pgsql \<Rightarrow> call \<Rightarrow> db \<Rightarrow> string \<Rightarrow> finish \<Rightarrow> bool result \<times> db" where
  "run_finish pg c d lid (By_success sid st) = map_prod (map_sum (\<lambda>e. e) fst) (\<lambda>d. d) (MarkSuccess pg c d lid sid st)"
| "run_finish pg c d lid (By_final sid st err th) =
     map_prod (map_sum (\<lambda>e. e) fst) (\<lambda>d. d) (FinalizeFailure pg c d lid sid st err th)"
| "run_finish pg c d lid (By_drop err) = MarkDropped pg c d lid err"
| "run_finish pg c d lid (By_retry st err at) =
     map_prod (map_sum (\<lambda>e. e) snd) (\<lambda>d. d) (FailAndScheduleRetry pg c d lid st err at)"

definition pending_id :: "db \<Rightarrow> string \<Rightarrow> bool" where
  "pending_id d i \<longleftrightarrow> (\<exists>r \<in> set (delivery_logs d). d_id r = i \<and> is_pending r)"

lemma pending_id_affected: "pending_id d i \<longleftrightarrow> rows_affected (\<lambda>r. d_id r = i \<and> is_pending r) (delivery_logs d) \<noteq> 0"
  by (auto simp: pending_id_def rows_affected_0)

lemma pending_id_logs: "delivery_logs d' = delivery_logs d \<Longrightarrow> pending_id d' i = pending_id d i"
  by (simp add: pending_id_def)

lemma pending_id_update:
  assumes "delivery_logs d' = sql_update (\<lambda>r. d_id r = i \<and> is_pending r) f (delivery_logs d)"
    and "\<And>r. \<not> is_pending (f r)"
  shows "\<not> pending_id d' i"
  using assms by (auto simp: pending_id_def set_sql_update split: if_splits)

text \<open>A winning finisher found the row pending and replaced it by a settled one.\<close>

definition cas_on :: "pgsql \<Rightarrow> string \<Rightarrow> (dl_row \<Rightarrow> dl_row) \<Rightarrow> db \<Rightarrow> db \<Rightarrow> bool" where
  "cas_on pg lid f d d' \<longleftrightarrow> (\<exists>i. uuid_in pg lid = Some i \<and> pending_id d i
     \<and> delivery_logs d' = sql_update (\<lambda>r. d_id r = i \<and> is_pending r) f (delivery_logs d))"

lemma cas_on_settles:
  "cas_on pg lid f d d' \<Longrightarrow> (\<And>r. \<not> is_pending (f r)) \<Longrightarrow>
     \<exists>i. uuid_in pg lid = Some i \<and> pending_id d i \<and> \<not> pending_id d' i"
  using pending_id_update unfolding cas_on_def by blast

lemma MarkSuccess_won:
  assumes "MarkSuccess pg c d lid sid st = (Inr (True, b), d')"
  shows "cas_on pg lid (success_row c st) d d'"
  using inTx_Inr [OF assms [unfolded MarkSuccess_def]]
  by (auto simp: mark_success_tx_def stmt_invs pending_id_affected cas_on_def
      split: prod.splits sum.splits if_splits dest!: tx_run_Inr)

lemma FinalizeFailure_won:
  assumes "FinalizeFailure pg c d lid sid st err th = (Inr (True, b), d')"
  shows "cas_on pg lid (final_row c st err) d d'"
  using inTx_Inr [OF assms [unfolded FinalizeFailure_def]]
  by (auto simp: finalize_tx_def stmt_invs pending_id_affected cas_on_def
      split: prod.splits sum.splits if_splits dest!: tx_run_Inr tx_run_Inl_ok)

lemma MarkDropped_won:
  assumes "MarkDropped pg c d lid err = (Inr True, d')"
  shows "cas_on pg lid (dropped_row c err) d d'"
  using assms
  by (auto simp: MarkDropped_def stmt_invs pending_id_affected cas_on_def
      split: prod.splits sum.splits if_splits dest!: pool_run_Inr)

lemma successor_row_failed [simp]: "successor_row c at (failed_row c' st err r) = successor_row c at r"
  by (simp add: successor_row_def failed_row_def)

lemma FailAndScheduleRetry_won:
  assumes inv: "db_inv pg t d" and won: "FailAndScheduleRetry pg c d lid st err at = (Inr (n, True), d')"
  shows "\<exists>x \<in> set (delivery_logs d). uuid_in pg lid = Some (d_id x) \<and> is_pending x \<and> n = c_uuid c
     \<and> c_uuid c \<notin> d_id ` set (delivery_logs d) \<and> subscriptions d' = subscriptions d
     \<and> delivery_logs d' = sql_insert (successor_row c at x)
          (sql_update (\<lambda>r. d_id r = d_id x \<and> is_pending r) (failed_row c st err) (delivery_logs d))"
proof -
  let ?upd = "\<lambda>i. sql_update (\<lambda>r. d_id r = i \<and> is_pending r) (failed_row c st err) (delivery_logs d)"
  from inTx_Inr [OF won [unfolded FailAndScheduleRetry_def]] obtain i y where
    i: "uuid_in pg lid = Some i" "pending_id d i" and y: "lookup_row d_id i (?upd i) = Some y"
    and ins: "insert_log (successor_row c at y) (d\<lparr>delivery_logs := ?upd i\<rparr>) = (Inr n, d')"
    by (fastforce simp: fail_retry_tx_def update_log_Inr insert_from_Inr pending_id_affected
      split: prod.splits sum.splits if_splits dest!: tx_run_Inr)
  from i obtain x where x: "x \<in> set (delivery_logs d)" "d_id x = i" "is_pending x" by (auto simp: pending_id_def)
  have "keyed d_id (delivery_logs d)" using inv by (simp add: db_inv_def core_inv_def)
  then have "y = failed_row c st err x"
    using y x lookup_row_eq [of d_id "delivery_logs d" i x] by (simp add: lookup_row_update)
  with ins have "n = d_id (successor_row c at x)" "lookup_row d_id (d_id (successor_row c at x)) (?upd i) = None"
    "d' = d\<lparr>delivery_logs := sql_insert (successor_row c at x) (?upd i)\<rparr>" by (auto simp: insert_log_Inr)
  moreover have "d_id (successor_row c at x) = c_uuid c" by (simp add: successor_row_def pending_row_def)
  moreover have "lookup_row d_id j (?upd i) = None \<longleftrightarrow> j \<notin> d_id ` set (delivery_logs d)" for j
    by (auto simp: lookup_row_update lookup_row_None)
  ultimately show ?thesis using x i by auto
qed

lemma retry_settles:
  assumes "db_inv pg t d" and "FailAndScheduleRetry pg c d lid st err at = (Inr (n, True), d')"
  shows "\<exists>i. uuid_in pg lid = Some i \<and> pending_id d i \<and> \<not> pending_id d' i"
proof -
  from FailAndScheduleRetry_won [OF assms] obtain x where x: "x \<in> set (delivery_logs d)"
    "uuid_in pg lid = Some (d_id x)" "is_pending x" "c_uuid c \<notin> d_id ` set (delivery_logs d)"
    and d': "delivery_logs d' = sql_insert (successor_row c at x)
      (sql_update (\<lambda>r. d_id r = d_id x \<and> is_pending r) (failed_row c st err) (delivery_logs d))" by blast
  have "d_id (successor_row c at x) \<noteq> d_id x" using x by (auto simp: successor_row_def pending_row_def)
  then have "\<not> pending_id d' (d_id x)"
    by (auto simp: pending_id_def d' set_sql_insert set_sql_update split: if_splits)
  with x show ?thesis by (auto simp: pending_id_def)
qed

lemma map_prod_InrD:
  "map_prod (map_sum (\<lambda>e. e) f) (\<lambda>d. d) p = (Inr y, d') \<Longrightarrow> \<exists>x. p = (Inr x, d') \<and> f x = y"
  by (cases p; cases "fst p") auto

lemma finish_wins:
  assumes inv: "db_inv pg t d" and won: "run_finish pg c d lid f = (Inr True, d')"
  shows "\<exists>i. uuid_in pg lid = Some i \<and> pending_id d i \<and> \<not> pending_id d' i"
proof (cases f)
  case (By_success sid st)
  with won obtain b where "MarkSuccess pg c d lid sid st = (Inr (True, b), d')" by (auto dest!: map_prod_InrD)
  from cas_on_settles [OF MarkSuccess_won [OF this]] show ?thesis by simp
next
  case (By_final sid st err th)
  with won obtain b where "FinalizeFailure pg c d lid sid st err th = (Inr (True, b), d')" by (auto dest!: map_prod_InrD)
  from cas_on_settles [OF FinalizeFailure_won [OF this]] show ?thesis by simp
next
  case (By_drop err)
  with won have "MarkDropped pg c d lid err = (Inr True, d')" by simp
  from cas_on_settles [OF MarkDropped_won [OF this]] show ?thesis by simp
next
  case (By_retry st err at)
  with won obtain n where "FailAndScheduleRetry pg c d lid st err at = (Inr (n, True), d')" by (auto dest!: map_prod_InrD)
  from retry_settles [OF inv this] show ?thesis .
qed

lemma finish_step: "call_ok pg t c \<Longrightarrow> db_step pg jv (t, d) (c_now c, snd (run_finish pg c d lid f))"
  by (cases f) (auto intro: db_step.intros)

lemma kept_run_id:
  "(keeps_id pg jv i)\<^sup>*\<^sup>* s s' \<Longrightarrow> i \<in> d_id ` set (delivery_logs (snd s')) \<Longrightarrow>
     i \<in> d_id ` set (delivery_logs (snd s))"
  by (induction rule: rtranclp_induct) (simp_all add: keeps_id_def)

lemma pending_id_kept:
  assumes run: "(keeps_id pg jv i)\<^sup>*\<^sup>* s s'" and inv: "store_inv pg s" and pend: "pending_id (snd s') i"
  shows "pending_id (snd s) i"
proof -
  from pend obtain r' where r': "r' \<in> set (delivery_logs (snd s'))" "d_id r' = i" "is_pending r'"
    by (auto simp: pending_id_def)
  then have "i \<in> d_id ` set (delivery_logs (snd s))" by (intro kept_run_id [OF run]) auto
  then obtain r where r: "r \<in> set (delivery_logs (snd s))" "d_id r = i" by auto
  with r' kept_run [OF run inv] have "attempt_rel r r'" by (simp add: kept_rel_def)
  with r r' show ?thesis by (auto simp: attempt_rel_def pending_id_def)
qed

text \<open>C17. Every attempt is finished at most once: once a call of \<open>MarkSuccess\<close>, \<open>FinalizeFailure\<close>,
  \<open>MarkDropped\<close> or \<open>FailAndScheduleRetry\<close> has reported that it won the attempt, no later call of any
  of the four on that attempt reports a win, whatever repository calls run in between.\<close>

theorem attempt_finished_once:
  assumes "pg_ok pg" and "db_inv pg t d" and "call_ok pg t c"
    and "run_finish pg c d lid f = (Inr True, d1)" and "uuid_in pg lid = Some i"
    and "(keeps_id pg jv i)\<^sup>*\<^sup>* (c_now c, d1) (t', d')"
  shows "fst (run_finish pg c' d' lid f') \<noteq> Inr True"
proof
  assume "fst (run_finish pg c' d' lid f') = Inr True"
  then obtain d2 where w2: "run_finish pg c' d' lid f' = (Inr True, d2)" by (metis prod.collapse)
  have "store_inv pg (t, d)" using assms(1,2) by (simp add: store_inv_def)
  then have inv1: "store_inv pg (c_now c, d1)"
    using store.step_pres finish_step [OF assms(3)] assms(4) by (metis snd_conv)
  then have "db_inv pg t' d'" using kept.run_pres [OF assms(6)] by (simp add: store_inv_def)
  from finish_wins [OF this w2] assms(5) have "pending_id d' i" by auto
  with pending_id_kept [OF assms(6) inv1] have "pending_id d1 i" by simp
  with finish_wins [OF assms(2,4)] assms(5) show False by auto
qed

theorem attempt_finished_once_witness:
  "fst (run_finish plain_pg (ok_call 9 ''v'')
     (snd (run_finish plain_pg (ok_call 4 ''u'') demo_db3 ''b'' (By_success ''s'' 200))) ''b''
     (By_final ''s'' None ''late'' 5)) \<noteq> Inr True"
proof -
  let ?d1 = "snd (run_finish plain_pg (ok_call 4 ''u'') demo_db3 ''b'' (By_success ''s'' 200))"
  have "run_finish plain_pg (ok_call 4 ''u'') demo_db3 ''b'' (By_success ''s'' 200) = (Inr True, ?d1)"
    by code_simp
  moreover have "uuid_in plain_pg ''b'' = Some ''b''" by (simp add: plain_pg_def)
  moreover have "call_ok plain_pg 3 (ok_call 4 ''u'')" by (simp add: demo_call_ok)
  ultimately show ?thesis
    using attempt_finished_once [OF plain_pg_ok demo_inv] by (metis rtranclp.rtrancl_refl)
qed

lemma claim_won:
  assumes "keyed d_id (delivery_logs d)" and "ClaimPending pg c d lid lease = (Inr True, d1)"
  obtains x where "log_by_id d (d_id x) = Some x" "uuid_in pg lid = Some (d_id x)" "is_pending x" "due (c_now c) x"
    "d1 = d\<lparr>delivery_logs := sql_update (\<lambda>r. d_id r = d_id x) (lease_row c lease) (delivery_logs d)\<rparr>"
proof -
  note key = assms(1)
  let ?P = "\<lambda>i r. d_id r = i \<and> is_pending r \<and> due (c_now c) r"
  from assms(2) obtain i where i: "uuid_in pg lid = Some i" "rows_affected (?P i) (delivery_logs d) = 1"
    and d1: "d1 = d\<lparr>delivery_logs := sql_update (?P i) (lease_row c lease) (delivery_logs d)\<rparr>"
    by (auto simp: ClaimPending_def update_log_Inr split: prod.splits sum.splits if_splits dest!: pool_run_Inr)
  from i obtain x where x: "log_by_id d i = Some x" "is_pending x" "due (c_now c) x"
    using rows_affected_key_1 [OF key, of i "\<lambda>r. is_pending r \<and> due (c_now c) r"] by auto
  then have xi: "x \<in> set (delivery_logs d)" "d_id x = i" by (auto dest: lookup_row_SomeD)
  have only: "?P i r \<longleftrightarrow> d_id r = i" if "r \<in> set (delivery_logs d)" for r
    using keyed_unique [OF key that xi(1)] x xi by auto
  have "sql_update (?P i) (lease_row c lease) (delivery_logs d) = sql_update (\<lambda>r. d_id r = i) (lease_row c lease) (delivery_logs d)"
    unfolding sql_update_def by (rule map_cong [OF refl]) (simp only: only)
  then have "d1 = d\<lparr>delivery_logs := sql_update (\<lambda>r. d_id r = i) (lease_row c lease) (delivery_logs d)\<rparr>"
    unfolding d1 by (rule arg_cong)
  with that [of x] x xi i show thesis by simp
qed

lemma lease_refuses:
  assumes "uuid_in pg lid = Some i" and "c_now c' < c_now c + pg_interval (secondsArg lease)"
    and d1: "d1 = d\<lparr>delivery_logs := sql_update (\<lambda>r. d_id r = i) (lease_row c lease) (delivery_logs d)\<rparr>"
  shows "snd (ClaimPending pg c' d1 lid lease') = d1 \<and> fst (ClaimPending pg c' d1 lid lease') \<noteq> Inr True"
proof -
  have "\<forall>r \<in> set (delivery_logs d1). \<not> (d_id r = i \<and> is_pending r \<and> due (c_now c') r)"
  proof (intro ballI notI)
    fix r assume "r \<in> set (delivery_logs d1)" and r: "d_id r = i \<and> is_pending r \<and> due (c_now c') r"
    then have "r \<in> set (sql_update (\<lambda>r. d_id r = i) (lease_row c lease) (delivery_logs d))"
      by (simp add: d1)
    then obtain r0 where "r = (if d_id r0 = i then lease_row c lease r0 else r0)"
      unfolding in_sql_update by blast
    with r have "r = lease_row c lease r0" by (cases "d_id r0 = i") auto
    with r have "due (c_now c') (lease_row c lease r0)" by blast
    with assms(2) show False by (simp add: lease_row_def due_def)
  qed
  then have "update_log pg lid (\<lambda>r. is_pending r \<and> due (c_now c') r) (lease_row c' lease') d1 = (Inr 0, d1)"
    using assms(1) by (simp add: update_log_def rows_affected_0 sql_update_none)
  then show ?thesis by (auto simp: ClaimPending_def pool_run_def split: commit.splits)
qed

text \<open>A claim is exclusive while its lease runs: a call of \<open>ClaimPending\<close> that reports success found
  the attempt pending and due, and moved its due time to the end of the lease and nothing else; every
  claim of the same attempt made on the resulting database before that time is refused and changes
  nothing.\<close>

theorem claim_exclusive:
  assumes "db_inv pg t d" and "ClaimPending pg c d lid lease = (Inr True, d1)"
  shows "(\<exists>x. log_by_id d (d_id x) = Some x \<and> uuid_in pg lid = Some (d_id x) \<and> is_pending x \<and> due (c_now c) x
      \<and> d1 = d\<lparr>delivery_logs := sql_update (\<lambda>r. d_id r = d_id x) (lease_row c lease) (delivery_logs d)\<rparr>)
    \<and> (\<forall>c' lease'. c_now c' < c_now c + pg_interval (secondsArg lease) \<longrightarrow>
      snd (ClaimPending pg c' d1 lid lease') = d1 \<and> fst (ClaimPending pg c' d1 lid lease') \<noteq> Inr True)"
proof -
  have key: "keyed d_id (delivery_logs d)" using assms(1) by (simp add: db_inv_def core_inv_def)
  from claim_won [OF key assms(2)] obtain x where
    x: "log_by_id d (d_id x) = Some x" "uuid_in pg lid = Some (d_id x)" "is_pending x" "due (c_now c) x"
    and d1: "d1 = d\<lparr>delivery_logs := sql_update (\<lambda>r. d_id r = d_id x) (lease_row c lease) (delivery_logs d)\<rparr>" .
  then show ?thesis using lease_refuses [OF x(2) _ d1] by blast
qed

theorem claim_exclusive_witness:
  "snd (ClaimPending plain_pg (ok_call 999999999 ''v'') (snd (ClaimPending plain_pg (ok_call 6 ''u'') demo_db3 ''b'' 1)) ''b'' 1)
    = snd (ClaimPending plain_pg (ok_call 6 ''u'') demo_db3 ''b'' 1)"
proof -
  have "ClaimPending plain_pg (ok_call 6 ''u'') demo_db3 ''b'' 1 =
      (Inr True, snd (ClaimPending plain_pg (ok_call 6 ''u'') demo_db3 ''b'' 1))"
    by code_simp
  from claim_exclusive [OF demo_inv this] show ?thesis
    by (simp add: secondsArg_def pg_interval_def)
qed

end
