(* ===== verification/Store_Contracts.thy ===== *)
theory Store_Contracts
  imports Store_Correctness
begin

text \<open>
  The contracts of single repository operations that their callers rely on: idempotent ingest, the
  retry chain, the failure counter, dead-letter replay, and subscription paging.
\<close>

section \<open>Idempotent ingest\<close>

definition faultless :: "call \<Rightarrow> bool" where
  "faultless c \<longleftrightarrow> \<not> c_begin_fails c \<and> (\<forall>k. \<not> c_stmt_fails c k) \<and> c_commit c = Committed"

lemma faultless_ok_call [simp]: "faultless (ok_call t u)"
  by (simp add: faultless_def)

lemma tx_run_faultless:
  "faultless c \<Longrightarrow> \<not> tx_aborted t \<Longrightarrow> tx_run c k st t =
     (case st (tx_db t) of (Inl e, _) \<Rightarrow> (Inl e, if e = ErrNoRows then t else t\<lparr>tx_aborted := True\<rparr>)
                         | (Inr x, d') \<Rightarrow> (Inr x, t\<lparr>tx_db := d'\<rparr>))"
  by (simp add: tx_run_def faultless_def)

lemma inTx_faultless:
  "faultless c \<Longrightarrow> inTx c op fn d =
     (case fn \<lparr>tx_db = d, tx_aborted = False\<rparr> of (Inl e, _) \<Rightarrow> (Inl e, d)
      | (Inr x, t) \<Rightarrow> if tx_aborted t then (Inl (ErrOther (''store: commit '' @ op)), d) else (Inr x, tx_db t))"
  by (auto simp: inTx_def faultless_def split: prod.splits sum.splits)

definition ingest_args_ok :: "(string \<Rightarrow> bool) \<Rightarrow> IngestParams \<Rightarrow> bool" where
  "ingest_args_ok jv p \<longleftrightarrow> jv (P_Payload p) \<and> length (P_TargetURL p) \<le> MaxTargetURLLength
     \<and> ValidateEventType (P_EventType p) = Inr ()"

lemma IngestPending_ok: "ingest_args_ok jv p \<Longrightarrow> IngestPending jv pg c d p = inTx c ''ingest'' (ingest_tx pg c p) d"
  by (simp add: IngestPending_def ingest_args_ok_def)

text \<open>A request whose key is recorded returns the recorded webhook and changes nothing.\<close>

lemma ingest_duplicate:
  assumes "ingest_args_ok jv p" "faultless c" "P_IdempotencyKey p \<noteq> []"
    and "uuid_in pg (P_SubscriptionID p) = Some s" "uuid_in pg (P_WebhookID p) \<noteq> None"
    and "idem_by_key d (s, P_IdempotencyKey p) = Some k"
  shows "IngestPending jv pg c d p =
    (Inr \<lparr>R_WebhookID = i_webhook_id k, R_DeliveryLogID = [], R_Duplicate = True\<rparr>, d)"
  using assms
  by (auto simp: IngestPending_ok inTx_faultless ingest_tx_def tx_run_faultless insert_idem_def select_idem_def)

lemma insert_pending_idem:
  "insert_pending pg c w p d = (Inr x, d') \<Longrightarrow> ingest_idempotency d' = ingest_idempotency d"
  by (auto simp: insert_pending_def insert_log_Inr split: option.splits)

lemma ingest_insert_tx_idem:
  "ingest_insert_tx pg c w p t1 = (Inr x, t2) \<Longrightarrow>
     R_WebhookID x = w \<and> ingest_idempotency (tx_db t2) = ingest_idempotency (tx_db t1)"
  by (auto simp: ingest_insert_tx_def split: prod.splits sum.splits if_splits dest!: tx_run_Inr insert_pending_idem)

lemma insert_idem_records:
  assumes "insert_idem pg c sid key wid d = (Inr w, d')" and "uuid_in pg sid = Some s"
  shows "\<exists>k. idem_by_key d' (s, key) = Some k \<and> i_webhook_id k = w"
  using assms by (auto simp: insert_idem_def lookup_row_insert idem_key_def split: option.splits if_splits)

lemma ingest_tx_records:
  assumes run: "ingest_tx pg c p \<lparr>tx_db = d, tx_aborted = False\<rparr> = (Inr x, t')"
    and key: "P_IdempotencyKey p \<noteq> []" and s: "uuid_in pg (P_SubscriptionID p) = Some s"
  shows "\<exists>k. idem_by_key (tx_db t') (s, P_IdempotencyKey p) = Some k \<and> i_webhook_id k = R_WebhookID x"
proof -
  obtain r1 t1 where r1: "tx_run c 0 (insert_idem pg c (P_SubscriptionID p) (P_IdempotencyKey p) (P_WebhookID p))
      \<lparr>tx_db = d, tx_aborted = False\<rparr> = (r1, t1)" by fastforce
  show ?thesis
  proof (cases r1)
    case (Inr w)
    with r1 have "insert_idem pg c (P_SubscriptionID p) (P_IdempotencyKey p) (P_WebhookID p) d = (Inr w, tx_db t1)"
      by (auto dest!: tx_run_Inr)
    from insert_idem_records [OF this s] run key r1 Inr show ?thesis
      by (auto simp: ingest_tx_def dest!: ingest_insert_tx_idem)
  next
    case (Inl e)
    with run key r1 obtain y where
      y: "tx_run c 1 (select_idem pg (P_SubscriptionID p) (P_IdempotencyKey p)) t1 = (Inr y, t')" "R_WebhookID x = y"
      by (auto simp: ingest_tx_def split: prod.splits sum.splits if_splits)
    then show ?thesis using s by (auto simp: select_idem_def dest!: tx_run_Inr split: option.splits)
  qed
qed

text \<open>C14. Ingest with an idempotency key happens once: if a request changed the database or was
  acknowledged, even when the commit's reply was lost and the sender saw an error, then every later
  valid request with the same key on a database that still holds the key's record is acknowledged as
  a duplicate with the first request's webhook id, and inserts nothing.\<close>

theorem ingest_once_per_key:
  assumes "IngestPending jv pg c d p = (res, d1)" and "d1 \<noteq> d \<or> (\<exists>x. res = Inr x)"
    and "P_IdempotencyKey p \<noteq> []" and "uuid_in pg (P_SubscriptionID p) = Some s"
  shows "\<exists>k. idem_by_key d1 (s, P_IdempotencyKey p) = Some k
    \<and> (\<forall>x. res = Inr x \<longrightarrow> R_WebhookID x = i_webhook_id k)
    \<and> (\<forall>c' d' p'. ingest_args_ok jv p' \<and> faultless c' \<and> P_SubscriptionID p' = P_SubscriptionID p
          \<and> P_IdempotencyKey p' = P_IdempotencyKey p \<and> uuid_in pg (P_WebhookID p') \<noteq> None
          \<and> idem_by_key d' (s, P_IdempotencyKey p) = Some k \<longrightarrow>
        IngestPending jv pg c' d' p' =
          (Inr \<lparr>R_WebhookID = i_webhook_id k, R_DeliveryLogID = [], R_Duplicate = True\<rparr>, d'))"
proof -
  have "ingest_args_ok jv p"
    using assms(1,2) by (auto simp: IngestPending_def ingest_args_ok_def split: if_splits sum.splits)
  with assms(1) have tx: "inTx c ''ingest'' (ingest_tx pg c p) d = (res, d1)" by (simp add: IngestPending_ok)
  then obtain x t where run: "ingest_tx pg c p \<lparr>tx_db = d, tx_aborted = False\<rparr> = (Inr x, t)" "d1 = tx_db t"
    and res: "\<forall>y. res = Inr y \<longrightarrow> y = x"
    using assms(2) by (auto simp: inTx_def split: if_splits prod.splits sum.splits commit.splits)
  from ingest_tx_records [OF run(1) assms(3,4)] run(2) obtain k where
    k: "idem_by_key d1 (s, P_IdempotencyKey p) = Some k" "i_webhook_id k = R_WebhookID x" by blast
  have "\<forall>c' d' p'. ingest_args_ok jv p' \<and> faultless c' \<and> P_SubscriptionID p' = P_SubscriptionID p
          \<and> P_IdempotencyKey p' = P_IdempotencyKey p \<and> uuid_in pg (P_WebhookID p') \<noteq> None
          \<and> idem_by_key d' (s, P_IdempotencyKey p) = Some k \<longrightarrow>
        IngestPending jv pg c' d' p' =
          (Inr \<lparr>R_WebhookID = i_webhook_id k, R_DeliveryLogID = [], R_Duplicate = True\<rparr>, d')"
    using assms(3,4) by (metis ingest_duplicate)
  with k res show ?thesis by (metis (lifting))
qed

theorem ingest_once_per_key_witness:
  "fst (IngestPending (\<lambda>_. True) plain_pg (ok_call 3 ''z'') demo_db2 (demo_params ''key'' ''other''))
    = Inr \<lparr>R_WebhookID = ''w'', R_DeliveryLogID = [], R_Duplicate = True\<rparr>
   \<and> fst (IngestPending (\<lambda>_. True) plain_pg ((ok_call 2 ''a'')\<lparr>c_commit := CommitLost\<rparr>) demo_db1 (demo_params ''key'' ''w''))
    = Inl (ErrOther ''store: commit ingest'')"
proof -
  let ?c = "(ok_call 2 ''a'')\<lparr>c_commit := CommitLost\<rparr>"
  have lost: "IngestPending (\<lambda>_. True) plain_pg ?c demo_db1 (demo_params ''key'' ''w'')
      = (Inl (ErrOther ''store: commit ingest''), demo_db2)" by code_simp
  have ne: "demo_db2 \<noteq> demo_db1" by (simp add: demo_db2_eq demo_db1_eq)
  have args: "ingest_args_ok (\<lambda>_. True) (demo_params ''key'' ''other'')" by code_simp
  have key: "P_IdempotencyKey (demo_params ''key'' ''w'') \<noteq> []"
    "uuid_in plain_pg (P_SubscriptionID (demo_params ''key'' ''w'')) = Some ''s''"
    by (simp_all add: demo_params_def plain_pg_def)
  from ingest_once_per_key [OF lost disjI1 [OF ne] key] obtain k where
    k: "idem_by_key demo_db2 (''s'', ''key'') = Some k"
    and dup: "\<And>c' d' p'. ingest_args_ok (\<lambda>_. True) p' \<and> faultless c' \<and> P_SubscriptionID p' = ''s''
          \<and> P_IdempotencyKey p' = ''key'' \<and> uuid_in plain_pg (P_WebhookID p') \<noteq> None
          \<and> idem_by_key d' (''s'', ''key'') = Some k \<Longrightarrow> IngestPending (\<lambda>_. True) plain_pg c' d' p' =
          (Inr \<lparr>R_WebhookID = i_webhook_id k, R_DeliveryLogID = [], R_Duplicate = True\<rparr>, d')"
    by (auto simp: demo_params_def)
  have "i_webhook_id k = ''w''" using k by (auto simp: demo_db2_eq lookup_row_def idem_key_def)
  with dup [of "demo_params ''key'' ''other''" "ok_call 3 ''z''" demo_db2] k args lost show ?thesis
    by (simp add: demo_params_def plain_pg_def)
qed

section \<open>The retry chain\<close>

lemma db_inv_key: "db_inv pg t d \<Longrightarrow> keyed d_id (delivery_logs d)"
  by (simp add: db_inv_def core_inv_def)



section \<open>The failure counter\<close>

text \<open>A final failure is counted once: on a pending attempt of an existing subscription,
  \<open>FinalizeFailure\<close> dead-letters the attempt, adds one to the subscription's consecutive failures,
  deactivates the subscription exactly when the new count reaches the threshold, and reports whether
  the subscription is now inactive, which it also is when it had been inactive before.\<close>

theorem finalize_counts:
  assumes "db_inv pg t d" and "faultless c" and "uuid_in pg lid = Some i" and "uuid_in pg sid = Some j"
    and "log_by_id d i = Some x" and "is_pending x" and "sub_by_id d j = Some u"
  shows "\<exists>d'. FinalizeFailure pg c d lid sid st err th =
      (Inr (True, \<not> s_is_active u \<or> th \<le> s_consecutive_failures u + 1), d')
    \<and> log_by_id d' i = Some (x\<lparr>d_status := StatusFinalFailure, d_in_dlq := True, d_http_status := st,
         d_error_details := nullStr err, d_updated_at := c_now c\<rparr>)
    \<and> sub_by_id d' j = Some (u\<lparr>s_consecutive_failures := s_consecutive_failures u + 1,
         s_is_active := s_consecutive_failures u + 1 < th \<and> s_is_active u, s_updated_at := c_now c\<rparr>)
    \<and> (\<forall>k. k \<noteq> i \<longrightarrow> log_by_id d' k = log_by_id d k) \<and> (\<forall>k. k \<noteq> j \<longrightarrow> sub_by_id d' k = sub_by_id d k)"
proof -
  let ?l = "sql_update (\<lambda>r. d_id r = i \<and> is_pending r) (final_row c st err) (delivery_logs d)"
  let ?s = "sql_update (\<lambda>r. s_id r = j) (bump_failures c th) (subscriptions d)"
  let ?d' = "d\<lparr>delivery_logs := ?l, subscriptions := ?s\<rparr>"
  have x: "d_id x = i" and u: "s_id u = j" using assms(5,7) by (auto dest: lookup_row_SomeD)
  have n: "rows_affected (\<lambda>r. d_id r = i \<and> is_pending r) (delivery_logs d) = 1"
    using rows_affected_key_1 [OF db_inv_key [OF assms(1)], of i is_pending] assms(5,6) by blast
  have "FinalizeFailure pg c d lid sid st err th = (Inr (True, \<not> s_is_active (bump_failures c th u)), ?d')"
    using assms n by (simp add: FinalizeFailure_def inTx_faultless finalize_tx_def tx_run_faultless update_log_def
        update_sub_returning_def)
  moreover have "log_by_id ?d' k = map_option (\<lambda>r. if d_id r = i \<and> is_pending r then final_row c st err r else r) (log_by_id d k)"
    "sub_by_id ?d' k = map_option (\<lambda>r. if s_id r = j then bump_failures c th r else r) (sub_by_id d k)" for k
    by (simp_all add: lookup_row_update bump_failures_def)
  ultimately show ?thesis
    using assms(5-7) x u
    by (intro exI [of _ ?d']) (auto simp: final_row_def bump_failures_def map_option_case dest: lookup_row_SomeD split: option.splits)
qed

theorem finalize_counts_witness:
  "fst (FinalizeFailure plain_pg (ok_call 4 ''u'') demo_db3 ''b'' ''s'' (Some 500) ''e'' 2) = Inr (True, False)"
proof -
  obtain x where x: "log_by_id demo_db3 ''b'' = Some x" "is_pending x"
    by (simp add: demo_db3_eq lookup_row_def pending_row_def failed_row_def)
  obtain u where u: "sub_by_id demo_db3 ''s'' = Some u" "s_is_active u" "s_consecutive_failures u = 0"
    by (simp add: demo_db3_eq demo_db2_eq demo_db1_eq lookup_row_def)
  have "uuid_in plain_pg ''b'' = Some ''b''" "uuid_in plain_pg ''s'' = Some ''s''" by (simp_all add: plain_pg_def)
  from finalize_counts [OF demo_inv faultless_ok_call this x u(1), of 4 "''u''" "Some 500" "''e''" 2] u show ?thesis
    by auto
qed

section \<open>Dead letters\<close>

text \<open>At most one attempt of a webhook is dead-lettered, so the row a claim returns is the only one it
  changes.\<close>

lemma in_dlq_unique:
  assumes inv: "db_inv pg t d" and "x \<in> set (delivery_logs d)" "in_dlq_of s w x" "r \<in> set (delivery_logs d)"
  shows "in_dlq_of s w r \<longleftrightarrow> d_id r = d_id x"
proof
  assume "in_dlq_of s w r"
  then have "live r" "live x" "d_webhook_id r = d_webhook_id x" using assms(3) by (simp_all add: in_dlq_of_def live_def)
  then show "d_id r = d_id x"
    using live_last [of "delivery_logs d" x r] inv assms(2,4) by (auto simp: db_inv_def core_inv_def)
next
  assume "d_id r = d_id x"
  then show "in_dlq_of s w r" using keyed_unique [OF db_inv_key [OF inv] assms(4,2)] assms(3) by simp
qed

lemma claim_dlq_one:
  assumes inv: "db_inv pg t d" and "claim_dlq pg c sid wid d = (Inr (i, n), d')"
  shows "\<exists>s w x. uuid_in pg sid = Some s \<and> uuid_in pg wid = Some w \<and> log_by_id d i = Some x \<and> in_dlq_of s w x
     \<and> n = d_replay_number x
     \<and> d' = d\<lparr>delivery_logs := sql_update (\<lambda>r. d_id r = i) (acked_row c) (delivery_logs d)\<rparr>"
proof -
  from claim_dlq_Inr [OF assms(2)] obtain s w x where x: "uuid_in pg sid = Some s" "uuid_in pg wid = Some w"
    "x \<in> set (delivery_logs d)" "in_dlq_of s w x" "i = d_id x" "n = d_replay_number x"
    and d': "d' = d\<lparr>delivery_logs := sql_update (in_dlq_of s w) (acked_row c) (delivery_logs d)\<rparr>" by blast
  have "sql_update (in_dlq_of s w) (acked_row c) (delivery_logs d) = sql_update (\<lambda>r. d_id r = i) (acked_row c) (delivery_logs d)"
    unfolding sql_update_def x(5) by (rule map_cong [OF refl]) (simp only: in_dlq_unique [OF inv x(3,4)])
  moreover have "log_by_id d i = Some x" using lookup_row_eq [OF db_inv_key [OF inv]] x by blast
  ultimately show ?thesis using x d' by metis
qed

lemma no_dlq_claim:
  "(\<And>r. r \<in> set (delivery_logs d) \<Longrightarrow> \<not> in_dlq_of s w r) \<Longrightarrow> uuid_in pg sid = Some s \<Longrightarrow> uuid_in pg wid = Some w \<Longrightarrow>
     claim_dlq pg c sid wid d = (Inl ErrNoRows, d)"
  by (simp add: claim_dlq_def filter_empty_conv)

text \<open>C22. Replay claims a dead letter exactly once: when \<open>ReplayDLQ\<close> reports a claim, the claimed row was
  the dead letter of that subscription and webhook; it leaves the dead-letter set, and one new pending
  attempt with attempt number 1 and the next replay number, due now, is inserted with the same target,
  payload and event type. On the resulting database a further replay or acknowledgement of the webhook
  claims nothing.\<close>

theorem replay_claims_once:
  assumes "db_inv pg t d" and "ReplayDLQ pg c d sid wid = (Inr (old, new, True), d')"
  shows "\<exists>x y. log_by_id d old = Some x \<and> uuid_in pg sid = Some (d_subscription_id x)
    \<and> uuid_in pg wid = Some (d_webhook_id x) \<and> d_in_dlq x
    \<and> log_by_id d' old = Some (acked_row c x) \<and> log_by_id d new = None \<and> log_by_id d' new = Some y
    \<and> is_pending y \<and> \<not> d_in_dlq y \<and> d_attempt_number y = 1 \<and> d_replay_number y = d_replay_number x + 1
    \<and> d_next_retry_at y = Some (c_now c) \<and> d_webhook_id y = d_webhook_id x
    \<and> d_subscription_id y = d_subscription_id x \<and> d_target_url y = d_target_url x
    \<and> d_payload y = d_payload x \<and> d_event_type y = d_event_type x
    \<and> (\<forall>c'. faultless c' \<longrightarrow> ReplayDLQ pg c' d' sid wid = (Inr ([], [], False), d')
           \<and> AckDLQ pg c' d' sid wid = (Inr ([], False), d'))"
proof -
  let ?l = "sql_update (\<lambda>r. d_id r = old) (acked_row c) (delivery_logs d)"
  from inTx_Inr [OF assms(2) [unfolded ReplayDLQ_def]] obtain n d1 i y0 where
    cl: "claim_dlq pg c sid wid d = (Inr (old, n), d1)" and y0: "uuid_in pg old = Some i" "log_by_id d1 i = Some y0"
    and ins: "insert_log (replay_row c (n + 1) y0) d1 = (Inr new, d')"
    by (fastforce simp: replay_tx_def insert_from_Inr split: prod.splits sum.splits if_splits dest!: tx_run_Inr)
  from claim_dlq_one [OF assms(1) cl] obtain s w x where sw: "uuid_in pg sid = Some s" "uuid_in pg wid = Some w"
    and lx: "log_by_id d old = Some x" and dlq: "in_dlq_of s w x" and n: "n = d_replay_number x"
    and d1: "d1 = d\<lparr>delivery_logs := ?l\<rparr>" by blast
  from lx have x: "x \<in> set (delivery_logs d)" "d_id x = old" by (auto dest: lookup_row_SomeD)
  have "i = old" using assms(1) x y0(1) by (auto simp: db_inv_def core_inv_def)
  with y0(2) lx x have y0: "y0 = acked_row c x" by (simp add: d1 lookup_row_update)
  let ?y = "replay_row c (n + 1) (acked_row c x)"
  from ins have new: "new = d_id ?y" "lookup_row d_id new ?l = None" and d': "delivery_logs d' = sql_insert ?y ?l"
    by (auto simp: insert_log_Inr d1 y0)
  have "log_by_id d new = None" using new(2) by (simp add: lookup_row_update)
  moreover have "log_by_id d' old = Some (acked_row c x)" "log_by_id d' new = Some ?y"
    using lx x new by (simp_all add: d' lookup_row_insert lookup_row_update)
  moreover have none: "\<not> in_dlq_of s w r" if "r \<in> set (delivery_logs d')" for r
    using that in_dlq_unique [OF assms(1) x(1) dlq] x(2)
    by (auto simp: d' set_sql_insert set_sql_update in_dlq_of_def replay_row_def pending_row_def acked_row_def split: if_splits)
  moreover have "ReplayDLQ pg c' d' sid wid = (Inr ([], [], False), d') \<and> AckDLQ pg c' d' sid wid = (Inr ([], False), d')"
    if "faultless c'" for c'
    using that no_dlq_claim [OF none sw]
    by (simp add: ReplayDLQ_def inTx_faultless replay_tx_def tx_run_faultless AckDLQ_def pool_run_def faultless_def)
  ultimately show ?thesis
    using lx dlq sw n by (intro exI [of _ x] exI [of _ ?y]) (simp add: in_dlq_of_def replay_row_def pending_row_def acked_row_def)
qed

definition demo_db4 :: db where
  "demo_db4 = snd (FinalizeFailure plain_pg (ok_call 6 ''u'') demo_db3 ''b'' ''s'' (Some 500) ''e'' 5)"

lemma demo_inv4: "db_inv plain_pg 6 demo_db4"
  unfolding demo_db4_def
  using FinalizeFailure_inv [OF demo_inv, of "ok_call 6 ''u''" "''b''" "''s''" "Some 500" "''e''" 5] by simp

theorem replay_claims_once_witness:
  "ReplayDLQ plain_pg (ok_call 8 ''v'') (snd (ReplayDLQ plain_pg (ok_call 7 ''c'') demo_db4 ''s'' ''w'')) ''s'' ''w''
    = (Inr ([], [], False), snd (ReplayDLQ plain_pg (ok_call 7 ''c'') demo_db4 ''s'' ''w''))"
proof -
  have "ReplayDLQ plain_pg (ok_call 7 ''c'') demo_db4 ''s'' ''w'' =
      (Inr (''b'', ''c'', True), snd (ReplayDLQ plain_pg (ok_call 7 ''c'') demo_db4 ''s'' ''w''))" by code_simp
  from replay_claims_once [OF demo_inv4 this] show ?thesis by auto
qed

text \<open>A malformed identifier is told apart from an absent dead letter only by replay: with an id
  that is no uuid, \<open>AckDLQ\<close> reports that there is nothing to acknowledge, while the failed statement of
  \<open>ReplayDLQ\<close> has aborted its transaction, so that the commit fails and the call reports an internal
  error; neither changes the database.\<close>

theorem malformed_dlq_id:
  assumes "faultless c" and "uuid_in pg sid = None \<or> uuid_in pg wid = None"
  shows "AckDLQ pg c d sid wid = (Inr ([], False), d)
    \<and> ReplayDLQ pg c d sid wid = (Inl (ErrOther ''store: commit replay''), d)"
proof -
  have "claim_dlq pg c sid wid d = (Inl (PgError ''22P02''), d)"
    using assms(2) by (auto simp: claim_dlq_def split: option.splits)
  then show ?thesis using assms(1)
    by (simp add: AckDLQ_def pool_run_def ReplayDLQ_def inTx_faultless replay_tx_def tx_run_faultless faultless_def)
qed

theorem malformed_dlq_id_witness:
  "fst (AckDLQ plain_pg (ok_call 7 ''c'') demo_db4 [] ''w'') = Inr ([], False)
    \<and> fst (ReplayDLQ plain_pg (ok_call 7 ''c'') demo_db4 [] ''w'') = Inl (ErrOther ''store: commit replay'')"
  using malformed_dlq_id [of "ok_call 7 ''c''" plain_pg "[]" "''w''" demo_db4] by (simp add: plain_pg_def)

section \<open>Paging through subscriptions\<close>

text \<open>A client following \<^verbatim>\<open>NextCursor\<close> until it is absent.\<close>

fun all_pages :: "pgsql \<Rightarrow> call \<Rightarrow> db \<Rightarrow> int \<Rightarrow> nat \<Rightarrow> Cursor option \<Rightarrow> Subscription list option" where
  "all_pages pg c d limit 0 cur = None"
| "all_pages pg c d limit (Suc n) cur =
     (case ListSubs pg c d limit cur of
        Inl _ \<Rightarrow> None
      | Inr page \<Rightarrow>
         (case NextCursor page of
            None \<Rightarrow> Some (Items page)
          | Some nxt \<Rightarrow> map_option (append (Items page)) (all_pages pg c d limit n (Some nxt))))"

lemma filter_after:
  fixes f :: "'a \<Rightarrow> 'b :: linorder"
  assumes "sorted_wrt (\<lambda>a b. f b < f a) (as @ x # bs)"
  shows "filter (\<lambda>r. f r < f x) (as @ x # bs) = bs"
proof -
  have "filter (\<lambda>r. f r < f x) as = []" "filter (\<lambda>r. f r < f x) bs = bs"
    using assms by (auto simp: sorted_wrt_append filter_empty_conv filter_id_conv dest: less_asym)
  then show ?thesis by simp
qed

definition newest_first :: "sub_row list \<Rightarrow> sub_row list" where
  "newest_first t = rev (sort_key sub_pos t)"

lemma newest_first_sorted:
  assumes "keyed s_id t"
  shows "sorted_wrt (\<lambda>a b. sub_pos b < sub_pos a) (newest_first t)"
proof -
  have "distinct (map s_id (sort_key sub_pos t))" using assms by (simp add: keyed_def distinct_map)
  then have "distinct (map snd (map sub_pos (sort_key sub_pos t)))" by (simp add: comp_def)
  then have d: "distinct (map sub_pos (sort_key sub_pos t))" by (rule distinct_map [THEN iffD1, THEN conjunct1])
  have "sorted (map sub_pos (sort_key sub_pos t))" by (rule sorted_sort_key)
  with d have "sorted_wrt (<) (map sub_pos (sort_key sub_pos t))" by (simp only: strict_sorted_iff)
  then show ?thesis by (simp add: newest_first_def sorted_wrt_map sorted_wrt_rev)
qed

lemma newest_first_filter: "rev (sort_key sub_pos (filter P t)) = filter P (newest_first t)"
  by (simp add: newest_first_def filter_sort [symmetric] rev_filter)

lemma ListSubs_page:
  assumes ok: "faultless c" and lim: "1 \<le> limit"
    and P: "case cur of None \<Rightarrow> P = (\<lambda>r. True)
      | Some a \<Rightarrow> uuid_in pg (C_ID a) = Some (C_ID a) \<and> P = (\<lambda>r. sub_pos r < (C_CreatedAt a, C_ID a))"
    and rest: "filter P (newest_first (subscriptions d)) = rest"
  shows "ListSubs pg c d limit cur = Inr (if length rest > nat limit
     then \<lparr>Items = map scanSubscription (take (nat limit) rest),
           NextCursor = Some \<lparr>C_CreatedAt = s_created_at (rest ! (nat limit - 1)), C_ID = s_id (rest ! (nat limit - 1))\<rparr>\<rparr>
     else \<lparr>Items = map scanSubscription rest, NextCursor = None\<rparr>)"
proof -
  let ?n = "nat limit"
  have sel: "(case cur of None \<Rightarrow> Some (\<lambda>r. True)
      | Some a \<Rightarrow> (case uuid_in pg (C_ID a) of None \<Rightarrow> None | Some i \<Rightarrow> Some (\<lambda>r. sub_pos r < (C_CreatedAt a, i)))) = Some P"
    using P by (auto split: option.splits)
  have "length (take (?n + 1) rest) > ?n \<longleftrightarrow> length rest > ?n" by auto
  moreover have "take ?n (take (?n + 1) rest) = take ?n rest" by (simp add: min_def)
  moreover have "take (?n + 1) rest ! (?n - 1) = rest ! (?n - 1)" using lim by simp
  moreover have "?n - 1 < length (take (?n + 1) rest)" if "length rest > ?n" using that lim by auto
  ultimately show ?thesis
    using ok lim unfolding ListSubs_def sel
    by (auto simp: Let_def faultless_def newest_first_filter rest take_map scanSubscription_def)
qed

lemma pages_from:
  assumes ok: "faultless c" and lim: "1 \<le> limit" and key: "keyed s_id (subscriptions d)"
    and can: "\<forall>r \<in> set (subscriptions d). uuid_in pg (s_id r) = Some (s_id r)"
    and split: "newest_first (subscriptions d) = as @ x # bs" and fuel: "length bs < n"
  shows "all_pages pg c d limit n (Some \<lparr>C_CreatedAt = s_created_at x, C_ID = s_id x\<rparr>)
    = Some (map scanSubscription bs)"
  using split fuel
proof (induction n arbitrary: as x bs)
  case 0
  then show ?case by simp
next
  case (Suc n)
  let ?n = "nat limit"
  have "x \<in> set (newest_first (subscriptions d))" using Suc.prems by simp
  then have x: "uuid_in pg (s_id x) = Some (s_id x)" using can by (simp add: newest_first_def)
  have "filter (\<lambda>r. sub_pos r < sub_pos x) (newest_first (subscriptions d)) = bs"
    using filter_after [of sub_pos as x bs] newest_first_sorted [OF key] Suc.prems(1) by simp
  note page = ListSubs_page [OF ok lim _ this, where cur = "Some \<lparr>C_CreatedAt = s_created_at x, C_ID = s_id x\<rparr>" and pg = pg]
  show ?case
  proof (cases "length bs > ?n")
    case True
    let ?y = "bs ! (?n - 1)"
    have "take ?n bs = take (?n - 1) bs @ [?y]"
      using lim True take_Suc_conv_app_nth [of "?n - 1" bs] by simp
    then have bs: "bs = take (?n - 1) bs @ ?y # drop ?n bs" by (metis append.assoc append_Cons append_Nil append_take_drop_id)
    then have "newest_first (subscriptions d) = (as @ x # take (?n - 1) bs) @ ?y # drop ?n bs" using Suc.prems(1) by simp
    moreover have "length (drop ?n bs) < n" using Suc.prems(2) lim True by simp
    ultimately have "all_pages pg c d limit n (Some \<lparr>C_CreatedAt = s_created_at ?y, C_ID = s_id ?y\<rparr>)
        = Some (map scanSubscription (drop ?n bs))" by (rule Suc.IH)
    then show ?thesis using page x True by (simp flip: map_append)
  next
    case False
    then show ?thesis using page x by simp
  qed
qed

text \<open>C37. Paging is complete: whatever the page size, a client that follows the cursors of \<open>List\<close> on an
  unchanged table receives every subscription exactly once, newest first, and stops.\<close>

theorem list_pages_complete:
  assumes "faultless c" and "1 \<le> limit" and "keyed s_id (subscriptions d)"
    and "\<forall>r \<in> set (subscriptions d). uuid_in pg (s_id r) = Some (s_id r)"
  shows "all_pages pg c d limit (length (subscriptions d) + 1) None
    = Some (map scanSubscription (rev (sort_key sub_pos (subscriptions d))))"
proof -
  let ?L = "newest_first (subscriptions d)" and ?n = "nat limit"
  have page: "ListSubs pg c d limit None = Inr (if length ?L > ?n
     then \<lparr>Items = map scanSubscription (take ?n ?L),
           NextCursor = Some \<lparr>C_CreatedAt = s_created_at (?L ! (?n - 1)), C_ID = s_id (?L ! (?n - 1))\<rparr>\<rparr>
     else \<lparr>Items = map scanSubscription ?L, NextCursor = None\<rparr>)"
    by (rule ListSubs_page [OF assms(1,2), where P = "\<lambda>r. True"]) simp_all
  show ?thesis
  proof (cases "length ?L > ?n")
    case True
    have "take ?n ?L = take (?n - 1) ?L @ [?L ! (?n - 1)]"
      using assms(2) True take_Suc_conv_app_nth [of "?n - 1" ?L] by simp
    then have "?L = take (?n - 1) ?L @ ?L ! (?n - 1) # drop ?n ?L"
      by (metis append.assoc append_Cons append_Nil append_take_drop_id)
    moreover have "length (drop ?n ?L) < length (subscriptions d)"
      using assms(2) True by (simp add: newest_first_def)
    ultimately have "all_pages pg c d limit (length (subscriptions d))
        (Some \<lparr>C_CreatedAt = s_created_at (?L ! (?n - 1)), C_ID = s_id (?L ! (?n - 1))\<rparr>)
      = Some (map scanSubscription (drop ?n ?L))" by (rule pages_from [OF assms])
    then have "all_pages pg c d limit (length (subscriptions d) + 1) None = Some (map scanSubscription ?L)"
      using page True by (simp flip: map_append)
    then show ?thesis by (simp add: newest_first_def)
  next
    case False
    then have "all_pages pg c d limit (length (subscriptions d) + 1) None = Some (map scanSubscription ?L)"
      using page by simp
    then show ?thesis by (simp add: newest_first_def)
  qed
qed

theorem list_pages_complete_witness:
  "all_pages plain_pg (ok_call 5 ''u'')
     (snd (CreateSub (ok_call 4 ''z'') demo_db3 demo_sub)) 1 3 None \<noteq> None"
proof -
  let ?d = "snd (CreateSub (ok_call 4 ''z'') demo_db3 demo_sub)"
  have s: "map s_id (subscriptions ?d) = [''s'', ''z'']" by code_simp
  from arg_cong [OF s, of length] have "length (subscriptions ?d) = 2" by simp
  moreover have "keyed s_id (subscriptions ?d)" using s by (simp add: keyed_def)
  moreover have "\<forall>r \<in> set (subscriptions ?d). s_id r \<in> set (map s_id (subscriptions ?d))" by simp
  then have "\<forall>r \<in> set (subscriptions ?d). uuid_in plain_pg (s_id r) = Some (s_id r)" unfolding s by (auto simp: plain_pg_def)
  ultimately show ?thesis
    using list_pages_complete [of "ok_call 5 ''u''" 1 ?d plain_pg] by (simp add: eval_nat_numeral)
qed

end
