(* ===== verification/Redis.thy ===== *)
theory Redis
  imports Domain "HOL-Library.Multiset"
begin

text \<open>
  The Redis side: \<^verbatim>\<open>internal/infra/queue\<close> (the work LIST and the dead-letter LIST) and
  \<^verbatim>\<open>internal/infra/scheduler\<close> (the retry sorted set and its Lua script). The head of a list is its left
  end, where \<^verbatim>\<open>LPUSH\<close> adds; \<^verbatim>\<open>BRPOP\<close> takes the last element.

  A command either runs, or fails before it runs, or runs and its reply is lost (\<open>reply\<close>); in the
  last two cases the client sees an error. A script is atomic.

  Scores are fractional unix seconds built from a millisecond count. Division by 1000 is monotone and
  exact to the millisecond below \<open>2 ^ 53\<close>, and the script's argument is the same number printed with
  three decimals, so scores are compared as millisecond counts.
\<close>

datatype reply = Done | NotRun | ReplyLost

record redis =
  work_queue :: "string list"
  dlq_list :: "string list"
  schedule :: "(string \<times> int) list"

definition empty_redis :: redis where
  "empty_redis = \<lparr>work_queue = [], dlq_list = [], schedule = []\<rparr>"

definition redis_do :: "reply \<Rightarrow> string \<Rightarrow> (redis \<Rightarrow> 'a \<times> redis) \<Rightarrow> redis \<Rightarrow> 'a result \<times> redis" where
  "redis_do rp label cmd r =
     (case rp of
        Done \<Rightarrow> (case cmd r of (x, r') \<Rightarrow> (Inr x, r'))
      | NotRun \<Rightarrow> (Inl (ErrOther label), r)
      | ReplyLost \<Rightarrow> (Inl (ErrOther label), snd (cmd r)))"

section \<open>Work queue\<close>

definition KeyQueue :: string where "KeyQueue = ''webhook:queue''"

definition Enqueue :: "reply \<Rightarrow> string \<Rightarrow> redis \<Rightarrow> unit result \<times> redis" where
  "Enqueue rp lid r =
     redis_do rp ''queue: enqueue'' (\<lambda>r. ((), r\<lparr>work_queue := lid # work_queue r\<rparr>)) r"

text \<open>\<^verbatim>\<open>BRPOP\<close> returns the key and the value, or nil after the timeout.\<close>

definition brpop :: "redis \<Rightarrow> string list option \<times> redis" where
  "brpop r = (if work_queue r = [] then (None, r)
              else (Some [KeyQueue, last (work_queue r)], r\<lparr>work_queue := butlast (work_queue r)\<rparr>))"

definition Dequeue :: "reply \<Rightarrow> redis \<Rightarrow> string result \<times> redis" where
  "Dequeue rp r =
     (case redis_do rp ''queue: dequeue'' brpop r of
        (Inl e, r') \<Rightarrow> (Inl e, r')
      | (Inr None, r') \<Rightarrow> (Inl ErrQueueEmpty, r')
      | (Inr (Some res), r') \<Rightarrow> (if length res \<noteq> 2 then (Inl ErrQueueEmpty, r') else (Inr (res ! 1), r')))"

definition DepthQueue :: "reply \<Rightarrow> redis \<Rightarrow> nat result" where
  "DepthQueue rp r = fst (redis_do rp ''queue: depth'' (\<lambda>r. (length (work_queue r), r)) r)"

section \<open>Dead-letter list\<close>

definition PushDLQ :: "reply \<Rightarrow> string \<Rightarrow> redis \<Rightarrow> unit result \<times> redis" where
  "PushDLQ rp lid r = redis_do rp ''dlq: push'' (\<lambda>r. ((), r\<lparr>dlq_list := lid # dlq_list r\<rparr>)) r"

definition RemoveDLQ :: "reply \<Rightarrow> string \<Rightarrow> redis \<Rightarrow> unit result \<times> redis" where
  "RemoveDLQ rp lid r = redis_do rp ''dlq: remove'' (\<lambda>r. ((), r\<lparr>dlq_list := removeAll lid (dlq_list r)\<rparr>)) r"

definition ListDLQ :: "reply \<Rightarrow> redis \<Rightarrow> string list result" where
  "ListDLQ rp r = fst (redis_do rp ''dlq: list'' (\<lambda>r. (dlq_list r, r)) r)"

definition DepthDLQ :: "reply \<Rightarrow> redis \<Rightarrow> nat result" where
  "DepthDLQ rp r = fst (redis_do rp ''dlq: depth'' (\<lambda>r. (length (dlq_list r), r)) r)"

section \<open>Retry schedule\<close>

definition unixScore :: "time \<Rightarrow> int" where
  "unixScore t = t div millisecond"

definition zadd :: "string \<Rightarrow> int \<Rightarrow> (string \<times> int) list \<Rightarrow> (string \<times> int) list" where
  "zadd m sc z = (m, sc) # filter (\<lambda>e. fst e \<noteq> m) z"

definition Schedule :: "reply \<Rightarrow> string \<Rightarrow> time \<Rightarrow> redis \<Rightarrow> unit result \<times> redis" where
  "Schedule rp lid at r =
     redis_do rp ''scheduler: zadd'' (\<lambda>r. ((), r\<lparr>schedule := zadd lid (unixScore at) (schedule r)\<rparr>)) r"

text \<open>\<^verbatim>\<open>ZRANGEBYSCORE key 0 now LIMIT 0 100\<close>: by score, then member.\<close>

definition due_entries :: "int \<Rightarrow> (string \<times> int) list \<Rightarrow> (string \<times> int) list" where
  "due_entries now z = sort_key (\<lambda>(m, sc). (sc, m)) (filter (\<lambda>(m, sc). 0 \<le> sc \<and> sc \<le> now) z)"

fun move_tasks :: "string list \<Rightarrow> redis \<Rightarrow> redis" where
  "move_tasks [] r = r"
| "move_tasks (t # ts) r =
     move_tasks ts (r\<lparr>schedule := filter (\<lambda>e. fst e \<noteq> t) (schedule r), work_queue := t # work_queue r\<rparr>)"

definition claimDueScript :: "int \<Rightarrow> redis \<Rightarrow> nat \<times> redis" where
  "claimDueScript now r =
     (let tasks = map fst (take 100 (due_entries now (schedule r))) in (length tasks, move_tasks tasks r))"

definition ClaimDue :: "reply \<Rightarrow> time \<Rightarrow> redis \<Rightarrow> nat result \<times> redis" where
  "ClaimDue rp now r = redis_do rp ''scheduler: claim due'' (claimDueScript (unixScore now)) r"

section \<open>The queue as a FIFO\<close>

text \<open>The contract the pool and the producers rely on: what is enqueued comes out in order, and each
  task comes out once.\<close>

locale fifo =
  fixes enq :: "'a \<Rightarrow> 's \<Rightarrow> 's" and deq :: "'s \<Rightarrow> ('a \<times> 's) option" and contents :: "'s \<Rightarrow> 'a list"
  assumes enq_contents: "contents (enq x s) = contents s @ [x]"
    and deq_empty: "deq s = None \<longleftrightarrow> contents s = []"
    and deq_contents: "deq s = Some (x, s') \<Longrightarrow> contents s = x # contents s'"
begin

fun enq_all :: "'a list \<Rightarrow> 's \<Rightarrow> 's" where
  "enq_all [] s = s"
| "enq_all (x # xs) s = enq_all xs (enq x s)"

fun drain :: "nat \<Rightarrow> 's \<Rightarrow> 'a list" where
  "drain 0 s = []"
| "drain (Suc n) s = (case deq s of None \<Rightarrow> [] | Some (x, s') \<Rightarrow> x # drain n s')"

lemma enq_all_contents: "contents (enq_all xs s) = contents s @ xs"
  by (induction xs arbitrary: s) (simp_all add: enq_contents)

lemma drain_contents: "drain n s = take n (contents s)"
proof (induction n arbitrary: s)
  case (Suc n)
  show ?case
  proof (cases "deq s")
    case None
    then have "contents s = []" using deq_empty by blast
    with None show ?thesis by simp
  next
    case (Some p)
    then obtain x s' where "deq s = Some (x, s')" by (cases p) auto
    then show ?thesis using Suc.IH [of s'] deq_contents by simp
  qed
qed simp

lemma served_in_order: "drain (length (contents s) + length xs) (enq_all xs s) = contents s @ xs"
  by (simp add: drain_contents enq_all_contents)

end

definition enq_now :: "string \<Rightarrow> redis \<Rightarrow> redis" where
  "enq_now lid r = snd (Enqueue Done lid r)"

definition deq_now :: "redis \<Rightarrow> (string \<times> redis) option" where
  "deq_now r = (case Dequeue Done r of (Inr x, r') \<Rightarrow> Some (x, r') | (Inl _, _) \<Rightarrow> None)"

definition waiting :: "redis \<Rightarrow> string list" where
  "waiting r = rev (work_queue r)"

interpretation work: fifo enq_now deq_now waiting
proof unfold_locales
  show "waiting (enq_now x s) = waiting s @ [x]" for x s
    by (simp add: waiting_def enq_now_def Enqueue_def redis_do_def)
  show "deq_now s = None \<longleftrightarrow> waiting s = []" for s
    by (simp add: deq_now_def Dequeue_def redis_do_def brpop_def waiting_def)
  show "waiting s = x # waiting s'" if "deq_now s = Some (x, s')" for s x s'
  proof (cases "work_queue s" rule: rev_cases)
    case Nil
    then show ?thesis using that by (simp add: deq_now_def Dequeue_def redis_do_def brpop_def)
  next
    case (snoc ys y)
    then show ?thesis using that by (auto simp: deq_now_def Dequeue_def redis_do_def brpop_def waiting_def)
  qed
qed

primrec deq_many :: "nat \<Rightarrow> redis \<Rightarrow> string list" where
  "deq_many 0 r = []"
| "deq_many (Suc n) r = (case deq_now r of None \<Rightarrow> [] | Some (x, r') \<Rightarrow> x # deq_many n r')"

lemma deq_many_drain: "deq_many n r = work.drain n r"
  by (induction n arbitrary: r) (auto split: option.splits)

lemma fold_enq: "fold enq_now xs r = work.enq_all xs r"
  by (induction xs arbitrary: r) simp_all

text \<open>The work queue is first in, first out: tasks enqueued after those already waiting are handed
  out after them, each once and in the order they were enqueued.\<close>

theorem queue_fifo: "deq_many n (fold enq_now xs r) = take n (rev (work_queue r) @ xs)"
  using work.enq_all_contents [of xs r]
  by (simp add: deq_many_drain fold_enq work.drain_contents) (simp add: waiting_def)

section \<open>Moving due retries\<close>

lemma move_tasks_eq:
  "move_tasks ts r = r\<lparr>schedule := filter (\<lambda>e. fst e \<notin> set ts) (schedule r), work_queue := rev ts @ work_queue r\<rparr>"
proof (induction ts arbitrary: r)
  case (Cons t ts)
  have "(\<lambda>e. fst e \<noteq> t \<and> fst e \<notin> set ts) = (\<lambda>e. fst e \<notin> set (t # ts))" by auto
  with Cons show ?case by (simp add: conj_commute)
qed simp

lemma due_entries_set: "e \<in> set (due_entries now z) \<longleftrightarrow> e \<in> set z \<and> 0 \<le> snd e \<and> snd e \<le> now"
  by (auto simp: due_entries_def)

lemma zadd_keyed: "keyed fst z \<Longrightarrow> keyed fst (zadd m sc z)"
  by (auto simp: keyed_def zadd_def distinct_map_filter)

lemma mset_filter_split:
  "mset (filter P xs) + mset (filter (\<lambda>x. \<not> P x) xs) = mset xs"
  by (induction xs) auto

lemma moved_members:
  assumes key: "keyed fst z" and ts_def: "ts = map fst (take 100 (due_entries now z))"
  shows "mset (map fst (filter (\<lambda>e. fst e \<notin> set ts) z)) + mset ts = mset (map fst z)"
proof -
  have sub: "set ts \<subseteq> fst ` set z"
    unfolding ts_def set_map using set_take_subset [of 100 "due_entries now z"]
    by (intro image_mono) (auto simp: due_entries_set)
  have dz: "distinct (map fst (filter (\<lambda>(m, sc). 0 \<le> sc \<and> sc \<le> now) z))"
    using key by (simp add: keyed_def distinct_map_filter)
  have "mset (map fst (due_entries now z)) = mset (map fst (filter (\<lambda>(m, sc). 0 \<le> sc \<and> sc \<le> now) z))"
    by (simp add: due_entries_def)
  from mset_eq_imp_distinct_iff [OF this] dz have "distinct (map fst (due_entries now z))" by (rule iffD2)
  then have d: "distinct ts" by (simp add: ts_def flip: take_map)
  have "distinct (map fst z)" using key by (simp add: keyed_def)
  then have "mset ts = mset (filter (\<lambda>m. m \<in> set ts) (map fst z))"
    using d sub by (intro set_eq_iff_mset_eq_distinct [THEN iffD1]) auto
  moreover have "map fst (filter (\<lambda>e. fst e \<notin> set ts) z) = filter (\<lambda>m. m \<notin> set ts) (map fst z)"
    by (simp add: filter_map comp_def)
  ultimately show ?thesis using mset_filter_split [of "\<lambda>m. m \<in> set ts" "map fst z"] by simp
qed

text \<open>The script moves retries without losing or duplicating any: run on a schedule with one entry
  per task, it moves only entries whose due time has come, the earliest first and at most 100 of them;
  the tasks in the schedule and the queue together stay the same; every due entry it leaves behind is
  no earlier than one it moved, and it leaves one behind only when it moved 100.\<close>

theorem claim_due_moves:
  assumes "keyed fst (schedule r)" and "claimDueScript now r = (n, r')"
  shows "n \<le> 100
    \<and> mset (map fst (schedule r')) + mset (work_queue r') = mset (map fst (schedule r)) + mset (work_queue r)
    \<and> (\<exists>ts. work_queue r' = rev ts @ work_queue r \<and> length ts = n
         \<and> (\<forall>m \<in> set ts. \<exists>sc. (m, sc) \<in> set (schedule r) \<and> 0 \<le> sc \<and> sc \<le> now)
         \<and> (\<forall>m sc m' sc'. (m, sc) \<in> set (schedule r') \<and> 0 \<le> sc \<and> sc \<le> now \<longrightarrow>
              n = 100 \<and> (m' \<in> set ts \<and> (m', sc') \<in> set (schedule r) \<longrightarrow> sc' \<le> sc)))
    \<and> dlq_list r' = dlq_list r"
proof -
  let ?E = "due_entries now (schedule r)" and ?f = "\<lambda>(m, sc). (sc, m) :: int \<times> string"
  let ?ts = "map fst (take 100 ?E)"
  have r': "r' = move_tasks ?ts r" and n: "n = length ?ts" using assms(2) by (auto simp: claimDueScript_def Let_def)
  have rest: "n = 100 \<and> (m' \<in> set ?ts \<and> (m', sc') \<in> set (schedule r) \<longrightarrow> sc' \<le> sc)"
    if h: "(m, sc) \<in> set (schedule r')" "0 \<le> sc" "sc \<le> now" for m sc m' sc'
  proof
    have in_z: "(m, sc) \<in> set (schedule r)" and out: "m \<notin> set ?ts" using h(1) by (auto simp: r' move_tasks_eq)
    then have inE: "(m, sc) \<in> set ?E" using h by (simp add: due_entries_set)
    have "(m, sc) \<notin> set (take 100 ?E)" using out by force
    then have d: "(m, sc) \<in> set (drop 100 ?E)"
      using inE append_take_drop_id [of 100 ?E] by (metis UnE set_append)
    then have "100 < length ?E" by (metis drop_all empty_iff linorder_not_less list.set(1))
    then show "n = 100" by (simp add: n)
    show "m' \<in> set ?ts \<and> (m', sc') \<in> set (schedule r) \<longrightarrow> sc' \<le> sc"
    proof
      assume a: "m' \<in> set ?ts \<and> (m', sc') \<in> set (schedule r)"
      then obtain sc2 where sc2: "(m', sc2) \<in> set (take 100 ?E)" by auto
      then have "(m', sc2) \<in> set (schedule r)" by (auto simp: due_entries_set dest!: in_set_takeD)
      with a have "sc2 = sc'" using assms(1) keyed_unique [OF assms(1), of "(m', sc2)" "(m', sc')"] by simp
      moreover have "sorted (map ?f ?E)" by (simp add: due_entries_def)
      then have "sorted (map ?f (take 100 ?E) @ map ?f (drop 100 ?E))" by (simp flip: map_append)
      then have "\<forall>x \<in> set (take 100 ?E). \<forall>y \<in> set (drop 100 ?E). ?f x \<le> ?f y" by (simp add: sorted_append)
      then have "?f (m', sc2) \<le> ?f (m, sc)" using sc2 d by blast
      ultimately show "sc' \<le> sc" by auto
    qed
  qed
  have "\<exists>sc. (m, sc) \<in> set (schedule r) \<and> 0 \<le> sc \<and> sc \<le> now" if "m \<in> set ?ts" for m
    using that by (auto simp: due_entries_set dest!: in_set_takeD)
  moreover have "mset (map fst (schedule r')) + mset (work_queue r') = mset (map fst (schedule r)) + mset (work_queue r)"
    using moved_members [OF assms(1) refl, of now] by (simp add: r' move_tasks_eq ac_simps)
  moreover have "work_queue r' = rev ?ts @ work_queue r" "dlq_list r' = dlq_list r" by (simp_all add: r' move_tasks_eq)
  moreover have "n \<le> 100" "length ?ts = n" by (simp_all add: n)
  moreover from rest have "\<forall>m sc m' sc'. (m, sc) \<in> set (schedule r') \<and> 0 \<le> sc \<and> sc \<le> now \<longrightarrow>
      n = 100 \<and> (m' \<in> set ?ts \<and> (m', sc') \<in> set (schedule r) \<longrightarrow> sc' \<le> sc)" by fast
  ultimately show ?thesis by metis
qed

theorem claim_due_moves_witness:
  "claimDueScript 20 \<lparr>work_queue = [''q''], dlq_list = [], schedule = [(''a'', 30), (''b'', 10)]\<rparr>
     = (1, \<lparr>work_queue = [''b'', ''q''], dlq_list = [], schedule = [(''a'', 30)]\<rparr>)
   \<and> mset (map fst [(''a'', 30 :: int)]) + mset [''b'', ''q''] = mset (map fst [(''a'', 30 :: int), (''b'', 10)]) + mset [''q'']"
proof -
  let ?r = "\<lparr>work_queue = [''q''], dlq_list = [], schedule = [(''a'', 30), (''b'', 10)]\<rparr>"
  have run: "claimDueScript 20 ?r = (1, \<lparr>work_queue = [''b'', ''q''], dlq_list = [], schedule = [(''a'', 30)]\<rparr>)"
    by code_simp
  have "keyed fst (schedule ?r)" by (simp add: keyed_def)
  from claim_due_moves [OF this run] run show ?thesis by simp
qed

end
