(* ===== verification/Registry.thy ===== *)
theory Registry
  imports Prelude "HOL-Library.AList"
begin

text \<open>
  \<^verbatim>\<open>internal/infra/registry\<close>: lazily created per-key resources with idle eviction. The Go map is an
  association list with distinct keys (its iteration order is not observable through the API). The
  values of the program's registries are pointers; \<open>create\<close> therefore runs on an object store
  \<open>'h\<close> and returns the new reference with the extended store.
\<close>

record 'a slot =
  val :: 'a
  lastUsed :: time

record 'a Registry =
  items :: "(string \<times> 'a slot) list"
  idleTTL :: duration

definition NewRegistry :: "duration \<Rightarrow> 'a Registry" where
  "NewRegistry ttl = \<lparr>items = [], idleTTL = ttl\<rparr>"

definition RegGet ::
  "(string \<Rightarrow> 'h \<Rightarrow> 'a \<times> 'h) \<Rightarrow> time \<Rightarrow> string \<Rightarrow> 'a Registry \<Rightarrow> 'h \<Rightarrow> 'a \<times> 'a Registry \<times> 'h" where
  "RegGet create now key r h =
     (let (v, h') = (case map_of (items r) key of Some s \<Rightarrow> (val s, h) | None \<Rightarrow> create key h) in
      (v, r\<lparr>items := AList.update key \<lparr>val = v, lastUsed = now\<rparr> (items r)\<rparr>, h'))"

definition RegRemove :: "string \<Rightarrow> 'a Registry \<Rightarrow> 'a Registry" where
  "RegRemove key r = r\<lparr>items := AList.delete key (items r)\<rparr>"

definition idle :: "time \<Rightarrow> 'a Registry \<Rightarrow> string \<times> 'a slot \<Rightarrow> bool" where
  "idle now r e \<longleftrightarrow> lastUsed (snd e) < now - idleTTL r"

definition RegSweep :: "time \<Rightarrow> 'a Registry \<Rightarrow> nat \<times> 'a Registry" where
  "RegSweep now r =
     (length (filter (idle now r) (items r)), r\<lparr>items := filter (\<lambda>e. \<not> idle now r e) (items r)\<rparr>)"

definition RegSnapshot :: "'a Registry \<Rightarrow> (string \<times> 'a) list" where
  "RegSnapshot r = map (\<lambda>(k, s). (k, val s)) (items r)"

definition reg_ok :: "'a Registry \<Rightarrow> bool" where
  "reg_ok r \<longleftrightarrow> distinct (map fst (items r))"

lemma reg_ok_ops:
  "reg_ok (NewRegistry ttl)"
  "reg_ok r \<Longrightarrow> reg_ok (fst (snd (RegGet create now key r h)))"
  "reg_ok r \<Longrightarrow> reg_ok (RegRemove key r)"
  "reg_ok r \<Longrightarrow> reg_ok (snd (RegSweep now r))"
  by (auto simp: reg_ok_def NewRegistry_def RegGet_def RegRemove_def RegSweep_def distinct_update distinct_delete
      distinct_map_filter Let_def split: prod.splits)

lemma RegGet_found:
  "map_of (items r) key = Some s \<Longrightarrow>
     RegGet create now key r h = (val s, r\<lparr>items := AList.update key \<lparr>val = val s, lastUsed = now\<rparr> (items r)\<rparr>, h)"
  by (simp add: RegGet_def)

lemma RegGet_entry: "map_of (items (fst (snd (RegGet create now key r h)))) key
    = Some \<lparr>val = fst (RegGet create now key r h), lastUsed = now\<rparr>"
  by (auto simp: RegGet_def Let_def update_conv' split: prod.splits)

lemma RegGet_other:
  "k \<noteq> key \<Longrightarrow> map_of (items (fst (snd (RegGet create now key r h)))) k = map_of (items r) k"
  by (auto simp: RegGet_def Let_def update_conv' split: prod.splits)

lemma RegRemove_lookup: "map_of (items (RegRemove key r)) k = (if k = key then None else map_of (items r) k)"
  by (simp add: RegRemove_def delete_conv')

lemma map_of_filter_distinct:
  assumes "distinct (map fst xs)"
  shows "map_of (filter P xs) k = (case map_of xs k of None \<Rightarrow> None | Some v \<Rightarrow> if P (k, v) then Some v else None)"
  using assms
proof (induction xs)
  case (Cons x xs)
  have "map_of xs (fst x) = None" using Cons.prems by (simp add: map_of_eq_None_iff)
  with Cons show ?case by (cases x) auto
qed simp

lemma RegSweep_lookup:
  "reg_ok r \<Longrightarrow> map_of (items (snd (RegSweep now r))) k =
    (case map_of (items r) k of None \<Rightarrow> None
     | Some s \<Rightarrow> if lastUsed s < now - idleTTL r then None else Some s)"
  by (simp add: RegSweep_def idle_def reg_ok_def map_of_filter_distinct split: option.splits)

text \<open>An entry is shared: as long as a key is used at least once per idle period, every \<open>Get\<close> of it
  returns the reference the first one created, whatever happens to other keys and whenever the sweep
  runs.\<close>

inductive reg_step :: "(string \<Rightarrow> 'h \<Rightarrow> 'a \<times> 'h) \<Rightarrow> string \<Rightarrow> time \<times> 'a Registry \<times> 'h \<Rightarrow> time \<times> 'a Registry \<times> 'h \<Rightarrow> bool"
  for create key where
  get: "t \<le> now \<Longrightarrow> RegGet create now k r h = (v, r', h') \<Longrightarrow> reg_step create key (t, r, h) (now, r', h')"
| remove: "k \<noteq> key \<Longrightarrow> reg_step create key (t, r, h) (t, RegRemove k r, h)"
| sweep: "t \<le> now \<Longrightarrow> (\<And>s. map_of (items r) key = Some s \<Longrightarrow> now - idleTTL r \<le> lastUsed s) \<Longrightarrow>
    reg_step create key (t, r, h) (now, snd (RegSweep now r), h)"

definition holds_ref :: "string \<Rightarrow> 'a \<Rightarrow> time \<times> 'a Registry \<times> 'h \<Rightarrow> bool" where
  "holds_ref key v s \<longleftrightarrow> reg_ok (fst (snd s)) \<and> map_option val (map_of (items (fst (snd s))) key) = Some v"

lemma holds_ref_step:
  assumes "holds_ref key v s" and "reg_step create key s s'"
  shows "holds_ref key v s'"
  using assms(2,1)
proof cases
  case (get t now k r h v' r' h')
  then have r': "r' = fst (snd (RegGet create now k r h))" and v': "v' = fst (RegGet create now k r h)" by simp_all
  show ?thesis
  proof (cases "k = key")
    case True
    from assms(1) get(1) obtain e where "map_of (items r) key = Some e" "val e = v" by (auto simp: holds_ref_def)
    then have "fst (RegGet create now key r h) = v" by (simp add: RegGet_found)
    then show ?thesis using assms(1) get(1) RegGet_entry [of create now key r h]
      by (simp add: holds_ref_def get(2) r' True reg_ok_ops)
  qed (use assms(1) get(1) in \<open>simp add: holds_ref_def get(2) r' reg_ok_ops RegGet_other\<close>)
next
  case (remove k t r h)
  then show ?thesis using assms(1) by (simp add: holds_ref_def reg_ok_ops RegRemove_lookup)
next
  case (sweep t now r h)
  then show ?thesis using assms(1) by (auto simp: holds_ref_def reg_ok_ops RegSweep_lookup split: option.splits)
qed

interpretation shared: step_invariant "reg_step create key" "holds_ref key v" for create key v
  by unfold_locales (rule holds_ref_step)

text \<open>A used key keeps its resource: after any run of gets of any keys, removals of other keys and
  sweeps, provided the key was used within the idle period before each sweep, a further get of the key
  returns the resource it had, without creating another.\<close>

theorem registry_shares_resource:
  assumes "(reg_step create key)\<^sup>*\<^sup>* (t, r, h) (t', r', h')" and "reg_ok r"
    and "map_of (items r) key = Some s"
  shows "fst (RegGet create now key r' h') = val s \<and> snd (snd (RegGet create now key r' h')) = h'"
proof -
  have "holds_ref key (val s) (t', r', h')"
    using assms by (intro shared.run_pres [OF assms(1)]) (simp add: holds_ref_def)
  then show ?thesis by (auto simp: holds_ref_def RegGet_found)
qed

definition demo_reg :: "nat Registry" where
  "demo_reg = fst (snd (RegGet (\<lambda>_ h. (h, h + 1)) 0 ''k'' (NewRegistry 10) (0::nat)))"

theorem registry_shares_resource_witness:
  "fst (RegGet (\<lambda>_ h. (h, h + 1)) 9 ''k'' (snd (RegSweep 5 demo_reg)) (1::nat)) = 0"
proof -
  let ?c = "\<lambda>_ h. (h, h + 1) :: nat \<times> nat"
  have i: "items demo_reg = [(''k'', \<lparr>val = 0, lastUsed = 0\<rparr>)]" "idleTTL demo_reg = 10" by code_simp+
  have "reg_step ?c ''k'' (0, demo_reg, 1) (5, snd (RegSweep 5 demo_reg), 1)"
    by (rule sweep) (simp_all add: i)
  then have "(reg_step ?c ''k'')\<^sup>*\<^sup>* (0, demo_reg, 1) (5, snd (RegSweep 5 demo_reg), 1)" ..
  from registry_shares_resource [OF this, of "\<lparr>val = 0, lastUsed = 0\<rparr>" 9] show ?thesis
    by (simp add: i reg_ok_def)
qed

end
