(* ===== verification/Rate_Limits.thy ===== *)
theory Rate_Limits
  imports Float64
begin

text \<open>
  \<^verbatim>\<open>internal/infra/ratelimit\<close> and \<^verbatim>\<open>internal/infra/semaphore\<close>: the per-subscription admission
  limiter and concurrency permits. Token counts are int64 in thousandths of a token; the refill is
  computed in float64. The conversion back to int64 is taken on its defined range.
\<close>

section \<open>Token bucket\<close>

definition scale :: int where "scale = 1000"

record TokenBucket =
  tokens :: int
  maxTokens :: int
  refillRate :: int
  lastRefill :: time

definition NewTokenBucket :: "time \<Rightarrow> int \<Rightarrow> int \<Rightarrow> TokenBucket" where
  "NewTokenBucket now ratePerSec burst =
     \<lparr>tokens = wrap64 (burst * scale), maxTokens = wrap64 (burst * scale),
      refillRate = wrap64 (ratePerSec * scale), lastRefill = now\<rparr>"

definition refill :: "time \<Rightarrow> TokenBucket \<Rightarrow> TokenBucket" where
  "refill now tb =
     (let elapsed = Seconds (now - lastRefill tb) in
      if elapsed \<le> 0 then tb
      else tb\<lparr>tokens := min (maxTokens tb)
                  (wrap64 (tokens tb + trunc (fl (elapsed * fl (of_int (refillRate tb)))))),
              lastRefill := now\<rparr>)"

definition AllowTB :: "time \<Rightarrow> TokenBucket \<Rightarrow> bool \<times> TokenBucket" where
  "AllowTB now tb0 =
     (let tb = refill now tb0 in
      if tokens tb \<ge> scale then (True, tb\<lparr>tokens := tokens tb - scale\<rparr>) else (False, tb))"

text \<open>What the limiter's configuration provides: a capacity and a rate far from the ends of int64,
  and instants after the epoch and before the year 2116.\<close>

definition bucket_ok :: "TokenBucket \<Rightarrow> bool" where
  "bucket_ok tb \<longleftrightarrow> 0 \<le> tokens tb \<and> tokens tb \<le> maxTokens tb \<and> maxTokens tb \<le> 2 ^ 61
     \<and> 0 \<le> refillRate tb \<and> refillRate tb \<le> 2 ^ 29 \<and> 0 \<le> lastRefill tb"

definition instant_ok :: "time \<Rightarrow> bool" where
  "instant_ok t \<longleftrightarrow> 0 \<le> t \<and> t \<le> 2 ^ 62"

abbreviation slack :: rat where "slack \<equiv> (1 + 1 / 2 ^ 53) ^ 5"

lemma refill_amount:
  assumes "0 \<le> d" and "0 \<le> rate"
  shows "0 \<le> trunc (fl (Seconds d * fl (of_int rate)))"
    and "of_int (trunc (fl (Seconds d * fl (of_int rate)))) \<le> of_int d / 10 ^ 9 * of_int rate * slack"
proof -
  let ?k = "1 + 1 / 2 ^ 53 :: rat" and ?r = "of_int rate :: rat"
  have r0: "0 \<le> ?r" using assms(2) by simp
  note r = fl_nonneg [OF r0] fl_upper [OF r0]
  have nn: "0 \<le> Seconds d * fl ?r" using r Seconds_nonneg [OF assms(1)] by simp
  show "0 \<le> trunc (fl (Seconds d * fl ?r))" using nn by (simp add: trunc_nonneg fl_nonneg)
  have "Seconds d * fl ?r \<le> (of_int d / 10 ^ 9 * ?k ^ 3) * (?r * ?k)"
    using Seconds_upper [OF assms(1)] Seconds_nonneg [OF assms(1)] r assms by (intro mult_mono) auto
  also have "\<dots> = of_int d / 10 ^ 9 * ?r * ?k ^ 4" by (simp add: eval_nat_numeral)
  finally have "fl (Seconds d * fl ?r) \<le> of_int d / 10 ^ 9 * ?r * (?k ^ 4 * ?k)" using nn by (intro fl_scale)
  moreover have "of_int (trunc (fl (Seconds d * fl ?r))) \<le> fl (Seconds d * fl ?r)"
    using nn by (intro trunc_le fl_nonneg)
  moreover have "?k ^ 4 * ?k = ?k ^ 5" by (simp only: power_Suc2 [symmetric]) simp
  ultimately show "of_int (trunc (fl (Seconds d * fl ?r))) \<le> of_int d / 10 ^ 9 * ?r * slack" by simp
qed

lemma refill_small:
  assumes "0 \<le> d" "d \<le> 2 ^ 62" "0 \<le> rate" "rate \<le> 2 ^ 29"
  shows "trunc (fl (Seconds d * fl (of_int rate))) \<le> 2 ^ 62"
proof -
  have "(of_int d :: rat) / 10 ^ 9 * of_int rate * slack \<le> 2 ^ 62 / 10 ^ 9 * 2 ^ 29 * slack"
  proof -
    have "(of_int d :: rat) \<le> 2 ^ 62" "(of_int rate :: rat) \<le> 2 ^ 29"
      using assms(2,4) by (metis of_int_le_iff of_int_numeral of_int_power)+
    then show ?thesis using assms(1,3) by (intro mult_mono divide_right_mono) auto
  qed
  also have "\<dots> \<le> 2 ^ 62" by (simp add: field_simps)
  finally have "of_int (trunc (fl (Seconds d * fl (of_int rate)))) \<le> (2 ^ 62 :: rat)"
    using refill_amount(2) [OF assms(1,3)] by linarith
  then show ?thesis by (metis of_int_le_iff of_int_numeral of_int_power)
qed

lemma Seconds_nonpos: "d \<le> 0 \<Longrightarrow> Seconds d \<le> 0"
proof -
  assume "d \<le> 0"
  have neg: "fl (- x) = - fl x" for x by (simp add: fl_def)
  have "(- d) sdiv second = - (d sdiv second)" "(- d) smod second = - (d smod second)"
    by (simp_all add: signed_divide_int_def signed_modulo_int_def sgn_if)
  then have "Seconds (- d) = fl (- (fl (of_int (d sdiv second)) + fl (fl (of_int (d smod second)) / 10 ^ 9)))"
    by (simp add: Seconds_def neg minus_divide_left [symmetric])
  also have "\<dots> = - Seconds d" unfolding neg Seconds_def ..
  finally have "Seconds (- d) = - Seconds d" .
  with Seconds_nonneg [of "- d"] \<open>d \<le> 0\<close> show ?thesis by simp
qed

lemma wrap64_small: "0 \<le> x \<Longrightarrow> x < 2 ^ 63 \<Longrightarrow> wrap64 x = x"
  by (intro wrap64_id) (simp_all add: int64_min_def int64_max_def)

text \<open>One call: the bucket stays well formed, and what it hands out is covered by what it had and
  what the elapsed time paid in.\<close>

lemma AllowTB_step:
  assumes tb: "bucket_ok tb" and now: "instant_ok now" and run: "AllowTB now tb = (ok, tb')"
  shows "bucket_ok tb' \<and> refillRate tb' = refillRate tb \<and> maxTokens tb' = maxTokens tb
    \<and> lastRefill tb \<le> lastRefill tb' \<and> (lastRefill tb' = lastRefill tb \<or> lastRefill tb' = now)
    \<and> of_int (tokens tb' + (if ok then scale else 0))
        \<le> of_int (tokens tb) + of_int (lastRefill tb' - lastRefill tb) / 10 ^ 9 * of_int (refillRate tb) * slack"
proof (cases "Seconds (now - lastRefill tb) \<le> 0")
  case True
  then have "refill now tb = tb" by (simp add: refill_def)
  with run tb show ?thesis by (auto simp: AllowTB_def bucket_ok_def scale_def split: if_splits)
next
  case False
  let ?d = "now - lastRefill tb"
  let ?n = "trunc (fl (Seconds ?d * fl (of_int (refillRate tb))))"
  have "\<not> ?d \<le> 0" using False Seconds_nonpos [of ?d] by blast
  then have d: "0 \<le> ?d" "?d \<le> 2 ^ 62" using tb now by (auto simp: bucket_ok_def instant_ok_def)
  have n: "0 \<le> ?n" "?n \<le> 2 ^ 62"
    using d tb refill_amount(1) [of ?d "refillRate tb"] refill_small [of ?d "refillRate tb"] by (auto simp: bucket_ok_def)
  have amt: "of_int ?n \<le> of_int ?d / 10 ^ 9 * of_int (refillRate tb) * slack"
    using d(1) tb by (intro refill_amount(2)) (simp_all add: bucket_ok_def)
  have "wrap64 (tokens tb + ?n) = tokens tb + ?n"
    using n tb by (intro wrap64_small) (auto simp: bucket_ok_def)
  then have r: "refill now tb = tb\<lparr>tokens := min (maxTokens tb) (tokens tb + ?n), lastRefill := now\<rparr>"
    using False by (simp add: refill_def Let_def)
  have m: "of_int (min (maxTokens tb) (tokens tb + ?n)) \<le> (of_int (tokens tb) + of_int ?n :: rat)"
    by (simp flip: of_int_add)
  from run have cases: "ok = (scale \<le> min (maxTokens tb) (tokens tb + ?n))"
    "tb' = tb\<lparr>tokens := min (maxTokens tb) (tokens tb + ?n) - (if ok then scale else 0), lastRefill := now\<rparr>"
    by (auto simp: AllowTB_def r Let_def split: if_splits)
  have tok: "tokens tb' + (if ok then scale else 0) = min (maxTokens tb) (tokens tb + ?n)" by (simp add: cases(2))
  have "bucket_ok tb'"
    using tb n now cases(1) by (auto simp: cases(2) bucket_ok_def instant_ok_def scale_def)
  moreover have "of_int (tokens tb' + (if ok then scale else 0))
      \<le> of_int (tokens tb) + of_int ?d / 10 ^ 9 * of_int (refillRate tb) * slack"
    unfolding tok using m amt by linarith
  ultimately show ?thesis using d(1) cases(2) by simp
qed

fun run_bucket :: "TokenBucket \<Rightarrow> time list \<Rightarrow> nat \<times> TokenBucket" where
  "run_bucket tb [] = (0, tb)"
| "run_bucket tb (t # ts) =
     (let (ok, tb1) = AllowTB t tb; (n, tb2) = run_bucket tb1 ts in ((if ok then Suc n else n), tb2))"

lemma run_bucket_account:
  assumes "bucket_ok tb" and "\<forall>t \<in> set ts. instant_ok t" and "run_bucket tb ts = (n, tb')"
  shows "bucket_ok tb' \<and> lastRefill tb \<le> lastRefill tb' \<and> (lastRefill tb' = lastRefill tb \<or> lastRefill tb' \<in> set ts)
    \<and> of_int (tokens tb' + scale * int n)
        \<le> of_int (tokens tb) + of_int (lastRefill tb' - lastRefill tb) / 10 ^ 9 * of_int (refillRate tb) * slack"
  using assms
proof (induction ts arbitrary: tb n)
  case Nil
  then show ?case by simp
next
  case (Cons t ts)
  obtain ok tb1 m where a: "AllowTB t tb = (ok, tb1)" and b: "run_bucket tb1 ts = (m, tb')"
    and n: "n = (if ok then Suc m else m)" using Cons.prems(3) by (auto split: prod.splits)
  have t: "instant_ok t" using Cons.prems(2) by simp
  note s = AllowTB_step [OF Cons.prems(1) t a]
  have IH: "bucket_ok tb' \<and> lastRefill tb1 \<le> lastRefill tb' \<and> (lastRefill tb' = lastRefill tb1 \<or> lastRefill tb' \<in> set ts)
    \<and> of_int (tokens tb' + scale * int m)
        \<le> of_int (tokens tb1) + of_int (lastRefill tb' - lastRefill tb1) / 10 ^ 9 * of_int (refillRate tb1) * slack"
    using Cons.IH [OF _ _ b] s Cons.prems(2) by simp
  let ?g = "\<lambda>d. of_int d / 10 ^ 9 * of_int (refillRate tb) * slack :: rat"
  have g: "?g (x + y) = ?g x + ?g y" for x y by (simp add: add_divide_distrib distrib_right)
  have sp: "lastRefill tb' - lastRefill tb = (lastRefill tb' - lastRefill tb1) + (lastRefill tb1 - lastRefill tb)" by simp
  have "of_int (tokens tb' + scale * int n) = of_int (tokens tb' + scale * int m) + (of_int (if ok then scale else 0) :: rat)"
    by (simp add: n distrib_left)
  also have "\<dots> \<le> of_int (tokens tb1) + ?g (lastRefill tb' - lastRefill tb1) + of_int (if ok then scale else 0)"
    using IH s by simp
  also have "\<dots> \<le> of_int (tokens tb) + ?g (lastRefill tb1 - lastRefill tb) + ?g (lastRefill tb' - lastRefill tb1)"
    using s by (simp del: of_int_add add: of_int_add [symmetric])
  finally show ?case using IH s unfolding sp g by auto
qed

text \<open>C32. The limiter never hands out more than it was paid: however the calls of \<open>Allow\<close> are spread over
  the interval from the last refill to \<open>T\<close>, the number admitted is at most the tokens the bucket held
  plus the rate times the elapsed seconds, up to a relative float64 error below \<open>10 powi (- 15)\<close>.\<close>

theorem rate_limit_bound:
  assumes "bucket_ok tb" and "\<forall>t \<in> set ts. 0 \<le> t \<and> t \<le> T" and "lastRefill tb \<le> T" and "T \<le> 2 ^ 62"
  shows "of_nat (fst (run_bucket tb ts))
    \<le> of_int (tokens tb) / 1000 + of_int (T - lastRefill tb) / 10 ^ 9 * (of_int (refillRate tb) / 1000) * slack"
proof -
  obtain n tb' where r: "run_bucket tb ts = (n, tb')" by fastforce
  have "\<forall>t \<in> set ts. instant_ok t" using assms by (auto simp: instant_ok_def)
  note a = run_bucket_account [OF assms(1) this r]
  have le: "lastRefill tb' \<le> T" using a assms by auto
  let ?g = "\<lambda>d. of_int d / 10 ^ 9 * of_int (refillRate tb) * slack :: rat"
  have "?g (lastRefill tb' - lastRefill tb) \<le> ?g (T - lastRefill tb)"
    using le assms(1) by (intro mult_right_mono divide_right_mono) (auto simp: bucket_ok_def)
  moreover have "of_int (scale * int n) \<le> (of_int (tokens tb' + scale * int n) :: rat)"
    using a by (intro of_int_le_iff [THEN iffD2]) (simp add: bucket_ok_def)
  ultimately have "of_int (scale * int n) \<le> of_int (tokens tb) + ?g (T - lastRefill tb)" using a by linarith
  then have "1000 * (of_nat n :: rat) \<le> of_int (tokens tb) + ?g (T - lastRefill tb)" by (simp add: scale_def)
  then show ?thesis by (simp add: r field_simps)
qed

theorem rate_limit_bound_witness:
  "of_nat (fst (run_bucket (NewTokenBucket 0 1 2) [1, 2, 3, second]))
    \<le> (of_int 2000 / 1000 + of_int (second - 0) / 10 ^ 9 * (of_int 1000 / 1000) * slack :: rat)"
proof -
  have tb: "NewTokenBucket 0 1 2 = \<lparr>tokens = 2000, maxTokens = 2000, refillRate = 1000, lastRefill = 0\<rparr>"
    by (simp add: NewTokenBucket_def scale_def wrap64_small)
  have "bucket_ok (NewTokenBucket 0 1 2)" by (simp add: tb bucket_ok_def)
  from rate_limit_bound [OF this, of "[1, 2, 3, second]" second] show ?thesis by (simp add: tb)
qed

lemma half_ms_pays_nothing: "trunc (fl (Seconds 500000 * fl (of_int 1000))) = 0" "0 < Seconds 500000"
proof -
  let ?n = "trunc (fl (Seconds 500000 * fl (of_int 1000)))"
  have "(of_int ?n :: rat) \<le> of_int 500000 / 10 ^ 9 * of_int 1000 * slack" by (rule refill_amount) simp_all
  also have "\<dots> < of_int 1" by (simp add: eval_nat_numeral)
  finally have "?n < 1" by (simp only: of_int_less_iff)
  then show "?n = 0" using refill_amount(1) [of 500000 1000] by simp
  show "0 < Seconds 500000" by (rule Seconds_pos) simp
qed

text \<open>Refill can starve: every call moves the refill time forward and drops the fraction of a
  thousandth that the elapsed time was worth. On a bucket of rate one per second that has run dry,
  calls that arrive every half millisecond are all refused, for as long as they keep arriving.\<close>

theorem refill_starvation:
  assumes "0 \<le> tokens tb" "tokens tb < scale" "tokens tb \<le> maxTokens tb" "refillRate tb = 1000"
  shows "run_bucket tb (map (\<lambda>i. lastRefill tb + 500000 * int i) [1..<Suc k])
    = (0, tb\<lparr>lastRefill := lastRefill tb + 500000 * int k\<rparr>)"
  using assms
proof (induction k arbitrary: tb)
  case 0
  then show ?case by simp
next
  case (Suc k)
  let ?tb = "tb\<lparr>lastRefill := lastRefill tb + 500000\<rparr>"
  have "refill (lastRefill tb + 500000) tb = ?tb"
    using Suc.prems half_ms_pays_nothing by (simp add: refill_def Let_def wrap64_small scale_def)
  then have one: "AllowTB (lastRefill tb + 500000) tb = (False, ?tb)"
    using Suc.prems by (simp add: AllowTB_def Let_def)
  have "[1..<Suc (Suc k)] = 1 # map Suc [1..<Suc k]" by (simp add: upt_conv_Cons map_Suc_upt del: upt_Suc)
  then have "map (\<lambda>i. lastRefill tb + 500000 * int i) [1..<Suc (Suc k)]
      = (lastRefill tb + 500000) # map (\<lambda>i. lastRefill ?tb + 500000 * int i) [1..<Suc k]"
    by (simp add: algebra_simps comp_def del: upt_Suc)
  then show ?case using one Suc.IH [of ?tb] Suc.prems by (simp add: algebra_simps del: upt_Suc)
qed

theorem refill_starvation_witness:
  "fst (run_bucket \<lparr>tokens = 0, maxTokens = 2000, refillRate = 1000, lastRefill = 0\<rparr>
     (map (\<lambda>i. 500000 * int i) [1..<Suc 7200000])) = 0"
  using refill_starvation [of "\<lparr>tokens = 0, maxTokens = 2000, refillRate = 1000, lastRefill = 0\<rparr>" 7200000]
  by (simp add: scale_def del: upt_Suc)

section \<open>Semaphore\<close>

text \<open>The buffered channel: its capacity and the number of permits in it. \<open>Release\<close> receives from the
  channel; on an empty one it would block for ever (\<open>None\<close>).\<close>

record Semaphore =
  sem_cap :: nat
  sem_held :: nat

definition NewSemaphore :: "nat \<Rightarrow> Semaphore" where
  "NewSemaphore n = \<lparr>sem_cap = n, sem_held = 0\<rparr>"

definition TryAcquire :: "Semaphore \<Rightarrow> bool \<times> Semaphore" where
  "TryAcquire s = (if sem_held s < sem_cap s then (True, s\<lparr>sem_held := sem_held s + 1\<rparr>) else (False, s))"

definition ReleaseSem :: "Semaphore \<Rightarrow> Semaphore option" where
  "ReleaseSem s = (if sem_held s = 0 then None else Some (s\<lparr>sem_held := sem_held s - 1\<rparr>))"

definition sem_ok :: "Semaphore \<Rightarrow> bool" where
  "sem_ok s \<longleftrightarrow> sem_held s \<le> sem_cap s"

lemma sem_ok_ops:
  "sem_ok (NewSemaphore n)" "sem_ok s \<Longrightarrow> sem_ok (snd (TryAcquire s))"
  "sem_ok s \<Longrightarrow> ReleaseSem s = Some s' \<Longrightarrow> sem_ok s'"
  by (auto simp: sem_ok_def NewSemaphore_def TryAcquire_def ReleaseSem_def split: if_splits)

lemma acquire_release: "TryAcquire s = (True, s') \<Longrightarrow> ReleaseSem s' = Some s"
  by (auto simp: TryAcquire_def ReleaseSem_def split: if_splits)

end
