(* ===== verification/Subscription_State.thy ===== *)
theory Subscription_State
  imports Store_Contracts Redis Registry Rate_Limits
begin

text \<open>
  \<^verbatim>\<open>internal/subscription/state.go\<close>: the boundary that owns durable subscriptions, their Redis
  read-through cache, the dirty set that covers failed invalidations, and the per-subscription
  registries. A striped mutex serialises the operations on one subscription, so each operation is one
  step. Registries hold references into object stores, as the Go code holds pointers.

  The cache holds JSON of the subscription; \<open>None\<close> stands for bytes that do not parse. A subscription
  whose strings are valid UTF-8 survives the JSON round trip unchanged.
\<close>

record SubConfig =
  CacheTTL :: duration
  RegistryIdleTTL :: duration
  RateLimitPerSec :: int
  RateLimitBurst :: int
  ConcurrencyLimit :: nat

record SubState =
  ss_cache :: "string \<rightharpoonup> Subscription option \<times> time"
  ss_dirty :: "string \<rightharpoonup> time"
  ss_buckets :: "nat Registry"
  ss_semaphores :: "nat Registry"
  bucket_heap :: "TokenBucket list"
  sem_heap :: "Semaphore list"

definition NewState :: "SubConfig \<Rightarrow> SubState" where
  "NewState cfg = \<lparr>ss_cache = Map.empty, ss_dirty = Map.empty, ss_buckets = NewRegistry (RegistryIdleTTL cfg),
     ss_semaphores = NewRegistry (RegistryIdleTTL cfg), bucket_heap = [], sem_heap = []\<rparr>"

text \<open>What one operation meets: the repository call, the process clock, and the fate of its Redis
  commands.\<close>

record senv =
  e_call :: call
  e_now :: time
  e_get :: reply
  e_set :: reply
  e_del :: reply

definition cache_key :: "string \<Rightarrow> string" where
  "cache_key i = ''subscription:'' @ i"

section \<open>Dirty keys\<close>

definition isDirty :: "time \<Rightarrow> string \<Rightarrow> SubState \<Rightarrow> bool \<times> SubState" where
  "isDirty now i s =
     (case ss_dirty s i of
        None \<Rightarrow> (False, s)
      | Some until \<Rightarrow> if now > until then (False, s\<lparr>ss_dirty := (ss_dirty s)(i := None)\<rparr>) else (True, s))"

definition markDirty :: "SubConfig \<Rightarrow> time \<Rightarrow> string \<Rightarrow> SubState \<Rightarrow> SubState" where
  "markDirty cfg now i s = s\<lparr>ss_dirty := (ss_dirty s)(i \<mapsto> now + CacheTTL cfg)\<rparr>"

definition clearDirty :: "string \<Rightarrow> SubState \<Rightarrow> SubState" where
  "clearDirty i s = s\<lparr>ss_dirty := (ss_dirty s)(i := None)\<rparr>"

section \<open>Cache commands\<close>

datatype cache_read = Hit "Subscription option" | Miss | ReadError

definition cache_get :: "reply \<Rightarrow> time \<Rightarrow> string \<Rightarrow> SubState \<Rightarrow> cache_read" where
  "cache_get rp now k s =
     (if rp \<noteq> Done then ReadError
      else case ss_cache s k of None \<Rightarrow> Miss | Some (v, expiry) \<Rightarrow> if now < expiry then Hit v else Miss)"

definition cache_set :: "reply \<Rightarrow> time \<Rightarrow> string \<Rightarrow> Subscription \<Rightarrow> duration \<Rightarrow> SubState \<Rightarrow> bool \<times> SubState" where
  "cache_set rp now k sub ttl s =
     (rp = Done, if rp = NotRun then s else s\<lparr>ss_cache := (ss_cache s)(k \<mapsto> (Some sub, now + ttl))\<rparr>)"

definition cache_del :: "reply \<Rightarrow> string \<Rightarrow> SubState \<Rightarrow> bool \<times> SubState" where
  "cache_del rp k s = (rp = Done, if rp = NotRun then s else s\<lparr>ss_cache := (ss_cache s)(k := None)\<rparr>)"

definition evictLocked :: "SubConfig \<Rightarrow> senv \<Rightarrow> string \<Rightarrow> SubState \<Rightarrow> SubState" where
  "evictLocked cfg e i s =
     (case cache_del (e_del e) (cache_key i) s of
        (False, s1) \<Rightarrow> markDirty cfg (e_now e) i s1
      | (True, s1) \<Rightarrow> clearDirty i s1)"

text \<open>\<^verbatim>\<open>evict\<close> takes the stripe lock around \<open>evictLocked\<close>.\<close>

definition evict :: "SubConfig \<Rightarrow> senv \<Rightarrow> string \<Rightarrow> SubState \<Rightarrow> SubState" where
  "evict cfg e i s = evictLocked cfg e i s"

definition resetRuntime :: "string \<Rightarrow> SubState \<Rightarrow> SubState" where
  "resetRuntime i s = s\<lparr>ss_buckets := RegRemove i (ss_buckets s), ss_semaphores := RegRemove i (ss_semaphores s)\<rparr>"

section \<open>Operations\<close>

text \<open>The part of \<open>GetByID\<close> after the cache has not answered.\<close>

definition refreshSub ::
  "pgsql \<Rightarrow> SubConfig \<Rightarrow> senv \<Rightarrow> db \<Rightarrow> string \<Rightarrow> SubState \<Rightarrow> Subscription result \<times> SubState" where
  "refreshSub pg cfg e d i s =
     (case GetSubByID pg (e_call e) d i of
        Inl err \<Rightarrow>
          (if err = ErrNotFound then
             (case cache_del (e_del e) (cache_key i) s of
                (True, s1) \<Rightarrow> (Inl err, clearDirty i s1)
              | (False, s1) \<Rightarrow> (Inl err, s1))
           else (Inl err, s))
      | Inr sub \<Rightarrow>
          (case cache_set (e_set e) (e_now e) (cache_key i) sub (CacheTTL cfg) s of
             (True, s1) \<Rightarrow> (Inr sub, clearDirty i s1)
           | (False, s1) \<Rightarrow> (Inr sub, markDirty cfg (e_now e) i s1)))"

definition StateGetByID ::
  "pgsql \<Rightarrow> SubConfig \<Rightarrow> senv \<Rightarrow> db \<Rightarrow> string \<Rightarrow> SubState \<Rightarrow> Subscription result \<times> SubState" where
  "StateGetByID pg cfg e d i s0 =
     (case isDirty (e_now e) i s0 of
        (True, s) \<Rightarrow> refreshSub pg cfg e d i s
      | (False, s) \<Rightarrow>
         (case cache_get (e_get e) (e_now e) (cache_key i) s of
            Hit (Some sub) \<Rightarrow> (Inr sub, s)
          | Hit None \<Rightarrow> refreshSub pg cfg e d i s
          | Miss \<Rightarrow> refreshSub pg cfg e d i s
          | ReadError \<Rightarrow> (GetSubByID pg (e_call e) d i, s)))"

definition StateCreate ::
  "SubConfig \<Rightarrow> senv \<Rightarrow> db \<Rightarrow> Subscription \<Rightarrow> SubState \<Rightarrow> Subscription result \<times> db \<times> SubState" where
  "StateCreate cfg e d sub s =
     (case CreateSub (e_call e) d sub of
        (Inl err, d') \<Rightarrow> (Inl err, d', s)
      | (Inr sub', d') \<Rightarrow> (Inr sub', d', evict cfg e (S_ID sub') s))"

definition StateList ::
  "pgsql \<Rightarrow> senv \<Rightarrow> db \<Rightarrow> int \<Rightarrow> Cursor option \<Rightarrow> Subscription Page result" where
  "StateList pg e d limit after = ListSubs pg (e_call e) d limit after"

definition StateUpdate ::
  "pgsql \<Rightarrow> SubConfig \<Rightarrow> senv \<Rightarrow> db \<Rightarrow> Subscription \<Rightarrow> SubState \<Rightarrow> Subscription result \<times> db \<times> SubState" where
  "StateUpdate pg cfg e d sub s =
     (case UpdateSub pg (e_call e) d sub of
        (Inl err, d') \<Rightarrow> (Inl err, d', s)
      | (Inr sub', d') \<Rightarrow> (Inr sub', d', evictLocked cfg e (S_ID sub) s))"

definition StateDelete ::
  "pgsql \<Rightarrow> SubConfig \<Rightarrow> senv \<Rightarrow> db \<Rightarrow> string \<Rightarrow> SubState \<Rightarrow> unit result \<times> db \<times> SubState" where
  "StateDelete pg cfg e d i s =
     (case DeleteSub pg (e_call e) d i of
        (Inl err, d') \<Rightarrow> (Inl err, d', s)
      | (Inr _, d') \<Rightarrow> (Inr (), d', resetRuntime i (evictLocked cfg e i s)))"

definition StateRotateSecret ::
  "pgsql \<Rightarrow> SubConfig \<Rightarrow> senv \<Rightarrow> db \<Rightarrow> string \<Rightarrow> string \<Rightarrow> SubState \<Rightarrow> Subscription result \<times> db \<times> SubState" where
  "StateRotateSecret pg cfg e d i newSecret s =
     (case RotateSecretSub pg (e_call e) d i newSecret of
        (Inl err, d') \<Rightarrow> (Inl err, d', s)
      | (Inr sub, d') \<Rightarrow> (Inr sub, d', evictLocked cfg e i s))"

definition RecordDeliverySuccess ::
  "pgsql \<Rightarrow> SubConfig \<Rightarrow> senv \<Rightarrow> db \<Rightarrow> string \<Rightarrow> string \<Rightarrow> int \<Rightarrow> SubState \<Rightarrow> bool result \<times> db \<times> SubState" where
  "RecordDeliverySuccess pg cfg e d lid sid st s =
     (case MarkSuccess pg (e_call e) d lid sid st of
        (Inl err, d') \<Rightarrow> (Inl err, d', s)
      | (Inr (won, changed), d') \<Rightarrow> (Inr won, d', if changed then evictLocked cfg e sid s else s))"

definition RecordFinalFailure ::
  "pgsql \<Rightarrow> SubConfig \<Rightarrow> senv \<Rightarrow> db \<Rightarrow> string \<Rightarrow> string \<Rightarrow> int option \<Rightarrow> string \<Rightarrow> int \<Rightarrow> SubState \<Rightarrow>
     (bool \<times> bool) result \<times> db \<times> SubState" where
  "RecordFinalFailure pg cfg e d lid sid st err th s =
     (case FinalizeFailure pg (e_call e) d lid sid st err th of
        (Inl er, d') \<Rightarrow> (Inl er, d', s)
      | (Inr (won, disabled), d') \<Rightarrow>
         (let s1 = (if won then evictLocked cfg e sid s else s);
              s2 = (if disabled then resetRuntime sid s1 else s1)
          in (Inr (won, disabled), d', s2)))"

section \<open>Runtime controls\<close>

definition create_bucket :: "SubConfig \<Rightarrow> time \<Rightarrow> string \<Rightarrow> TokenBucket list \<Rightarrow> nat \<times> TokenBucket list" where
  "create_bucket cfg now k h =
     (length h, h @ [NewTokenBucket now (RateLimitPerSec cfg) (RateLimitBurst cfg)])"

definition create_sem :: "SubConfig \<Rightarrow> string \<Rightarrow> Semaphore list \<Rightarrow> nat \<times> Semaphore list" where
  "create_sem cfg k h = (length h, h @ [NewSemaphore (ConcurrencyLimit cfg)])"

definition StateAllow :: "SubConfig \<Rightarrow> time \<Rightarrow> string \<Rightarrow> SubState \<Rightarrow> bool \<times> SubState" where
  "StateAllow cfg now i s =
     (case RegGet (create_bucket cfg now) now i (ss_buckets s) (bucket_heap s) of
        (p, reg, h) \<Rightarrow>
          (case AllowTB now (h ! p) of
             (ok, tb) \<Rightarrow> (ok, s\<lparr>ss_buckets := reg, bucket_heap := h[p := tb]\<rparr>)))"

definition StateSemaphore :: "SubConfig \<Rightarrow> time \<Rightarrow> string \<Rightarrow> SubState \<Rightarrow> nat \<times> SubState" where
  "StateSemaphore cfg now i s =
     (case RegGet (create_sem cfg) now i (ss_semaphores s) (sem_heap s) of
        (p, reg, h) \<Rightarrow> (p, s\<lparr>ss_semaphores := reg, sem_heap := h\<rparr>))"

definition StateSweep :: "time \<Rightarrow> SubState \<Rightarrow> nat \<times> SubState" where
  "StateSweep now s =
     (case RegSweep now (ss_buckets s) of
        (n, b) \<Rightarrow> (case RegSweep now (ss_semaphores s) of
           (m, q) \<Rightarrow> (n + m, s\<lparr>ss_buckets := b, ss_semaphores := q\<rparr>)))"

end
