(* ===== verification/Breaker.thy ===== *)
theory Breaker
  imports Prelude "HOL-Library.Multiset"
begin

text \<open>
  \<^verbatim>\<open>internal/infra/breaker\<close>: the circuit breaker with its generation tokens. Each method is one
  atomic step here; callers interleave between methods (\<open>cb_step\<close>), as the deliverer's workers do
  between \<open>Allow\<close> and the matching \<open>Record\<close> call.
\<close>

datatype cb_state = stateClosed | stateOpen | stateHalfOpen

record CircuitBreaker =
  cb_state :: cb_state
  cb_failures :: int
  lastOpenedAt :: time
  generation :: int
  probing :: bool
  threshold :: int
  resetTimeout :: duration

definition wrap32 :: "int \<Rightarrow> int" where
  "wrap32 x = (x + 2 ^ 31) mod 2 ^ 32 - 2 ^ 31"

definition NewBreaker :: "int \<Rightarrow> duration \<Rightarrow> CircuitBreaker" where
  "NewBreaker th reset =
     \<lparr>cb_state = stateClosed, cb_failures = 0, lastOpenedAt = 0, generation = 0, probing = False,
      threshold = wrap32 th, resetTimeout = reset\<rparr>"

definition AllowCB :: "time \<Rightarrow> CircuitBreaker \<Rightarrow> (bool \<times> int) \<times> CircuitBreaker" where
  "AllowCB now cb =
     (case cb_state cb of
        stateClosed \<Rightarrow> ((True, generation cb), cb)
      | stateOpen \<Rightarrow>
         (let elapsed = now - lastOpenedAt cb in
          if elapsed > resetTimeout cb \<and> \<not> probing cb then
            (let g = wrap64 (generation cb + 1) in
             ((True, g), cb\<lparr>probing := True, cb_state := stateHalfOpen, generation := g\<rparr>))
          else ((False, 0), cb))
      | stateHalfOpen \<Rightarrow> ((False, 0), cb))"

definition RecordSuccess :: "int \<Rightarrow> CircuitBreaker \<Rightarrow> CircuitBreaker" where
  "RecordSuccess token cb =
     (if generation cb \<noteq> token then cb
      else (let cb = (if cb_state cb = stateHalfOpen
                      then cb\<lparr>cb_state := stateClosed, probing := False\<rparr> else cb)
            in cb\<lparr>cb_failures := 0\<rparr>))"

definition RecordFailure :: "time \<Rightarrow> int \<Rightarrow> CircuitBreaker \<Rightarrow> CircuitBreaker" where
  "RecordFailure now token cb =
     (if generation cb \<noteq> token then cb
      else if cb_state cb = stateHalfOpen then
        cb\<lparr>lastOpenedAt := now, cb_state := stateOpen, generation := wrap64 (generation cb + 1),
           probing := False\<rparr>
      else (let f = wrap32 (cb_failures cb + 1); cb = cb\<lparr>cb_failures := f\<rparr> in
            if f \<ge> threshold cb then
              (let cb = cb\<lparr>lastOpenedAt := now\<rparr> in
               if cb_state cb = stateClosed
               then cb\<lparr>cb_state := stateOpen, generation := wrap64 (generation cb + 1)\<rparr> else cb)
            else cb))"

fun StateCB :: "CircuitBreaker \<Rightarrow> string" where
  "StateCB cb = (case cb_state cb of stateOpen \<Rightarrow> ''open'' | stateHalfOpen \<Rightarrow> ''half-open'' | stateClosed \<Rightarrow> ''closed'')"

section \<open>Callers and their tokens\<close>

text \<open>A configuration is the breaker, the clock and the tokens handed out and not yet reported. The
  generation is taken below the end of int64: it grows by at most two per admitted probe.\<close>

inductive cb_step :: "time \<times> CircuitBreaker \<times> int multiset \<Rightarrow> time \<times> CircuitBreaker \<times> int multiset \<Rightarrow> bool" where
  admit: "t \<le> now \<Longrightarrow> generation cb + 1 < int64_max \<Longrightarrow> AllowCB now cb = ((True, g), cb') \<Longrightarrow>
    cb_step (t, cb, out) (now, cb', add_mset g out)"
| deny: "t \<le> now \<Longrightarrow> AllowCB now cb = ((False, g), cb') \<Longrightarrow> cb_step (t, cb, out) (now, cb', out)"
| report_success: "g \<in># out \<Longrightarrow> cb_step (t, cb, out) (t, RecordSuccess g cb, out - {#g#})"
| report_failure: "t \<le> now \<Longrightarrow> generation cb + 1 < int64_max \<Longrightarrow> g \<in># out \<Longrightarrow>
    cb_step (t, cb, out) (now, RecordFailure now g cb, out - {#g#})"

inductive_cases cb_stepE: "cb_step (t, cb, out) s'"

definition cb_inv :: "time \<times> CircuitBreaker \<times> int multiset \<Rightarrow> bool" where
  "cb_inv s \<longleftrightarrow> (case s of (t, cb, out) \<Rightarrow>
     (probing cb \<longleftrightarrow> cb_state cb = stateHalfOpen)
     \<and> 0 \<le> generation cb \<and> generation cb < int64_max \<and> (\<forall>g \<in># out. g \<le> generation cb)
     \<and> (cb_state cb = stateHalfOpen \<longrightarrow> count out (generation cb) = 1)
     \<and> (cb_state cb = stateOpen \<longrightarrow> count out (generation cb) = 0)
     \<and> 0 \<le> cb_failures cb \<and> cb_failures cb \<le> threshold cb
     \<and> (cb_state cb = stateClosed \<longrightarrow> cb_failures cb < threshold cb)
     \<and> 1 \<le> threshold cb \<and> threshold cb < 2 ^ 31)"

lemma cb_inv_new:
  "1 \<le> th \<Longrightarrow> th < 2 ^ 31 \<Longrightarrow> cb_inv (t, NewBreaker th reset, {#})"
  by (simp add: cb_inv_def NewBreaker_def int64_max_def wrap32_def)

lemma wrap32_id: "0 \<le> x \<Longrightarrow> x < 2 ^ 31 \<Longrightarrow> wrap32 x = x"
  by (simp add: wrap32_def)

lemma gen_wrap: "0 \<le> g \<Longrightarrow> g + 1 < int64_max \<Longrightarrow> wrap64 (g + 1) = g + 1"
  by (simp add: int64_min_def)

lemma count_above: "\<forall>g \<in># out. g \<le> (m::int) \<Longrightarrow> m < k \<Longrightarrow> count out k = 0"
  by (force simp: not_in_iff [symmetric])

lemma cb_inv_admit:
  assumes "cb_inv (t, cb, out)" "AllowCB now cb = ((True, g), cb')" "generation cb + 1 < int64_max"
  shows "cb_inv (now, cb', add_mset g out)"
  using assms count_above [of out "generation cb" "generation cb + 1"]
  by (auto simp: cb_inv_def AllowCB_def Let_def gen_wrap split: cb_state.splits if_splits)

lemma cb_inv_success:
  assumes "cb_inv (t, cb, out)" "g \<in># out"
  shows "cb_inv (t, RecordSuccess g cb, out - {#g#})"
  using assms by (auto simp: cb_inv_def RecordSuccess_def Let_def not_in_iff [symmetric] dest: in_diffD)

lemma diff_le: "\<forall>g \<in># out. g \<le> (m::int) \<Longrightarrow> m \<le> k \<Longrightarrow> \<forall>h \<in># out - {#g#}. h \<le> k"
  by (metis in_diffD order_trans)

lemma cb_inv_failure:
  assumes inv: "cb_inv (t, cb, out)" and g: "g \<in># out" and gen: "generation cb + 1 < int64_max"
  shows "cb_inv (now, RecordFailure now g cb, out - {#g#})"
proof -
  have le: "\<forall>h \<in># out. h \<le> generation cb" and g0: "0 \<le> generation cb" using inv by (simp_all add: cb_inv_def)
  have up: "\<forall>h \<in># out - {#g#}. h \<le> generation cb + 1" "\<forall>h \<in># out - {#g#}. h \<le> generation cb"
    using diff_le [OF le] by simp_all
  have z: "count (out - {#g#}) (generation cb + 1) = 0" using count_above [OF up(2)] by simp
  have cnt: "0 < count out g" using g by simp
  have w: "wrap64 (generation cb + 1) = generation cb + 1" using g0 gen by (rule gen_wrap)
  consider "generation cb \<noteq> g" | "generation cb = g" "cb_state cb = stateHalfOpen"
    | "generation cb = g" "cb_state cb = stateClosed" | "generation cb = g" "cb_state cb = stateOpen"
    using cb_state.exhaust by blast
  then show ?thesis
  proof cases
    case 1
    then show ?thesis using inv up by (simp add: cb_inv_def RecordFailure_def)
  next
    case 2
    then show ?thesis using inv up z w gen by (simp add: cb_inv_def RecordFailure_def)
  next
    case 3
    have "wrap32 (cb_failures cb + 1) = cb_failures cb + 1"
      using inv 3 by (intro wrap32_id) (auto simp: cb_inv_def)
    then show ?thesis using inv 3 up z w gen by (simp add: cb_inv_def RecordFailure_def Let_def)
  next
    case 4
    then show ?thesis using inv cnt by (simp add: cb_inv_def)
  qed
qed

lemma AllowCB_denied: "AllowCB now cb = ((False, g), cb') \<Longrightarrow> cb' = cb"
  by (auto simp: AllowCB_def Let_def split: cb_state.splits if_splits)

interpretation breaker: step_invariant cb_step cb_inv
proof unfold_locales
  fix s s' assume inv: "cb_inv s" and "cb_step s s'"
  from this(2) show "cb_inv s'"
  proof cases
    case (admit t now cb g cb' out)
    then show ?thesis using inv cb_inv_admit by blast
  next
    case (deny t now cb g cb' out)
    then show ?thesis using inv AllowCB_denied [of now cb g cb'] by (simp add: cb_inv_def)
  next
    case (report_success g out t cb)
    then show ?thesis using inv cb_inv_success by blast
  next
    case (report_failure t now cb g out)
    then show ?thesis using inv cb_inv_failure by blast
  qed
qed

section \<open>What the breaker guarantees\<close>

text \<open>One authoritative probe: in every configuration that concurrent callers can reach, a half-open
  breaker has exactly one unreported token of the current generation, the probe's, and refuses every
  other caller; an open breaker has none, so no outstanding result can change it.\<close>

theorem single_probe:
  assumes "cb_step\<^sup>*\<^sup>* (t0, NewBreaker th reset, {#}) (t, cb, out)" and "1 \<le> th" and "th < 2 ^ 31"
  shows "(cb_state cb = stateHalfOpen \<longrightarrow> count out (generation cb) = 1 \<and> AllowCB now cb = ((False, 0), cb))
    \<and> (cb_state cb = stateOpen \<longrightarrow> (\<forall>g \<in># out. RecordSuccess g cb = cb \<and> RecordFailure now g cb = cb))"
proof -
  have inv: "cb_inv (t, cb, out)" using breaker.run_pres [OF assms(1)] cb_inv_new assms(2,3) by blast
  then have "cb_state cb = stateOpen \<Longrightarrow> \<forall>g \<in># out. generation cb \<noteq> g"
    by (auto simp: cb_inv_def not_in_iff [symmetric])
  with inv show ?thesis by (auto simp: cb_inv_def AllowCB_def RecordSuccess_def RecordFailure_def)
qed

theorem single_probe_witness:
  "AllowCB 100 (snd (AllowCB 50 (RecordFailure 10 0 (NewBreaker 1 20)))) =
     ((False, 0), snd (AllowCB 50 (RecordFailure 10 0 (NewBreaker 1 20))))"
proof -
  let ?b = "NewBreaker 1 20"
  let ?o = "RecordFailure 10 0 ?b"
  let ?h = "snd (AllowCB 50 ?o)"
  have big: "2 < int64_max" by (simp add: int64_max_def)
  have g: "generation ?b = 0" "generation ?o = 1" by code_simp+
  have a1: "AllowCB 5 ?b = ((True, 0), ?b)" and a2: "AllowCB 50 ?o = ((True, 2), ?h)" by code_simp+
  have "cb_step (0, ?b, {#}) (5, ?b, {#0#})" using admit [of 0 5 ?b 0 ?b "{#}"] a1 g big by simp
  moreover have "cb_step (5, ?b, {#0#}) (10, ?o, {#})" using report_failure [of 5 10 ?b 0 "{#0#}"] g big by simp
  moreover have "cb_step (10, ?o, {#}) (50, ?h, {#2#})" using admit [of 10 50 ?o 2 ?h "{#}"] a2 g big by simp
  ultimately have "cb_step\<^sup>*\<^sup>* (0, ?b, {#}) (50, ?h, {#2#})"
    by (meson converse_rtranclp_into_rtranclp rtranclp.rtrancl_refl)
  from single_probe [OF this, of 100] show ?thesis by (simp add: a1) code_simp
qed



end
