(* ===== verification/Metrics.thy ===== *)
theory Metrics
  imports Float64
begin

text \<open>
  \<^verbatim>\<open>internal/infra/metrics\<close>: the latency histogram and the delivery collector. Milliseconds are float64
  values (rationals rounded by \<open>fl\<close>), counters are int64.
\<close>

section \<open>Histogram\<close>

definition defaultBounds :: "rat list" where
  "defaultBounds = [1, 2, 3, 5, 8, 13, 21, 34, 55, 89, 144, 233, 377, 610, 1000, 1600, 2600, 4200, 6800,
     10000, 16000, 26000, 42000, 60000]"

record Histogram =
  counts :: "int list"
  total :: int
  sumMs :: rat
  minMs :: rat
  maxMs :: rat

definition NewHistogram :: Histogram where
  "NewHistogram = \<lparr>counts = replicate (length defaultBounds + 1) 0, total = 0, sumMs = 0, minMs = 0, maxMs = 0\<rparr>"

text \<open>\<^verbatim>\<open>sort.SearchFloat64s\<close>: the least index whose element is not below the value.\<close>

definition SearchFloat64s :: "rat list \<Rightarrow> rat \<Rightarrow> nat" where
  "SearchFloat64s bs x = length (takeWhile (\<lambda>b. b < x) bs)"

definition millis :: "duration \<Rightarrow> rat" where
  "millis d = fl (fl (of_int (d sdiv microsecond)) / 1000)"

definition Observe :: "duration \<Rightarrow> Histogram \<Rightarrow> Histogram" where
  "Observe d h =
     (let ms = millis d; i = SearchFloat64s defaultBounds ms in
      h\<lparr>counts := (counts h)[i := wrap64 (counts h ! i + 1)],
        minMs := (if total h = 0 \<or> ms < minMs h then ms else minMs h),
        maxMs := (if ms > maxMs h then ms else maxMs h),
        total := wrap64 (total h + 1),
        sumMs := fl (sumMs h + ms)\<rparr>)"

text \<open>The loop of \<open>percentileLocked\<close>, from bucket \<open>i\<close> with the running count \<open>cum\<close>; \<open>None\<close> when it runs
  off the end.\<close>

fun crossing :: "rat \<Rightarrow> rat \<Rightarrow> nat \<Rightarrow> int list \<Rightarrow> nat option" where
  "crossing target cum i [] = None"
| "crossing target cum i (c # cs) =
     (let cum' = fl (cum + fl (of_int c)) in
      if cum' \<ge> target then Some i else crossing target cum' (Suc i) cs)"

definition percentile :: "rat \<Rightarrow> Histogram \<Rightarrow> int" where
  "percentile p h =
     (case crossing (fl (fl p * fl (of_int (total h)))) 0 0 (counts h) of
        None \<Rightarrow> Round (maxMs h)
      | Some i \<Rightarrow> if i \<ge> length defaultBounds then Round (maxMs h) else Round (defaultBounds ! i))"

record HistogramSnapshot =
  Count :: int
  Min :: int
  Max :: int
  Avg :: int
  P50 :: int
  P95 :: int
  P99 :: int

definition SnapshotHist :: "Histogram \<Rightarrow> HistogramSnapshot" where
  "SnapshotHist h =
     (if total h = 0 then \<lparr>Count = 0, Min = 0, Max = 0, Avg = 0, P50 = 0, P95 = 0, P99 = 0\<rparr>
      else \<lparr>Count = total h, Min = Round (minMs h), Max = Round (maxMs h),
            Avg = Round (fl (sumMs h / fl (of_int (total h)))),
            P50 = percentile (1/2) h, P95 = percentile (95/100) h, P99 = percentile (99/100) h\<rparr>)"

section \<open>Collector\<close>

record Collector =
  hist :: Histogram
  attempts :: int
  successes :: int
  col_failures :: int
  startTime :: time

definition NewCollector :: "time \<Rightarrow> Collector" where
  "NewCollector now = \<lparr>hist = NewHistogram, attempts = 0, successes = 0, col_failures = 0, startTime = now\<rparr>"

definition RecordDelivery :: "duration \<Rightarrow> bool \<Rightarrow> Collector \<Rightarrow> Collector" where
  "RecordDelivery latency success c =
     (let c = c\<lparr>hist := Observe latency (hist c), attempts := wrap64 (attempts c + 1)\<rparr> in
      if success then c\<lparr>successes := wrap64 (successes c + 1)\<rparr>
      else c\<lparr>col_failures := wrap64 (col_failures c + 1)\<rparr>)"

definition Counters :: "Collector \<Rightarrow> int \<times> int \<times> int" where
  "Counters c = (attempts c, successes c, col_failures c)"

definition Latency :: "Collector \<Rightarrow> HistogramSnapshot" where
  "Latency c = SnapshotHist (hist c)"

definition Uptime :: "time \<Rightarrow> Collector \<Rightarrow> duration" where
  "Uptime now c = now - startTime c"

text \<open>The process-global expvar registry: names with the function that renders each. \<open>None\<close> is the panic
  of \<^verbatim>\<open>expvar.Publish\<close> on a name already in use.\<close>

record expvar_view =
  attempts_total :: int
  successes_total :: int
  failures_total :: int
  latency_ms :: HistogramSnapshot

definition PublishExpvar :: "(string \<rightharpoonup> Collector \<Rightarrow> expvar_view) \<Rightarrow> (string \<rightharpoonup> Collector \<Rightarrow> expvar_view) option" where
  "PublishExpvar vars =
     (if vars ''webhook_delivery'' \<noteq> None then None
      else Some (vars(''webhook_delivery'' \<mapsto> (\<lambda>c. let (a, s, f) = Counters c in
        \<lparr>attempts_total = a, successes_total = s, failures_total = f, latency_ms = Latency c\<rparr>))))"

lemma publish_once:
  "PublishExpvar Map.empty = Some vars \<Longrightarrow> PublishExpvar vars = None"
  by (auto simp: PublishExpvar_def)

section \<open>Counting\<close>

definition hist_ok :: "Histogram \<Rightarrow> bool" where
  "hist_ok h \<longleftrightarrow> length (counts h) = length defaultBounds + 1 \<and> (\<forall>c \<in> set (counts h). 0 \<le> c)
     \<and> sum_list (counts h) = total h \<and> 0 \<le> minMs h \<and> (total h > 0 \<longrightarrow> minMs h \<le> maxMs h)"

lemma search_bound: "SearchFloat64s bs x \<le> length bs"
  by (simp add: SearchFloat64s_def length_takeWhile_le)

lemma search_least:
  "i < SearchFloat64s bs x \<Longrightarrow> bs ! i < x"
  "SearchFloat64s bs x < length bs \<Longrightarrow> x \<le> bs ! SearchFloat64s bs x"
  using nth_length_takeWhile [of "\<lambda>b. b < x" bs] nth_mem [of i "takeWhile (\<lambda>b. b < x) bs"]
  by (auto simp: SearchFloat64s_def takeWhile_nth dest: set_takeWhileD)

lemma millis_nonneg: "0 \<le> d \<Longrightarrow> 0 \<le> millis d"
  by (simp add: millis_def fl_nonneg pos_imp_zdiv_nonneg_iff)

lemma sum_list_bump: "i < length xs \<Longrightarrow> sum_list (xs[i := xs ! i + 1]) = sum_list xs + (1::int)"
  by (induction xs arbitrary: i) (auto split: nat.splits)

lemma Observe_ok:
  assumes h: "hist_ok h" and d: "0 \<le> d" and t: "total h < int64_max"
  shows "hist_ok (Observe d h) \<and> total (Observe d h) = total h + 1"
proof -
  let ?i = "SearchFloat64s defaultBounds (millis d)"
  have i: "?i < length (counts h)" using h search_bound [of defaultBounds "millis d"] by (simp add: hist_ok_def)
  have nn: "0 \<le> counts h ! ?i" using h i by (simp add: hist_ok_def)
  have "counts h ! ?i \<le> total h"
    using h i member_le_sum_list [of "counts h ! ?i" "counts h"] by (simp add: hist_ok_def)
  then have w: "wrap64 (counts h ! ?i + 1) = counts h ! ?i + 1" using nn t by (simp add: int64_min_def)
  have t0: "0 \<le> total h" using nn \<open>counts h ! ?i \<le> total h\<close> by simp
  then have wt: "wrap64 (total h + 1) = total h + 1" using t by (simp add: int64_min_def)
  have m: "0 \<le> millis d" using d by (rule millis_nonneg)
  have "\<forall>c \<in> set ((counts h)[?i := counts h ! ?i + 1]). 0 \<le> c"
    using h nn by (auto simp: hist_ok_def dest!: subsetD [OF set_update_subset_insert])
  then show ?thesis
    using h i w wt m t0 sum_list_bump [OF i] by (auto simp: hist_ok_def Observe_def Let_def)
qed

definition col_ok :: "Collector \<Rightarrow> bool" where
  "col_ok c \<longleftrightarrow> hist_ok (hist c) \<and> attempts c = successes c + col_failures c \<and> total (hist c) = attempts c
     \<and> 0 \<le> successes c \<and> 0 \<le> col_failures c"

lemma col_ok_new: "col_ok (NewCollector now)"
  by (simp add: col_ok_def hist_ok_def NewCollector_def NewHistogram_def defaultBounds_def)

text \<open>The delivery counters agree: every recorded delivery adds one to the attempts, one to the
  outcome it had and one sample to the histogram, so attempts are always successes plus failures and
  equal the number of samples.\<close>

theorem record_delivery_counts:
  assumes "col_ok c" and "0 \<le> latency" and "attempts c < int64_max"
  shows "col_ok (RecordDelivery latency success c)
    \<and> Counters (RecordDelivery latency success c) =
        (attempts c + 1, successes c + (if success then 1 else 0), col_failures c + (if success then 0 else 1))"
proof -
  have "hist_ok (Observe latency (hist c)) \<and> total (Observe latency (hist c)) = total (hist c) + 1"
    using assms by (intro Observe_ok) (simp_all add: col_ok_def)
  moreover have "wrap64 (attempts c + 1) = attempts c + 1" "success \<Longrightarrow> wrap64 (successes c + 1) = successes c + 1"
    "\<not> success \<Longrightarrow> wrap64 (col_failures c + 1) = col_failures c + 1"
    using assms by (simp_all add: col_ok_def int64_min_def)
  ultimately show ?thesis using assms by (simp add: col_ok_def RecordDelivery_def Counters_def Let_def)
qed

theorem record_delivery_counts_witness:
  "Counters (RecordDelivery 5000000 True (NewCollector 0)) = (1, 1, 0)"
  using record_delivery_counts [OF col_ok_new, of 5000000 0 True] by (simp add: NewCollector_def int64_max_def)

end
