(* ===== verification/Signature.thy ===== *)
theory Signature
  imports Domain
begin

text \<open>
  \<^verbatim>\<open>internal/infra/signature\<close> and \<^verbatim>\<open>internal/infra/idgen\<close>. The keyed hash HMAC-SHA256 is a parameter
  \<open>mac\<close> (secret, message, digest bytes); nothing is assumed of it. The JSON decoder and encoder of the
  standard library are parameters of \<open>CanonicalJSON\<close>: \<open>dec\<close> reads one value and returns the rest of the
  stream, \<open>eof\<close> says whether a further read reports the end of the stream.
\<close>

section \<open>Hexadecimal\<close>

definition hex_digit :: "nat \<Rightarrow> char" where
  "hex_digit n = (if n < 10 then char_of (48 + n) else char_of (87 + n))"

definition hex_byte :: "char \<Rightarrow> string" where
  "hex_byte c = [hex_digit (byte c div 16), hex_digit (byte c mod 16)]"

definition hex_encode :: "string \<Rightarrow> string" where
  "hex_encode bs = concat (map hex_byte bs)"

lemma byte_char_of: "n < 256 \<Longrightarrow> byte (char_of n) = n"
  by (simp add: byte_def)

lemma byte_hex_digit: "n < 16 \<Longrightarrow> byte (hex_digit n) = (if n < 10 then 48 + n else 87 + n)"
  using byte_char_of [of "48 + n"] byte_char_of [of "87 + n"] by (simp add: hex_digit_def)

lemma hex_digit_inj: "m < 16 \<Longrightarrow> n < 16 \<Longrightarrow> hex_digit m = hex_digit n \<Longrightarrow> m = n"
proof -
  assume m: "m < 16" and n: "n < 16" and "hex_digit m = hex_digit n"
  then have "byte (hex_digit m) = byte (hex_digit n)" by simp
  then have "(if m < 10 then 48 + m else 87 + m) = (if n < 10 then 48 + n else 87 + n)"
    unfolding byte_hex_digit [OF m] byte_hex_digit [OF n] .
  then show "m = n" by (simp split: if_splits)
qed

lemma is_hex_digit: "n < 16 \<Longrightarrow> is_hex (hex_digit n)"
proof -
  assume "n < 16"
  then have "48 \<le> byte (hex_digit n) \<and> byte (hex_digit n) \<le> 57 \<or> 97 \<le> byte (hex_digit n) \<and> byte (hex_digit n) \<le> 102"
    using byte_hex_digit [of n] by simp
  moreover have "byte (CHR ''0'') = 48" "byte (CHR ''9'') = 57" "byte (CHR ''a'') = 97" "byte (CHR ''f'') = 102"
    by (simp_all add: byte_def)
  ultimately show ?thesis unfolding is_hex_def by linarith
qed

lemma byte_inj: "byte c = byte d \<Longrightarrow> c = d"
  by (simp add: byte_def)

lemma hex_byte_inj: "hex_byte c = hex_byte d \<Longrightarrow> c = d"
proof -
  assume "hex_byte c = hex_byte d"
  then have "hex_digit (byte c div 16) = hex_digit (byte d div 16)" "hex_digit (byte c mod 16) = hex_digit (byte d mod 16)"
    by (simp_all add: hex_byte_def)
  moreover have "byte c div 16 < 16" "byte d div 16 < 16" using byte_lt [of c] byte_lt [of d] by simp_all
  ultimately have "byte c div 16 = byte d div 16" "byte c mod 16 = byte d mod 16" by (auto intro: hex_digit_inj)
  then show "c = d" by (intro byte_inj) (metis div_mult_mod_eq)
qed

lemma length_hex_encode [simp]: "length (hex_encode bs) = 2 * length bs"
  by (induction bs) (simp_all add: hex_encode_def hex_byte_def)

lemma hex_encode_inj: "hex_encode a = hex_encode b \<Longrightarrow> a = b"
proof (induction a arbitrary: b)
  case Nil
  then have "length (hex_encode b) = length (hex_encode [])" by simp
  then show ?case by simp
next
  case (Cons x a)
  then obtain y b' where b: "b = y # b'" by (cases b) (auto simp: hex_encode_def hex_byte_def)
  with Cons.prems have "hex_byte x @ hex_encode a = hex_byte y @ hex_encode b'" by (simp add: hex_encode_def)
  moreover have "length (hex_byte x) = length (hex_byte y)" by (simp add: hex_byte_def)
  ultimately have "hex_byte x = hex_byte y" "hex_encode a = hex_encode b'" by simp_all
  with Cons.IH b show ?case by (auto dest: hex_byte_inj)
qed

section \<open>Signing\<close>

definition sigPrefix :: string where "sigPrefix = ''sha256=''"

definition BuildMessage :: "string \<Rightarrow> string \<Rightarrow> string \<Rightarrow> string" where
  "BuildMessage timestamp idempotencyKey body = timestamp @ ''.'' @ idempotencyKey @ ''.'' @ body"

definition Sign :: "(string \<Rightarrow> string \<Rightarrow> string) \<Rightarrow> string \<Rightarrow> string \<Rightarrow> string" where
  "Sign mac message secret = sigPrefix @ hex_encode (mac secret message)"

definition Verify :: "(string \<Rightarrow> string \<Rightarrow> string) \<Rightarrow> string \<Rightarrow> string \<Rightarrow> string \<Rightarrow> bool" where
  "Verify mac message secret signature \<longleftrightarrow> Sign mac message secret = signature"

definition key_char :: "char \<Rightarrow> bool" where
  "key_char c \<longleftrightarrow> (byte (CHR ''A'') \<le> byte c \<and> byte c \<le> byte (CHR ''Z''))
     \<or> (byte (CHR ''a'') \<le> byte c \<and> byte c \<le> byte (CHR ''z''))
     \<or> (byte (CHR ''0'') \<le> byte c \<and> byte c \<le> byte (CHR ''9'')) \<or> c = CHR ''_'' \<or> c = CHR ''-''"

fun key_loop :: "string \<Rightarrow> bool" where
  "key_loop [] = True"
| "key_loop (c # k) = (if key_char c then key_loop k else False)"

definition ValidIdempotencyKey :: "string \<Rightarrow> bool" where
  "ValidIdempotencyKey k = (if k = [] then True else if length k > 128 then False else key_loop k)"

definition CanonicalJSON ::
  "(string \<Rightarrow> string + 'v \<times> string) \<Rightarrow> (string \<Rightarrow> bool) \<Rightarrow> ('v \<Rightarrow> string + string) \<Rightarrow> string \<Rightarrow> string + string" where
  "CanonicalJSON dec eof marshal raw =
     (case dec raw of
        Inl e \<Rightarrow> Inl e
      | Inr (v, rest) \<Rightarrow>
          (if \<not> eof rest then Inl ''signature: unexpected trailing data after JSON value'' else marshal v))"

lemma key_loop_iff: "key_loop k \<longleftrightarrow> (\<forall>c \<in> set k. key_char c)"
  by (induction k) auto

lemma ValidIdempotencyKey_iff: "ValidIdempotencyKey k \<longleftrightarrow> length k \<le> 128 \<and> (\<forall>c \<in> set k. key_char c)"
  by (auto simp: ValidIdempotencyKey_def key_loop_iff)

lemma valid_key_no_dot: "ValidIdempotencyKey k \<Longrightarrow> CHR ''.'' \<notin> set k"
proof
  assume "ValidIdempotencyKey k" "CHR ''.'' \<in> set k"
  then have "key_char (CHR ''.'')" by (simp add: ValidIdempotencyKey_iff)
  then show False by (simp add: key_char_def byte_def)
qed

lemma split_at_dot:
  "CHR ''.'' \<notin> set a \<Longrightarrow> CHR ''.'' \<notin> set b \<Longrightarrow> a @ ''.'' @ x = b @ ''.'' @ y \<Longrightarrow> a = b \<and> x = y"
proof (induction a arbitrary: b)
  case Nil
  then show ?case by (cases b) auto
next
  case (Cons c a)
  then show ?case by (cases b) auto
qed

text \<open>C35. The signed message determines its fields: two messages built from timestamps without a dot and
  valid idempotency keys are equal only when timestamp, key and body are, so that no signature made for
  one request can be presented for another split of the same bytes.\<close>

theorem BuildMessage_unambiguous:
  assumes "CHR ''.'' \<notin> set ts" "CHR ''.'' \<notin> set ts'" "ValidIdempotencyKey k" "ValidIdempotencyKey k'"
  shows "BuildMessage ts k body = BuildMessage ts' k' body' \<longleftrightarrow> ts = ts' \<and> k = k' \<and> body = body'"
proof
  assume "BuildMessage ts k body = BuildMessage ts' k' body'"
  then have "ts @ ''.'' @ (k @ ''.'' @ body) = ts' @ ''.'' @ (k' @ ''.'' @ body')" by (simp add: BuildMessage_def)
  from split_at_dot [OF assms(1,2) this] have "ts = ts'" "k @ ''.'' @ body = k' @ ''.'' @ body'" by blast+
  with split_at_dot [OF valid_key_no_dot [OF assms(3)] valid_key_no_dot [OF assms(4)]]
  show "ts = ts' \<and> k = k' \<and> body = body'" by blast
qed simp

theorem BuildMessage_unambiguous_witness:
  "BuildMessage ''17'' ''a-1'' ''.x'' \<noteq> BuildMessage ''17'' [] ''a-1.x''"
proof -
  have k: "ValidIdempotencyKey ''a-1''" "ValidIdempotencyKey []" by code_simp+
  have t: "CHR ''.'' \<notin> set ''17''" by simp
  from BuildMessage_unambiguous [OF t t k, of "''.x''" "''a-1.x''"] show ?thesis by simp
qed

text \<open>Verification accepts exactly the signature that signing produces, and two secrets' signatures of
  a message agree only when their keyed hashes do.\<close>

theorem Verify_exact:
  "(Verify mac m secret sig \<longleftrightarrow> sig = Sign mac m secret)
    \<and> (Verify mac m secret (Sign mac m secret') \<longleftrightarrow> mac secret m = mac secret' m)"
  by (auto simp: Verify_def Sign_def dest: hex_encode_inj)

section \<open>Identifiers\<close>

text \<open>The 16 random bytes are the argument.\<close>

definition stamp :: "char \<Rightarrow> nat \<Rightarrow> nat \<Rightarrow> char" where
  "stamp c m v = char_of (byte c mod m + v)"

definition NewUUIDv4 :: "string \<Rightarrow> string" where
  "NewUUIDv4 b0 =
     (let b1 = b0[6 := stamp (b0 ! 6) 16 64]; b = b1[8 := stamp (b1 ! 8) 64 128] in
      hex_encode (take 4 b) @ ''-'' @ hex_encode (take 2 (drop 4 b)) @ ''-'' @ hex_encode (take 2 (drop 6 b))
      @ ''-'' @ hex_encode (take 2 (drop 8 b)) @ ''-'' @ hex_encode (take 6 (drop 10 b)))"

text \<open>\<^verbatim>\<open>MustUUIDv4\<close> panics (\<open>None\<close>) when the random source fails.\<close>

definition MustUUIDv4 :: "string option \<Rightarrow> string option" where
  "MustUUIDv4 rnd = map_option NewUUIDv4 rnd"

definition NewSecretKey :: "string \<Rightarrow> string" where
  "NewSecretKey b = hex_encode b"

lemma ValidUUID_list: "ValidUUID s \<longleftrightarrow> list_all2 uuid_char_ok [0..<36] s"
  by (auto simp: ValidUUID_iff list_all2_conv_all_nth)

lemma hex_char_ok: "n < 16 \<Longrightarrow> \<not> dash_pos i \<Longrightarrow> uuid_char_ok i (hex_digit n)"
  by (simp add: uuid_char_ok_def is_hex_digit)

lemma length_16:
  assumes "length b = 16"
  obtains b0 b1 b2 b3 b4 b5 b6 b7 b8 b9 b10 b11 b12 b13 b14 b15
  where "b = [b0, b1, b2, b3, b4, b5, b6, b7, b8, b9, b10, b11, b12, b13, b14, b15]"
  using assms by (auto simp: length_Suc_conv eval_nat_numeral)

lemma nibbles: "byte c div 16 < 16" "byte c mod 16 < 16"
  using byte_lt [of c] by simp_all

lemma stamp_version: "byte (stamp c 16 64) div 16 = 4"
  using byte_char_of [of "byte c mod 16 + 64"] by (simp add: stamp_def)

lemma stamp_variant: "byte (stamp c 64 128) div 16 \<in> {8, 9, 10, 11}"
proof -
  have "byte (stamp c 64 128) = byte c mod 64 + 128"
    using byte_char_of [of "byte c mod 64 + 128"] by (simp add: stamp_def)
  moreover have "byte c mod 64 < 64" by simp
  ultimately have "8 \<le> byte (stamp c 64 128) div 16" "byte (stamp c 64 128) div 16 < 12" by (auto simp: less_mult_imp_div_less)
  then show ?thesis by auto
qed

text \<open>C40. Generated identifiers are well formed: whatever 16 random bytes it draws, \<open>NewUUIDv4\<close> prints a text
  that \<open>ValidUUID\<close> accepts, with version digit 4 and an RFC 4122 variant digit.\<close>

theorem NewUUIDv4_valid:
  assumes "length b = 16"
  shows "ValidUUID (NewUUIDv4 b) \<and> NewUUIDv4 b ! 14 = CHR ''4''
    \<and> NewUUIDv4 b ! 19 \<in> {CHR ''8'', CHR ''9'', CHR ''a'', CHR ''b''}"
proof -
  obtain b0 b1 b2 b3 b4 b5 b6 b7 b8 b9 b10 b11 b12 b13 b14 b15
    where b: "b = [b0, b1, b2, b3, b4, b5, b6, b7, b8, b9, b10, b11, b12, b13, b14, b15]"
    using assms by (rule length_16)
  let ?v = "stamp b6 16 64" and ?w = "stamp b8 64 128"
  have u: "NewUUIDv4 b = hex_byte b0 @ hex_byte b1 @ hex_byte b2 @ hex_byte b3 @ ''-'' @ hex_byte b4 @ hex_byte b5 @ ''-''
      @ hex_byte ?v @ hex_byte b7 @ ''-'' @ hex_byte ?w @ hex_byte b9 @ ''-'' @ hex_byte b10 @ hex_byte b11
      @ hex_byte b12 @ hex_byte b13 @ hex_byte b14 @ hex_byte b15"
    by (simp add: b NewUUIDv4_def hex_encode_def)
  have dash: "uuid_char_ok i (CHR ''-'')" if "dash_pos i" for i using that by (simp add: uuid_char_ok_def)
  have "[0..<36] = [0,1,2,3,4,5,6,7,8,9,10,11,12,13,14,15,16,17,18,19,20,21,22,23,24,25,26,27,28,29,30,31,32,33,34,35]"
    by (simp add: upt_rec)
  then have "ValidUUID (NewUUIDv4 b)"
    unfolding ValidUUID_list u hex_byte_def by (simp add: hex_char_ok dash nibbles) (simp add: hex_char_ok dash nibbles dash_pos_def)
  moreover have "NewUUIDv4 b ! 14 = CHR ''4''"
    unfolding u by (simp add: hex_byte_def stamp_version) code_simp
  moreover have "NewUUIDv4 b ! 19 = hex_digit (byte ?w div 16)" unfolding u by (simp add: hex_byte_def)
  moreover have "hex_digit (byte ?w div 16) \<in> {CHR ''8'', CHR ''9'', CHR ''a'', CHR ''b''}"
  proof -
    have "hex_digit 8 = CHR ''8''" "hex_digit 9 = CHR ''9''" "hex_digit 10 = CHR ''a''" "hex_digit 11 = CHR ''b''"
      by code_simp+
    then show ?thesis using stamp_variant [of b8] by (auto simp only: insert_iff empty_iff)
  qed
  ultimately show ?thesis by simp
qed

theorem NewUUIDv4_valid_witness: "ValidUUID (NewUUIDv4 (replicate 16 (CHR 0xFF)))"
  using NewUUIDv4_valid [of "replicate 16 (CHR 0xFF)"] by simp

end
