(* ===== verification/Deliverer.thy ===== *)
theory Deliverer
  imports Subscription_State Breaker Metrics Signature Backoff
begin

text \<open>
  \<^verbatim>\<open>internal/worker/delivery.go\<close>: one delivery attempt. \<open>world\<close> holds everything \<open>Process\<close> touches: the
  database, Redis, the subscription boundary, the breakers (references into \<open>w_cbs\<close>, one per target URL)
  and the metrics; \<open>w_sent\<close> is the list of requests that reached the HTTP client, latest first. A worker
  meets its surroundings through \<open>penv\<close>: a repository call, clock reading, Redis reply or HTTP outcome
  for every place of the code that has one. Log output is left out.
\<close>

section \<open>Surroundings\<close>

record DelivererConfig =
  VisibilityTimeout :: duration
  MaxRetryAttempts :: int
  RetryBaseDelay :: duration
  RetryMaxDelay :: duration
  DBreakerResetTimeout :: duration
  AutoDisableThreshold :: int
  BreakerThreshold :: int
  SubCfg :: SubConfig

record request =
  rq_url :: string
  rq_headers :: "(string \<times> string) list"
  rq_body :: string

datatype http_outcome = HttpError string | HttpResponse int string

text \<open>The parts of the surroundings that are code: JSON canonicalisation, request construction (an error
  text when the URL does not parse), the keyed hash and the target's answer.\<close>

record http_env =
  h_canon :: "string \<Rightarrow> string + string"
  h_newreq :: "string \<Rightarrow> string option"
  h_mac :: "string \<Rightarrow> string \<Rightarrow> string"
  h_do :: "request \<Rightarrow> http_outcome"

record world =
  w_db :: db
  w_redis :: redis
  w_sub :: SubState
  w_breakers :: "nat Registry"
  w_cbs :: "CircuitBreaker list"
  w_metrics :: Collector
  w_sent :: "request list"

record penv =
  pe_load :: call
  pe_claim :: call
  pe_reload :: call
  pe_reload_now :: time
  pe_sub :: senv
  pe_drop :: call
  pe_sem_now :: time
  pe_reg_now :: time
  pe_cb_now :: time
  pe_now :: time
  pe_resched :: call
  pe_sign_now :: time
  pe_latency :: duration
  pe_record_now :: time
  pe_done_now :: time
  pe_finish :: senv
  pe_retry :: call
  pe_rnd :: "int \<Rightarrow> int"
  pe_zadd :: reply
  pe_push :: reply

definition maxErrorDetailLen :: nat where "maxErrorDetailLen = 512"
definition userAgent :: string where "userAgent = ''webhook-delivery-service/1.0''"
definition concurrencyBackoff :: duration where "concurrencyBackoff = 3 * second"

section \<open>The HTTP attempt\<close>

text \<open>The request an attempt sends.\<close>

definition build_request :: "http_env \<Rightarrow> string \<Rightarrow> string \<Rightarrow> DeliveryLog \<Rightarrow> Subscription \<Rightarrow> request" where
  "build_request h ts canonical lg sub =
     \<lparr>rq_url = D_TargetURL lg,
      rq_headers = [(''Content-Type'', ''application/json''), (''User-Agent'', userAgent),
        (''X-Webhook-ID'', D_WebhookID lg), (''X-Webhook-Delivery-ID'', D_ID lg),
        (''X-Delivery-Attempt'', Itoa (D_AttemptNumber lg)), (''Webhook-Timestamp'', ts),
        (''X-Hub-Signature-256'', Sign (h_mac h) (BuildMessage ts [] canonical) (S_SecretKey sub))],
      rq_body = canonical\<rparr>"

definition attempt ::
  "http_env \<Rightarrow> penv \<Rightarrow> DeliveryLog \<Rightarrow> Subscription \<Rightarrow> int option \<times> string \<times> duration \<times> request option" where
  "attempt h e lg sub =
     (case h_canon h (D_Payload lg) of
        Inl err \<Rightarrow> (None, truncate_detail (''invalid stored payload: '' @ err) maxErrorDetailLen, 0, None)
      | Inr canonical \<Rightarrow>
         (let ts = Itoa (pe_sign_now e div second) in
          case h_newreq h (D_TargetURL lg) of
            Some err \<Rightarrow> (None, truncate_detail (''build request: '' @ err) maxErrorDetailLen, 0, None)
          | None \<Rightarrow>
             (let req = build_request h ts canonical lg sub in
              case h_do h req of
                HttpError err \<Rightarrow> (None, truncate_detail err maxErrorDetailLen, pe_latency e, Some req)
              | HttpResponse status body \<Rightarrow>
                 (if 200 \<le> status \<and> status < 300 then (Some status, [], pe_latency e, Some req)
                  else (Some status,
                        truncate_detail (''HTTP '' @ Itoa status @ '': '' @ take maxErrorDetailLen body) maxErrorDetailLen,
                        pe_latency e, Some req)))))"

definition is_success :: "int option \<Rightarrow> bool" where
  "is_success st \<longleftrightarrow> (case st of None \<Rightarrow> False | Some s \<Rightarrow> 200 \<le> s \<and> s < 300)"

section \<open>Rescheduling\<close>

definition rescheduleNoAttempt :: "pgsql \<Rightarrow> penv \<Rightarrow> string \<Rightarrow> time \<Rightarrow> world \<Rightarrow> world" where
  "rescheduleNoAttempt pg e lid when w =
     (case RescheduleSamePending pg (pe_resched e) (w_db w) lid when of
        (Inl err, d) \<Rightarrow> w\<lparr>w_db := d\<rparr>
      | (Inr won, d) \<Rightarrow>
         (if \<not> won then w\<lparr>w_db := d\<rparr>
          else w\<lparr>w_db := d, w_redis := snd (Schedule (pe_zadd e) lid when (w_redis w))\<rparr>))"

definition rescheduleIfNotDue :: "pgsql \<Rightarrow> penv \<Rightarrow> string \<Rightarrow> world \<Rightarrow> world" where
  "rescheduleIfNotDue pg e lid w =
     (case GetLogByID pg (pe_reload e) (w_db w) lid of
        Inl err \<Rightarrow> w
      | Inr cur \<Rightarrow>
         (if D_Status cur \<noteq> StatusPending then w
          else case D_NextRetryAt cur of
            None \<Rightarrow> w
          | Some when \<Rightarrow>
             (if when > pe_reload_now e
              then w\<lparr>w_redis := snd (Schedule (pe_zadd e) lid when (w_redis w))\<rparr> else w)))"

section \<open>Failure handling\<close>

definition handleFailure ::
  "pgsql \<Rightarrow> DelivererConfig \<Rightarrow> penv \<Rightarrow> DeliveryLog \<Rightarrow> int option \<Rightarrow> string \<Rightarrow> world \<Rightarrow> unit result \<times> world" where
  "handleFailure pg cfg e lg st errDetail w =
     (if D_AttemptNumber lg < MaxRetryAttempts cfg then
        (let nextAt = pe_done_now e + retryDelay (pe_rnd e) (D_AttemptNumber lg) (RetryBaseDelay cfg) (RetryMaxDelay cfg) in
         case FailAndScheduleRetry pg (pe_retry e) (w_db w) (D_ID lg) st errDetail nextAt of
           (Inl err, d) \<Rightarrow> (Inl (ErrOther ''deliver: schedule retry''), w\<lparr>w_db := d\<rparr>)
         | (Inr (successorID, won), d) \<Rightarrow>
            (if \<not> won then (Inr (), w\<lparr>w_db := d\<rparr>)
             else (Inr (), w\<lparr>w_db := d, w_redis := snd (Schedule (pe_zadd e) successorID nextAt (w_redis w))\<rparr>)))
      else
        (case RecordFinalFailure pg (SubCfg cfg) (pe_finish e) (w_db w) (D_ID lg) (D_SubscriptionID lg) st errDetail
                (AutoDisableThreshold cfg) (w_sub w) of
           (Inl err, d, s) \<Rightarrow> (Inl (ErrOther ''deliver: finalize failure''), w\<lparr>w_db := d, w_sub := s\<rparr>)
         | (Inr (won, disabled), d, s) \<Rightarrow>
            (Inr (), if won then w\<lparr>w_db := d, w_sub := s, w_redis := snd (PushDLQ (pe_push e) (D_ID lg) (w_redis w))\<rparr>
                     else w\<lparr>w_db := d, w_sub := s\<rparr>)))"

section \<open>Controls\<close>

definition create_breaker :: "DelivererConfig \<Rightarrow> string \<Rightarrow> CircuitBreaker list \<Rightarrow> nat \<times> CircuitBreaker list" where
  "create_breaker cfg k h = (length h, h @ [NewBreaker (BreakerThreshold cfg) (DBreakerResetTimeout cfg)])"

definition breakerFor :: "DelivererConfig \<Rightarrow> time \<Rightarrow> string \<Rightarrow> world \<Rightarrow> nat \<times> world" where
  "breakerFor cfg now url w =
     (case RegGet (create_breaker cfg) now url (w_breakers w) (w_cbs w) of
        (p, reg, h) \<Rightarrow> (p, w\<lparr>w_breakers := reg, w_cbs := h\<rparr>))"

definition semFor :: "DelivererConfig \<Rightarrow> time \<Rightarrow> string \<Rightarrow> world \<Rightarrow> nat \<times> world" where
  "semFor cfg now sid w =
     (case StateSemaphore (SubCfg cfg) now sid (w_sub w) of (p, s) \<Rightarrow> (p, w\<lparr>w_sub := s\<rparr>))"

definition set_sem :: "nat \<Rightarrow> Semaphore \<Rightarrow> world \<Rightarrow> world" where
  "set_sem p x w = w\<lparr>w_sub := (w_sub w)\<lparr>sem_heap := (sem_heap (w_sub w))[p := x]\<rparr>\<rparr>"

definition set_cb :: "nat \<Rightarrow> CircuitBreaker \<Rightarrow> world \<Rightarrow> world" where
  "set_cb p x w = w\<lparr>w_cbs := (w_cbs w)[p := x]\<rparr>"

text \<open>The deferred \<^verbatim>\<open>sem.Release()\<close>; it never blocks here, because the permit was taken.\<close>

definition release_sem :: "nat \<Rightarrow> world \<Rightarrow> world" where
  "release_sem p w =
     (case ReleaseSem (sem_heap (w_sub w) ! p) of None \<Rightarrow> w | Some x \<Rightarrow> set_sem p x w)"

section \<open>Process\<close>

text \<open>With the permit and the breaker's leave: the request, its bookkeeping and its consequence.\<close>

definition deliver ::
  "pgsql \<Rightarrow> DelivererConfig \<Rightarrow> http_env \<Rightarrow> penv \<Rightarrow> DeliveryLog \<Rightarrow> Subscription \<Rightarrow> nat \<Rightarrow> int \<Rightarrow> world \<Rightarrow> unit result \<times> world" where
  "deliver pg cfg h e lg sub cb token w0 =
     (case attempt h e lg sub of
        (st, errDetail, latency, sent) \<Rightarrow>
          (let ok = is_success st;
               w1 = w0\<lparr>w_sent := (case sent of None \<Rightarrow> w_sent w0 | Some r \<Rightarrow> r # w_sent w0),
                       w_metrics := RecordDelivery latency ok (w_metrics w0)\<rparr>;
               w2 = (if ok then set_cb cb (RecordSuccess token (w_cbs w1 ! cb)) w1
                     else set_cb cb (RecordFailure (pe_record_now e) token (w_cbs w1 ! cb)) w1)
           in if ok then
                (case RecordDeliverySuccess pg (SubCfg cfg) (pe_finish e) (w_db w2) (D_ID lg) (S_ID sub) (the st) (w_sub w2) of
                   (Inl err, d, s) \<Rightarrow> (Inl (ErrOther ''deliver: mark success''), w2\<lparr>w_db := d, w_sub := s\<rparr>)
                 | (Inr _, d, s) \<Rightarrow> (Inr (), w2\<lparr>w_db := d, w_sub := s\<rparr>))
              else handleFailure pg cfg e lg st errDetail w2))"

text \<open>With a claimed row and its active subscription.\<close>

definition controlled ::
  "pgsql \<Rightarrow> DelivererConfig \<Rightarrow> http_env \<Rightarrow> penv \<Rightarrow> DeliveryLog \<Rightarrow> Subscription \<Rightarrow> world \<Rightarrow> unit result \<times> world" where
  "controlled pg cfg h e lg sub w0 =
     (case semFor cfg (pe_sem_now e) (S_ID sub) w0 of
        (p, w1) \<Rightarrow>
          (case TryAcquire (sem_heap (w_sub w1) ! p) of
             (False, _) \<Rightarrow> (Inr (), rescheduleNoAttempt pg e (D_ID lg) (pe_now e + concurrencyBackoff) w1)
           | (True, sem) \<Rightarrow>
              (let w2 = set_sem p sem w1 in
               case breakerFor cfg (pe_reg_now e) (D_TargetURL lg) w2 of
                 (q, w3) \<Rightarrow>
                   (case AllowCB (pe_cb_now e) (w_cbs w3 ! q) of
                      ((False, _), cb) \<Rightarrow>
                        (Inr (), release_sem p (rescheduleNoAttempt pg e (D_ID lg)
                           (pe_now e + DBreakerResetTimeout cfg) (set_cb q cb w3)))
                    | ((True, token), cb) \<Rightarrow>
                        (case deliver pg cfg h e lg sub q token (set_cb q cb w3) of
                           (res, w4) \<Rightarrow> (res, release_sem p w4))))))"

definition Process ::
  "pgsql \<Rightarrow> DelivererConfig \<Rightarrow> http_env \<Rightarrow> penv \<Rightarrow> string \<Rightarrow> world \<Rightarrow> unit result \<times> world" where
  "Process pg cfg h e lid w0 =
     (case GetLogByID pg (pe_load e) (w_db w0) lid of
        Inl err \<Rightarrow> (if err = ErrNotFound then (Inr (), w0) else (Inl (ErrOther ''deliver: load log''), w0))
      | Inr lg \<Rightarrow>
         (if D_Status lg \<noteq> StatusPending then (Inr (), w0)
          else case ClaimPending pg (pe_claim e) (w_db w0) (D_ID lg) (VisibilityTimeout cfg) of
            (Inl err, d) \<Rightarrow> (Inl (ErrOther ''deliver: claim''), w0\<lparr>w_db := d\<rparr>)
          | (Inr claimed, d) \<Rightarrow>
             (let w1 = w0\<lparr>w_db := d\<rparr> in
              if \<not> claimed then (Inr (), rescheduleIfNotDue pg e (D_ID lg) w1)
              else case StateGetByID pg (SubCfg cfg) (pe_sub e) (w_db w1) (D_SubscriptionID lg) (w_sub w1) of
                (Inl err, s) \<Rightarrow>
                  (if err = ErrNotFound then (Inr (), w1\<lparr>w_sub := s\<rparr>)
                   else (Inl (ErrOther ''deliver: load subscription''), w1\<lparr>w_sub := s\<rparr>))
              | (Inr sub, s) \<Rightarrow>
                 (let w2 = w1\<lparr>w_sub := s\<rparr> in
                  if \<not> S_IsActive sub then
                    (case MarkDropped pg (pe_drop e) (w_db w2) (D_ID lg) ''subscription deactivated'' of
                       (Inl err, d2) \<Rightarrow> (Inl (ErrOther ''deliver: mark deactivated''), w2\<lparr>w_db := d2\<rparr>)
                     | (Inr _, d2) \<Rightarrow> (Inr (), w2\<lparr>w_db := d2\<rparr>))
                  else controlled pg cfg h e lg sub w2))))"

end
