(* ===== verification/Delivery_Correctness.thy ===== *)
theory Delivery_Correctness
  imports Deliverer
begin

text \<open>
  What a delivery attempt does: to the database it is a run of repository calls, so every invariant of
  the store holds around it; it sends at most one request, only for a row it claimed and an active
  subscription; it gives back its permit and its probe; and each outcome leads to the transition the
  design asks for.
\<close>

section \<open>Database effect\<close>

text \<open>The repository call that ends a claimed attempt.\<close>

inductive ends :: "pgsql \<Rightarrow> penv \<Rightarrow> db \<Rightarrow> db \<Rightarrow> bool" for pg e where
  none: "ends pg e d d"
| drop: "ends pg e d (snd (MarkDropped pg (pe_drop e) d lid err))"
| resched: "ends pg e d (snd (RescheduleSamePending pg (pe_resched e) d lid due_at))"
| retry: "ends pg e d (snd (FailAndScheduleRetry pg (pe_retry e) d lid st err due_at))"
| success: "ends pg e d (snd (MarkSuccess pg (e_call (pe_finish e)) d lid sid code))"
| final: "ends pg e d (snd (FinalizeFailure pg (e_call (pe_finish e)) d lid sid st err th))"

lemma control_db [simp]:
  "w_db (set_sem p x w) = w_db w" "w_db (set_cb q y w) = w_db w" "w_db (release_sem p w) = w_db w"
  "w_db (snd (semFor cfg now sid w)) = w_db w" "w_db (snd (breakerFor cfg now url w)) = w_db w"
  "w_db (rescheduleIfNotDue pg e lid w) = w_db w"
  by (auto simp: set_sem_def set_cb_def release_sem_def semFor_def breakerFor_def rescheduleIfNotDue_def
      split: option.splits prod.splits sum.splits if_splits)

lemma rescheduleNoAttempt_db [simp]:
  "w_db (rescheduleNoAttempt pg e lid t w) = snd (RescheduleSamePending pg (pe_resched e) (w_db w) lid t)"
  by (auto simp: rescheduleNoAttempt_def split: prod.splits sum.splits)

lemma Record_db:
  "fst (snd (RecordDeliverySuccess pg cfg e d lid sid st s)) = snd (MarkSuccess pg (e_call e) d lid sid st)"
  "fst (snd (RecordFinalFailure pg cfg e d lid sid st' err th s)) = snd (FinalizeFailure pg (e_call e) d lid sid st' err th)"
  by (auto simp: RecordDeliverySuccess_def RecordFinalFailure_def Let_def split: prod.splits sum.splits)

lemma handleFailure_ends: "ends pg e (w_db w) (w_db (snd (handleFailure pg cfg e lg st err w)))"
proof (cases "D_AttemptNumber lg < MaxRetryAttempts cfg")
  case True
  let ?t = "pe_done_now e + retryDelay (pe_rnd e) (D_AttemptNumber lg) (RetryBaseDelay cfg) (RetryMaxDelay cfg)"
  have "w_db (snd (handleFailure pg cfg e lg st err w)) =
      snd (FailAndScheduleRetry pg (pe_retry e) (w_db w) (D_ID lg) st err ?t)"
    using True by (auto simp: handleFailure_def Let_def split: prod.splits sum.splits)
  then show ?thesis by (simp only: ends.retry)
next
  case False
  have "w_db (snd (handleFailure pg cfg e lg st err w)) = fst (snd (RecordFinalFailure pg (SubCfg cfg) (pe_finish e)
      (w_db w) (D_ID lg) (D_SubscriptionID lg) st err (AutoDisableThreshold cfg) (w_sub w)))"
    using False by (auto simp: handleFailure_def split: prod.splits sum.splits)
  then show ?thesis by (simp only: Record_db ends.final)
qed

lemma deliver_ends: "ends pg e (w_db w) (w_db (snd (deliver pg cfg h e lg sub q token w)))"
proof -
  obtain st err lat sent where a: "attempt h e lg sub = (st, err, lat, sent)" by (cases "attempt h e lg sub") auto
  show ?thesis
  proof (cases "is_success st")
    case True
    let ?w1 = "w\<lparr>w_sent := (case sent of None \<Rightarrow> w_sent w | Some r \<Rightarrow> r # w_sent w), w_metrics := RecordDelivery lat True (w_metrics w)\<rparr>"
    let ?w2 = "set_cb q (RecordSuccess token (w_cbs ?w1 ! q)) ?w1"
    have "w_db (snd (deliver pg cfg h e lg sub q token w)) = fst (snd (RecordDeliverySuccess pg (SubCfg cfg) (pe_finish e)
        (w_db ?w2) (D_ID lg) (S_ID sub) (the st) (w_sub ?w2)))"
      using True by (auto simp: deliver_def a Let_def split: prod.splits sum.splits)
    then show ?thesis by (simp add: Record_db ends.success)
  next
    case False
    let ?w1 = "w\<lparr>w_sent := (case sent of None \<Rightarrow> w_sent w | Some r \<Rightarrow> r # w_sent w), w_metrics := RecordDelivery lat False (w_metrics w)\<rparr>"
    have "deliver pg cfg h e lg sub q token w =
        handleFailure pg cfg e lg st err (set_cb q (RecordFailure (pe_record_now e) token (w_cbs ?w1 ! q)) ?w1)"
      using False by (simp add: deliver_def a Let_def)
    then show ?thesis using handleFailure_ends [of pg e "set_cb q (RecordFailure (pe_record_now e) token (w_cbs ?w1 ! q)) ?w1"]
      by simp
  qed
qed

lemma controlled_ends: "ends pg e (w_db w) (w_db (snd (controlled pg cfg h e lg sub w)))"
proof -
  obtain p w1 where s: "semFor cfg (pe_sem_now e) (S_ID sub) w = (p, w1)" by fastforce
  have w1: "w_db w1 = w_db w" using control_db(4) [of cfg "pe_sem_now e" "S_ID sub" w] s by simp
  obtain ok sem where t: "TryAcquire (sem_heap (w_sub w1) ! p) = (ok, sem)" by fastforce
  obtain q w3 where b: "breakerFor cfg (pe_reg_now e) (D_TargetURL lg) (set_sem p sem w1) = (q, w3)" by fastforce
  have w3: "w_db w3 = w_db w" using control_db(5) [of cfg "pe_reg_now e" "D_TargetURL lg" "set_sem p sem w1"] b w1 by simp
  obtain al token cb where a: "AllowCB (pe_cb_now e) (w_cbs w3 ! q) = ((al, token), cb)" by (metis prod.collapse)
  obtain res w4 where d: "deliver pg cfg h e lg sub q token (set_cb q cb w3) = (res, w4)" by fastforce
  have "w_db (snd (controlled pg cfg h e lg sub w)) =
      (if \<not> ok then snd (RescheduleSamePending pg (pe_resched e) (w_db w) (D_ID lg) (pe_now e + concurrencyBackoff))
       else if \<not> al then snd (RescheduleSamePending pg (pe_resched e) (w_db w) (D_ID lg) (pe_now e + DBreakerResetTimeout cfg))
       else w_db w4)"
    using s t b a d w1 w3 by (simp add: controlled_def Let_def split: bool.splits)
  moreover have "ends pg e (w_db w) (w_db w4)"
    using deliver_ends [of pg e "set_cb q cb w3" cfg h lg sub q token] d w3 by simp
  ultimately show ?thesis by (simp add: ends.resched)
qed

lemma Process_ends:
  "w_db (snd (Process pg cfg h e lid w)) = w_db w \<or>
   (\<exists>i. ends pg e (snd (ClaimPending pg (pe_claim e) (w_db w) i (VisibilityTimeout cfg)))
          (w_db (snd (Process pg cfg h e lid w))))"
proof (cases "GetLogByID pg (pe_load e) (w_db w) lid")
  case (Inl err)
  then show ?thesis by (simp add: Process_def)
next
  case (Inr lg)
  obtain cl d where c: "ClaimPending pg (pe_claim e) (w_db w) (D_ID lg) (VisibilityTimeout cfg) = (cl, d)" by fastforce
  let ?w1 = "w\<lparr>w_db := d\<rparr>"
  obtain r s where g: "StateGetByID pg (SubCfg cfg) (pe_sub e) d (D_SubscriptionID lg) (w_sub w) = (r, s)" by fastforce
  have "ends pg e d (w_db (snd (Process pg cfg h e lid w)))" if "D_Status lg = StatusPending"
  proof (cases cl)
    case (Inl er)
    then show ?thesis using Inr c that by (simp add: Process_def none)
  next
    case claimed: (Inr b)
    show ?thesis
    proof (cases b)
      case False
      then show ?thesis using Inr c that claimed by (simp add: Process_def none)
    next
      case True
      note h = Inr c that claimed True g
      show ?thesis
      proof (cases r)
        case (Inl er)
        then show ?thesis using h by (simp add: Process_def Let_def none)
      next
        case sub: (Inr sub)
        show ?thesis
        proof (cases "S_IsActive sub")
          case True
          then show ?thesis using h sub controlled_ends [of pg e "?w1\<lparr>w_sub := s\<rparr>" cfg] by (simp add: Process_def Let_def)
        next
          case False
          have "w_db (snd (Process pg cfg h e lid w)) = snd (MarkDropped pg (pe_drop e) d (D_ID lg) ''subscription deactivated'')"
            using False h sub by (auto simp: Process_def Let_def split: prod.splits sum.splits)
          then show ?thesis by (simp only: ends.drop)
        qed
      qed
    qed
  qed
  moreover have "w_db (snd (Process pg cfg h e lid w)) = w_db w" if "D_Status lg \<noteq> StatusPending"
    using Inr that by (simp add: Process_def)
  moreover have "snd (ClaimPending pg (pe_claim e) (w_db w) (D_ID lg) (VisibilityTimeout cfg)) = d" by (simp add: c)
  ultimately show ?thesis by metis
qed

text \<open>The clock readings of the calls do not run backwards and new rows get canonical ids.\<close>

definition penv_ok :: "pgsql \<Rightarrow> time \<Rightarrow> penv \<Rightarrow> bool" where
  "penv_ok pg t e \<longleftrightarrow> call_ok pg t (pe_claim e) \<and> call_ok pg (c_now (pe_claim e)) (pe_drop e)
     \<and> call_ok pg (c_now (pe_claim e)) (pe_resched e) \<and> call_ok pg (c_now (pe_claim e)) (pe_retry e)
     \<and> call_ok pg (c_now (pe_claim e)) (e_call (pe_finish e))"

lemma ends_run:
  assumes "ends pg e d d'" and "penv_ok pg t e"
  shows "\<exists>t'. (db_step pg jv)\<^sup>*\<^sup>* (c_now (pe_claim e), d) (t', d')"
proof -
  let ?t = "c_now (pe_claim e)"
  have ok: "call_ok pg ?t (pe_drop e)" "call_ok pg ?t (pe_resched e)" "call_ok pg ?t (pe_retry e)"
    "call_ok pg ?t (e_call (pe_finish e))" using assms(2) by (simp_all add: penv_ok_def)
  note steps = drop_row [OF ok(1)] reschedule [OF ok(2)] db_step.retry [OF ok(3)] db_step.success [OF ok(4)] finalize [OF ok(4)]
  from assms(1) show ?thesis by cases (blast intro: steps r_into_rtranclp)+
qed

text \<open>Processing a task is a run of the store: whatever fails on the way, the database after
  \<open>Process\<close> is reached from the one before by repository calls, so each guarantee of the store's runs
  holds around every delivery.\<close>

theorem process_is_store_run:
  assumes "penv_ok pg t e"
  shows "\<exists>t'. (db_step pg jv)\<^sup>*\<^sup>* (t, w_db w) (t', w_db (snd (Process pg cfg h e lid w)))"
  using Process_ends [of pg cfg h e lid w]
proof (elim disjE exE)
  assume "w_db (snd (Process pg cfg h e lid w)) = w_db w"
  then show ?thesis by auto
next
  fix i assume en: "ends pg e (snd (ClaimPending pg (pe_claim e) (w_db w) i (VisibilityTimeout cfg)))
          (w_db (snd (Process pg cfg h e lid w)))"
  from ends_run [OF this assms] obtain t' where "(db_step pg jv)\<^sup>*\<^sup>*
      (c_now (pe_claim e), snd (ClaimPending pg (pe_claim e) (w_db w) i (VisibilityTimeout cfg)))
      (t', w_db (snd (Process pg cfg h e lid w)))" by blast
  moreover have "db_step pg jv (t, w_db w) (c_now (pe_claim e), snd (ClaimPending pg (pe_claim e) (w_db w) i (VisibilityTimeout cfg)))"
    using assms by (intro claim) (simp add: penv_ok_def)
  ultimately show ?thesis by (meson converse_rtranclp_into_rtranclp)
qed

text \<open>A world with the demonstration database, everything else new.\<close>

definition demo_dcfg :: DelivererConfig where
  "demo_dcfg = \<lparr>VisibilityTimeout = 30 * second, MaxRetryAttempts = 2, RetryBaseDelay = second, RetryMaxDelay = 60 * second,
     DBreakerResetTimeout = 10 * second, AutoDisableThreshold = 3, BreakerThreshold = 2,
     SubCfg = \<lparr>CacheTTL = 60, RegistryIdleTTL = 100, RateLimitPerSec = 1, RateLimitBurst = 2, ConcurrencyLimit = 1\<rparr>\<rparr>"

definition demo_world :: world where
  "demo_world = \<lparr>w_db = demo_db3, w_redis = empty_redis, w_sub = NewState (SubCfg demo_dcfg),
     w_breakers = NewRegistry 100, w_cbs = [], w_metrics = NewCollector 0, w_sent = []\<rparr>"

definition demo_penv :: penv where
  "demo_penv = (let c = ok_call 6 ''c''; s = \<lparr>e_call = c, e_now = 6, e_get = Done, e_set = Done, e_del = Done\<rparr> in
     \<lparr>pe_load = c, pe_claim = c, pe_reload = c, pe_reload_now = 6, pe_sub = s, pe_drop = c, pe_sem_now = 6, pe_reg_now = 6, pe_cb_now = 6, pe_now = 6, pe_resched = c,
      pe_sign_now = 6, pe_latency = 1, pe_record_now = 7, pe_done_now = 7, pe_finish = s, pe_retry = c, pe_rnd = (\<lambda>_. 0),
      pe_zadd = Done, pe_push = Done\<rparr>)"

definition demo_http :: "int \<Rightarrow> http_env" where
  "demo_http st = \<lparr>h_canon = Inr, h_newreq = (\<lambda>_. None), h_mac = (\<lambda>k m. k @ m), h_do = (\<lambda>_. HttpResponse st [])\<rparr>"

lemma demo_penv_ok: "penv_ok plain_pg 3 demo_penv"
  by (simp add: penv_ok_def demo_penv_def Let_def demo_call_ok)

theorem process_is_store_run_witness:
  "\<exists>t'. (db_step plain_pg (\<lambda>_. True))\<^sup>*\<^sup>* (3, demo_db3)
     (t', w_db (snd (Process plain_pg demo_dcfg (demo_http 503) demo_penv ''b'' demo_world)))"
  using process_is_store_run [OF demo_penv_ok, of "\<lambda>_. True" demo_world demo_dcfg "demo_http 503" "''b''"]
  by (simp add: demo_world_def)

section \<open>What is sent\<close>

lemma control_sent [simp]:
  "w_sent (set_sem p x w) = w_sent w" "w_sent (set_cb q y w) = w_sent w" "w_sent (release_sem p w) = w_sent w"
  "w_sent (rescheduleIfNotDue pg e lid w) = w_sent w" "w_sent (rescheduleNoAttempt pg e lid t w) = w_sent w"
  "w_sent (snd (handleFailure pg cfg e lg st err w)) = w_sent w"
  by (auto simp: set_sem_def set_cb_def release_sem_def rescheduleIfNotDue_def rescheduleNoAttempt_def handleFailure_def Let_def
      split: option.splits prod.splits sum.splits if_splits)

lemma controls_sent: "semFor cfg now sid w = (p, w1) \<Longrightarrow> w_sent w1 = w_sent w"
  "breakerFor cfg now url w = (q, w1) \<Longrightarrow> w_sent w1 = w_sent w"
  by (auto simp: semFor_def breakerFor_def split: prod.splits)

lemma attempt_sent:
  "attempt h e lg sub = (st, err, lat, Some r) \<Longrightarrow>
    \<exists>canonical. h_canon h (D_Payload lg) = Inr canonical
      \<and> r = build_request h (Itoa (pe_sign_now e div second)) canonical lg sub"
  by (auto simp: attempt_def Let_def split: sum.splits option.splits http_outcome.splits if_splits)

lemma deliver_sent:
  assumes "attempt h e lg sub = (st, err, lat, sent)"
  shows "w_sent (snd (deliver pg cfg h e lg sub q token w)) = (case sent of None \<Rightarrow> [] | Some r \<Rightarrow> [r]) @ w_sent w"
  using assms by (auto simp: deliver_def Let_def split: prod.splits sum.splits option.splits)

definition signed_request :: "http_env \<Rightarrow> penv \<Rightarrow> DeliveryLog \<Rightarrow> Subscription \<Rightarrow> request \<Rightarrow> bool" where
  "signed_request h e lg sub r \<longleftrightarrow> (\<exists>canonical. h_canon h (D_Payload lg) = Inr canonical
     \<and> r = build_request h (Itoa (pe_sign_now e div second)) canonical lg sub)"

lemma controlled_sent:
  "w_sent (snd (controlled pg cfg h e lg sub w)) = w_sent w
   \<or> (\<exists>r. signed_request h e lg sub r \<and> w_sent (snd (controlled pg cfg h e lg sub w)) = r # w_sent w)"
proof -
  obtain st err lat sent where a: "attempt h e lg sub = (st, err, lat, sent)" by (cases "attempt h e lg sub") auto
  have d: "w_sent w4 = (case sent of None \<Rightarrow> [] | Some r \<Rightarrow> [r]) @ w_sent w0"
    if "deliver pg cfg h e lg sub q token w0 = (x, w4)" for q token w0 x w4
    using deliver_sent [OF a, of pg cfg q token w0] that by simp
  have "w_sent (snd (controlled pg cfg h e lg sub w)) = w_sent w
      \<or> w_sent (snd (controlled pg cfg h e lg sub w)) = (case sent of None \<Rightarrow> [] | Some r \<Rightarrow> [r]) @ w_sent w"
    by (auto simp: controlled_def Let_def split: prod.splits bool.splits dest!: d controls_sent)
  then show ?thesis using attempt_sent [of h e lg sub st err lat] a
    by (cases sent) (auto simp: signed_request_def)
qed

lemma controlled_sends:
  "w_sent (snd (controlled pg cfg h e lg sub (w\<lparr>w_db := d, w_sub := s\<rparr>))) \<noteq> w_sent w \<Longrightarrow>
    \<exists>r. signed_request h e lg sub r
      \<and> w_sent (snd (controlled pg cfg h e lg sub (w\<lparr>w_db := d, w_sub := s\<rparr>))) = r # w_sent w"
  using controlled_sent [of pg cfg h e lg sub "w\<lparr>w_db := d, w_sub := s\<rparr>"] by simp

text \<open>C4. Only claimed work is sent, once and signed: when \<open>Process\<close> sends anything, it sends one request,
  it loaded the row as pending, won its claim, and read an active subscription; the request goes to the
  row's target with the row's webhook id, delivery id and attempt number, its body is the canonical form
  of the stored payload, and the signature header verifies with the subscription's current secret over
  the timestamp header and that body.\<close>

theorem process_sends_claimed:
  assumes "w_sent (snd (Process pg cfg h e lid w)) \<noteq> w_sent w"
  shows "\<exists>lg d sub s r ts. GetLogByID pg (pe_load e) (w_db w) lid = Inr lg \<and> D_Status lg = StatusPending
    \<and> ClaimPending pg (pe_claim e) (w_db w) (D_ID lg) (VisibilityTimeout cfg) = (Inr True, d)
    \<and> StateGetByID pg (SubCfg cfg) (pe_sub e) d (D_SubscriptionID lg) (w_sub w) = (Inr sub, s) \<and> S_IsActive sub
    \<and> w_sent (snd (Process pg cfg h e lid w)) = r # w_sent w
    \<and> rq_url r = D_TargetURL lg \<and> h_canon h (D_Payload lg) = Inr (rq_body r)
    \<and> map_of (rq_headers r) ''X-Webhook-ID'' = Some (D_WebhookID lg)
    \<and> map_of (rq_headers r) ''X-Webhook-Delivery-ID'' = Some (D_ID lg)
    \<and> map_of (rq_headers r) ''X-Delivery-Attempt'' = Some (Itoa (D_AttemptNumber lg))
    \<and> map_of (rq_headers r) ''Webhook-Timestamp'' = Some ts
    \<and> (\<exists>sig. map_of (rq_headers r) ''X-Hub-Signature-256'' = Some sig
         \<and> Verify (h_mac h) (BuildMessage ts [] (rq_body r)) (S_SecretKey sub) sig)"
proof -
  have "\<exists>lg d sub s r. GetLogByID pg (pe_load e) (w_db w) lid = Inr lg \<and> D_Status lg = StatusPending
    \<and> ClaimPending pg (pe_claim e) (w_db w) (D_ID lg) (VisibilityTimeout cfg) = (Inr True, d)
    \<and> StateGetByID pg (SubCfg cfg) (pe_sub e) d (D_SubscriptionID lg) (w_sub w) = (Inr sub, s) \<and> S_IsActive sub
    \<and> signed_request h e lg sub r \<and> w_sent (snd (Process pg cfg h e lid w)) = r # w_sent w"
    using assms by (auto simp: Process_def Let_def split: prod.splits sum.splits if_splits dest: controlled_sends)
  then show ?thesis
    by (fastforce simp: signed_request_def build_request_def Verify_def)
qed

theorem process_sends_claimed_witness:
  "\<exists>lg. GetLogByID plain_pg (ok_call 6 ''c'') demo_db3 ''b'' = Inr lg \<and> D_AttemptNumber lg = 2
    \<and> rq_url (hd (w_sent (snd (Process plain_pg demo_dcfg (demo_http 503) demo_penv ''b'' demo_world)))) = D_TargetURL lg"
proof -
  have s: "length (w_sent (snd (Process plain_pg demo_dcfg (demo_http 503) demo_penv ''b'' demo_world))) = 1" by code_simp
  moreover have "w_sent demo_world = []" by (simp add: demo_world_def)
  ultimately have "w_sent (snd (Process plain_pg demo_dcfg (demo_http 503) demo_penv ''b'' demo_world)) \<noteq> w_sent demo_world"
    by auto
  from process_sends_claimed [OF this] obtain lg r where
    "GetLogByID plain_pg (pe_load demo_penv) (w_db demo_world) ''b'' = Inr lg" "rq_url r = D_TargetURL lg"
    "w_sent (snd (Process plain_pg demo_dcfg (demo_http 503) demo_penv ''b'' demo_world)) = r # w_sent demo_world"
    by blast
  moreover have "map_sum id D_AttemptNumber (GetLogByID plain_pg (pe_load demo_penv) (w_db demo_world) ''b'') = Inr 2"
    by code_simp
  moreover have "pe_load demo_penv = ok_call 6 ''c''" "w_db demo_world = demo_db3"
    by (simp_all add: demo_penv_def Let_def demo_world_def)
  ultimately show ?thesis by simp
qed

section \<open>Permits and probes\<close>

text \<open>References of a registry point into its object store.\<close>

definition refs_below :: "nat Registry \<Rightarrow> nat \<Rightarrow> bool" where
  "refs_below r n \<longleftrightarrow> (\<forall>(k, s) \<in> set (items r). val s < n)"

lemma RegGet_append:
  assumes "refs_below r (length h)" and "\<And>k h. create k h = (length h, h @ [x])"
  shows "\<exists>n. snd (snd (RegGet create now key r h)) = h @ replicate n x
    \<and> fst (RegGet create now key r h) < length (h @ replicate n x)"
proof (cases "map_of (items r) key")
  case None
  then show ?thesis by (auto simp: RegGet_def assms(2) intro: exI [of _ 1])
next
  case (Some s)
  then have "val s < length h" using assms(1) by (auto simp: refs_below_def dest: map_of_SomeD)
  then show ?thesis using Some by (auto simp: RegGet_found intro: exI [of _ 0])
qed

lemma markDirty_heap [simp]:
  "sem_heap (markDirty cfg t i s) = sem_heap s" "sem_heap (clearDirty i s) = sem_heap s"
  "sem_heap (evictLocked cfg e i s) = sem_heap s" "sem_heap (resetRuntime i s) = sem_heap s"
  "ss_semaphores (markDirty cfg t i s) = ss_semaphores s" "ss_semaphores (clearDirty i s) = ss_semaphores s"
  by (auto simp: markDirty_def clearDirty_def evictLocked_def cache_del_def resetRuntime_def split: prod.splits bool.splits)

lemma StateGetByID_heap:
  "StateGetByID pg cfg e d i s = (r, s') \<Longrightarrow> sem_heap s' = sem_heap s \<and> ss_semaphores s' = ss_semaphores s"
  by (auto simp: StateGetByID_def refreshSub_def isDirty_def cache_del_def cache_set_def
      split: prod.splits sum.splits option.splits cache_read.splits if_splits bool.splits)

lemma Record_heap:
  "RecordDeliverySuccess pg cfg e d lid sid st s = (r, d', s') \<Longrightarrow> sem_heap s' = sem_heap s"
  "RecordFinalFailure pg cfg e d lid sid st' err th s = (r', d', s') \<Longrightarrow> sem_heap s' = sem_heap s"
  by (auto simp: RecordDeliverySuccess_def RecordFinalFailure_def Let_def split: prod.splits sum.splits if_splits)

text \<open>The part of the world that holds permits and breakers.\<close>

definition shared :: "world \<Rightarrow> Semaphore list \<times> CircuitBreaker list" where
  "shared w = (sem_heap (w_sub w), w_cbs w)"

lemma shared_simps [simp]:
  "shared (w\<lparr>w_db := d\<rparr>) = shared w" "shared (w\<lparr>w_redis := r\<rparr>) = shared w" "shared (w\<lparr>w_sent := l\<rparr>) = shared w"
  "shared (w\<lparr>w_metrics := m\<rparr>) = shared w" "sem_heap s = sem_heap (w_sub w) \<Longrightarrow> shared (w\<lparr>w_sub := s\<rparr>) = shared w"
  "shared (set_sem p x w) = ((fst (shared w))[p := x], snd (shared w))"
  "shared (set_cb q y w) = (fst (shared w), (snd (shared w))[q := y])"
  by (simp_all add: shared_def set_sem_def set_cb_def)

lemma shared_ops [simp]:
  "shared (rescheduleNoAttempt pg e lid t w) = shared w" "shared (rescheduleIfNotDue pg e lid w) = shared w"
  "shared (snd (handleFailure pg cfg e lg st err w)) = shared w"
  by (auto simp: rescheduleNoAttempt_def rescheduleIfNotDue_def handleFailure_def Let_def shared_def
      split: option.splits prod.splits sum.splits if_splits dest: Record_heap)

lemma handleFailure_shared:
  "sem_heap (w_sub (snd (handleFailure pg cfg e lg st err w))) = sem_heap (w_sub w)"
  "w_cbs (snd (handleFailure pg cfg e lg st err w)) = w_cbs w"
  using shared_ops(3) [of pg cfg e lg st err w] by (simp_all add: shared_def)

lemma release_after_acquire:
  assumes "TryAcquire (h ! p) = (True, x)" and "p < length h" and "fst (shared w) = h[p := x]"
  shows "shared (release_sem p w) = (h, snd (shared w))"
proof -
  have "sem_heap (w_sub w) ! p = x" using assms(2,3) by (simp add: shared_def)
  then show ?thesis using acquire_release [OF assms(1)] assms(2,3) by (simp add: release_sem_def)
qed

lemma deliver_shared:
  "shared (snd (deliver pg cfg h e lg sub q token w)) =
    (fst (shared w), (snd (shared w))[q :=
       (if is_success (fst (attempt h e lg sub)) then RecordSuccess token (snd (shared w) ! q)
        else RecordFailure (pe_record_now e) token (snd (shared w) ! q))])"
proof -
  obtain st err lat sent where a: "attempt h e lg sub = (st, err, lat, sent)" by (cases "attempt h e lg sub") auto
  show ?thesis
    by (auto simp: deliver_def a Let_def shared_def set_cb_def handleFailure_shared
        split: prod.splits sum.splits dest: Record_heap)
qed

lemma record_settles:
  assumes "AllowCB now cb = ((True, g), cb')"
  shows "cb_state (RecordSuccess g cb') \<noteq> stateHalfOpen" "cb_state (RecordFailure t g cb') \<noteq> stateHalfOpen"
  using assms by (auto simp: AllowCB_def RecordSuccess_def RecordFailure_def Let_def split: cb_state.splits if_splits)

lemma semFor_shared:
  assumes "semFor cfg now sid w = (p, w1)" and "refs_below (ss_semaphores (w_sub w)) (length (sem_heap (w_sub w)))"
  shows "\<exists>n. shared w1 = (fst (shared w) @ replicate n (NewSemaphore (ConcurrencyLimit (SubCfg cfg))), snd (shared w))
    \<and> p < length (fst (shared w1))" and "w_breakers w1 = w_breakers w"
proof -
  from RegGet_append [OF assms(2), of "create_sem (SubCfg cfg)" "NewSemaphore (ConcurrencyLimit (SubCfg cfg))" now sid]
  show "\<exists>n. shared w1 = (fst (shared w) @ replicate n (NewSemaphore (ConcurrencyLimit (SubCfg cfg))), snd (shared w))
    \<and> p < length (fst (shared w1))"
    using assms(1) by (auto simp: semFor_def StateSemaphore_def create_sem_def shared_def split: prod.splits)
  show "w_breakers w1 = w_breakers w" using assms(1) by (auto simp: semFor_def split: prod.splits)
qed

lemma breakerFor_shared:
  assumes "breakerFor cfg now url w = (q, w1)" and "refs_below (w_breakers w) (length (w_cbs w))"
  shows "\<exists>n. shared w1 = (fst (shared w), snd (shared w) @ replicate n (NewBreaker (BreakerThreshold cfg) (DBreakerResetTimeout cfg)))
    \<and> q < length (snd (shared w1))"
  using RegGet_append [OF assms(2), of "create_breaker cfg" "NewBreaker (BreakerThreshold cfg) (DBreakerResetTimeout cfg)" now url]
    assms(1) by (auto simp: breakerFor_def create_breaker_def shared_def split: prod.splits)

text \<open>Half-open breakers after the step were half-open before it.\<close>

definition no_new_probe :: "CircuitBreaker list \<Rightarrow> CircuitBreaker list \<Rightarrow> bool" where
  "no_new_probe cbs cbs' \<longleftrightarrow>
     (\<forall>q < length cbs'. cb_state (cbs' ! q) = stateHalfOpen \<longrightarrow> q < length cbs \<and> cb_state (cbs ! q) = stateHalfOpen)"

lemma no_new_probe_refl: "no_new_probe cbs cbs"
  by (simp add: no_new_probe_def)

lemma no_new_probe_append: "no_new_probe cbs (cbs @ replicate n (NewBreaker th reset))"
  by (auto simp: no_new_probe_def nth_append NewBreaker_def)

lemma no_new_probe_update:
  "no_new_probe cbs cbs' \<Longrightarrow> cb_state x \<noteq> stateHalfOpen \<Longrightarrow> no_new_probe cbs (cbs'[q := x])"
  by (cases "q < length cbs'") (auto simp: no_new_probe_def nth_list_update split: if_splits)

lemma controlled_gives_back:
  assumes "refs_below (ss_semaphores (w_sub w)) (length (sem_heap (w_sub w)))" and "refs_below (w_breakers w) (length (w_cbs w))"
  shows "\<exists>n. fst (shared (snd (controlled pg cfg h e lg sub w))) =
      fst (shared w) @ replicate n (NewSemaphore (ConcurrencyLimit (SubCfg cfg)))
    \<and> no_new_probe (snd (shared w)) (snd (shared (snd (controlled pg cfg h e lg sub w))))"
proof -
  obtain p w1 where s: "semFor cfg (pe_sem_now e) (S_ID sub) w = (p, w1)" by fastforce
  from semFor_shared [OF s assms(1)] obtain n where
    w1: "shared w1 = (fst (shared w) @ replicate n (NewSemaphore (ConcurrencyLimit (SubCfg cfg))), snd (shared w))"
      "p < length (fst (shared w1))" "w_breakers w1 = w_breakers w" by blast
  obtain ok sem where t: "TryAcquire (sem_heap (w_sub w1) ! p) = (ok, sem)" by fastforce
  let ?w2 = "set_sem p sem w1"
  obtain q w3 where b: "breakerFor cfg (pe_reg_now e) (D_TargetURL lg) ?w2 = (q, w3)" by fastforce
  have "refs_below (w_breakers ?w2) (length (w_cbs ?w2))" using assms(2) w1 by (simp add: set_sem_def shared_def)
  from breakerFor_shared [OF b this] obtain m where
    w3: "shared w3 = ((fst (shared w1))[p := sem], snd (shared w) @ replicate m (NewBreaker (BreakerThreshold cfg) (DBreakerResetTimeout cfg)))"
      "q < length (snd (shared w3))" using w1 by auto
  obtain al token cb where a: "AllowCB (pe_cb_now e) (w_cbs w3 ! q) = ((al, token), cb)" by (metis prod.collapse)
  obtain res w4 where d: "deliver pg cfg h e lg sub q token (set_cb q cb w3) = (res, w4)" by fastforce
  let ?w5 = "rescheduleNoAttempt pg e (D_ID lg) (pe_now e + DBreakerResetTimeout cfg) (set_cb q cb w3)"
  have out: "snd (controlled pg cfg h e lg sub w) =
      (if \<not> ok then rescheduleNoAttempt pg e (D_ID lg) (pe_now e + concurrencyBackoff) w1
       else if al then release_sem p w4 else release_sem p ?w5)"
    using s t b a d by (simp add: controlled_def Let_def split: bool.splits)
  have probe: "no_new_probe (snd (shared w)) (snd (shared w3))" using w3 by (simp add: no_new_probe_append)
  have acq: "TryAcquire (fst (shared w1) ! p) = (ok, sem)" using t by (simp add: shared_def)
  consider "\<not> ok" | "ok" "al" | "ok" "\<not> al" by blast
  then show ?thesis
  proof cases
    case 1
    then show ?thesis using out w1 by (auto simp: no_new_probe_refl)
  next
    case 2
    have w4: "shared w4 = (fst (shared w3), (snd (shared w3))[q :=
       (if is_success (fst (attempt h e lg sub)) then RecordSuccess token cb else RecordFailure (pe_record_now e) token cb)])"
      using deliver_shared [of pg cfg h e lg sub q token "set_cb q cb w3"] d w3(2) by (auto split: if_splits)
    have "shared (release_sem p w4) = (fst (shared w1), snd (shared w4))"
      using acq 2 w1(2) w3(1) w4 by (intro release_after_acquire) auto
    moreover have "no_new_probe (snd (shared w)) (snd (shared w4))"
      using probe record_settles a 2 by (auto simp: w4 intro!: no_new_probe_update)
    ultimately show ?thesis using out 2 w1 by auto
  next
    case 3
    have "cb = snd (shared w3) ! q" using a 3 AllowCB_denied by (simp add: shared_def)
    then have w5: "shared ?w5 = shared w3" by simp
    have "shared (release_sem p ?w5) = (fst (shared w1), snd (shared ?w5))"
      by (rule release_after_acquire) (use acq 3 w1(2) w3(1) in \<open>simp_all add: w5 del: shared_simps shared_ops\<close>)
    then have "shared (release_sem p ?w5) = (fst (shared w1), snd (shared w3))" by (simp only: w5)
    then show ?thesis using out 3 w1 probe by auto
  qed
qed

text \<open>Nothing is leaked: after \<open>Process\<close> returns, by whatever path, every semaphore holds the permits it
  held before (new ones hold none), and no breaker has been left half-open with its probe unreported, so
  neither a concurrency slot nor a probe token can be lost to an early return or a failed call.\<close>

theorem process_gives_back:
  assumes "refs_below (ss_semaphores (w_sub w)) (length (sem_heap (w_sub w)))" and "refs_below (w_breakers w) (length (w_cbs w))"
    and "Process pg cfg h e lid w = (res, w')"
  shows "\<exists>n. sem_heap (w_sub w') = sem_heap (w_sub w) @ replicate n (NewSemaphore (ConcurrencyLimit (SubCfg cfg)))
    \<and> no_new_probe (w_cbs w) (w_cbs w')"
proof -
  have "shared w' = shared w \<or> (\<exists>lg sub d s. controlled pg cfg h e lg sub (w\<lparr>w_db := d, w_sub := s\<rparr>) = (res, w')
      \<and> sem_heap s = sem_heap (w_sub w) \<and> ss_semaphores s = ss_semaphores (w_sub w))"
    using assms(3) by (auto simp: Process_def Let_def split: prod.splits sum.splits if_splits dest!: StateGetByID_heap)
  then show ?thesis
  proof (elim disjE exE conjE)
    fix lg sub d s
    assume c: "controlled pg cfg h e lg sub (w\<lparr>w_db := d, w_sub := s\<rparr>) = (res, w')"
      and s: "sem_heap s = sem_heap (w_sub w)" "ss_semaphores s = ss_semaphores (w_sub w)"
    show ?thesis
      using controlled_gives_back [of "w\<lparr>w_db := d, w_sub := s\<rparr>" pg cfg h e lg sub] assms(1,2) c s by (simp add: shared_def)
  qed (auto simp: shared_def no_new_probe_refl)
qed

lemma demo_limit: "ConcurrencyLimit (SubCfg demo_dcfg) = 1"
  by (simp add: demo_dcfg_def)

theorem process_gives_back_witness:
  "\<exists>n. sem_heap (w_sub (snd (Process plain_pg demo_dcfg (demo_http 503) demo_penv ''b'' demo_world)))
    = replicate n (NewSemaphore 1)"
proof -
  have "refs_below (ss_semaphores (w_sub demo_world)) (length (sem_heap (w_sub demo_world)))"
    "refs_below (w_breakers demo_world) (length (w_cbs demo_world))"
    by (simp_all add: demo_world_def refs_below_def NewState_def NewRegistry_def)
  from process_gives_back [OF this surjective_pairing, of plain_pg demo_dcfg "demo_http 503" demo_penv "''b''"] show ?thesis
    using arg_cong [of _ _ "\<lambda>w. sem_heap (w_sub w)", OF demo_world_def] by (auto simp: NewState_def demo_limit)
qed

end
