(* ===== verification/Delivery_Outcomes.thy ===== *)
theory Delivery_Outcomes
  imports Delivery_Correctness
begin

text \<open>
  The consequence of a request that was sent, when the calls around it succeed: a 2xx answer settles the
  attempt, any other outcome schedules the next attempt while the budget lasts and dead-letters the last
  one. Calls that fail instead are covered by \<open>process_is_store_run\<close> and the recovery scan.
\<close>

section \<open>Fault-free transitions of one row\<close>

text \<open>The row an id names, pending in a well-formed database.\<close>

definition pending_at :: "pgsql \<Rightarrow> db \<Rightarrow> string \<Rightarrow> dl_row \<Rightarrow> bool" where
  "pending_at pg d i x \<longleftrightarrow> keyed d_id (delivery_logs d) \<and> uuid_in pg i = Some i \<and> log_by_id d i = Some x \<and> is_pending x"

lemma pending_at_affected:
  "pending_at pg d i x \<Longrightarrow> rows_affected (\<lambda>r. d_id r = i \<and> is_pending r) (delivery_logs d) = 1"
  unfolding pending_at_def using rows_affected_key_1 [of d_id "delivery_logs d" i is_pending] by blast

lemma pending_at_update:
  assumes "pending_at pg d i x" and "\<And>r. d_id (f r) = d_id r"
  shows "lookup_row d_id i (sql_update (\<lambda>r. d_id r = i \<and> is_pending r) f (delivery_logs d)) = Some (f x)"
proof -
  have "d_id x = i" using assms(1) by (auto simp: pending_at_def dest: lookup_row_SomeD)
  then show ?thesis using assms by (simp add: lookup_row_update pending_at_def)
qed

lemma claim_wins:
  assumes "pending_at pg d i x" and "faultless c" and "ClaimPending pg c d i lease = (Inr True, d')"
  shows "pending_at pg d' i (lease_row c lease x) \<and> subscriptions d' = subscriptions d
    \<and> (\<forall>j. log_by_id d' j = None \<longleftrightarrow> log_by_id d j = None)"
proof -
  have d': "d' = d\<lparr>delivery_logs := sql_update (\<lambda>r. d_id r = i \<and> is_pending r \<and> due (c_now c) r) (lease_row c lease) (delivery_logs d)\<rparr>"
    and n: "rows_affected (\<lambda>r. d_id r = i \<and> is_pending r \<and> due (c_now c) r) (delivery_logs d) = 1"
    using assms by (auto simp: ClaimPending_def pool_run_def faultless_def update_log_def pending_at_def split: if_splits)
  have i: "d_id x = i" using assms(1) by (auto simp: pending_at_def dest: lookup_row_SomeD)
  have "due (c_now c) x"
    using n rows_affected_key_1 [of d_id "delivery_logs d" i "\<lambda>r. is_pending r \<and> due (c_now c) r"] assms(1)
    by (auto simp: pending_at_def)
  then show ?thesis
    using assms(1) i by (auto simp: d' pending_at_def lookup_row_update lease_row_def keyed_update)
qed

lemma success_settles:
  assumes "pending_at pg d i x" and "faultless c" and "uuid_in pg sid \<noteq> None"
  shows "\<exists>b d'. MarkSuccess pg c d i sid st = (Inr (True, b), d') \<and> log_by_id d' i = Some (success_row c st x)"
  using assms pending_at_affected [OF assms(1)] pending_at_update [OF assms(1), of "success_row c st"]
  by (auto simp: MarkSuccess_def inTx_faultless mark_success_tx_def tx_run_faultless update_log_def update_sub_def
      pending_at_def)

lemma final_settles:
  assumes "pending_at pg d i x" and "faultless c" and "uuid_in pg sid \<noteq> None"
  shows "\<exists>b d'. FinalizeFailure pg c d i sid st err th = (Inr (True, b), d') \<and> log_by_id d' i = Some (final_row c st err x)"
  using assms pending_at_affected [OF assms(1)] pending_at_update [OF assms(1), of "final_row c st err"]
  by (auto simp: FinalizeFailure_def inTx_faultless finalize_tx_def tx_run_faultless update_log_def update_sub_returning_def
      pending_at_def split: option.splits)

lemma retry_consequence:
  assumes "pending_at pg d i x" and "faultless c" and "log_by_id d (c_uuid c) = None"
    and "sub_by_id d (d_subscription_id x) \<noteq> None"
  shows "\<exists>d'. FailAndScheduleRetry pg c d i st err due_at = (Inr (c_uuid c, True), d')
    \<and> log_by_id d' i = Some (failed_row c st err x) \<and> log_by_id d' (c_uuid c) = Some (successor_row c due_at x)"
proof -
  let ?t = "sql_update (\<lambda>r. d_id r = i \<and> is_pending r) (failed_row c st err) (delivery_logs d)"
  let ?y = "successor_row c due_at x"
  have i: "lookup_row d_id i ?t = Some (failed_row c st err x)" using pending_at_update [OF assms(1)] by simp
  have n: "lookup_row d_id (c_uuid c) ?t = None" using assms(3) by (simp add: lookup_row_update)
  have y: "d_id ?y = c_uuid c" "d_subscription_id ?y = d_subscription_id x" by (simp_all add: successor_row_def)
  have "FailAndScheduleRetry pg c d i st err due_at = (Inr (c_uuid c, True), d\<lparr>delivery_logs := sql_insert ?y ?t\<rparr>)"
    using assms i n y pending_at_affected [OF assms(1)]
    by (auto simp: FailAndScheduleRetry_def inTx_faultless fail_retry_tx_def tx_run_faultless update_log_def insert_from_def
        insert_log_def pending_at_def)
  then show ?thesis using i n y by (simp add: lookup_row_insert)
qed

section \<open>From the request to its consequence\<close>

definition faultless_env :: "penv \<Rightarrow> bool" where
  "faultless_env e \<longleftrightarrow> faultless (pe_load e) \<and> faultless (pe_claim e) \<and> faultless (e_call (pe_finish e))
     \<and> faultless (pe_retry e) \<and> pe_zadd e = Done \<and> pe_push e = Done"

text \<open>When the next attempt is due.\<close>

definition next_due :: "DelivererConfig \<Rightarrow> penv \<Rightarrow> dl_row \<Rightarrow> time" where
  "next_due cfg e x = pe_done_now e + retryDelay (pe_rnd e) (d_attempt_number x) (RetryBaseDelay cfg) (RetryMaxDelay cfg)"

text \<open>What the database and Redis hold after attempt \<open>x\<close> ended with status \<open>st\<close> and error text \<open>err\<close>.\<close>

definition consequence ::
  "DelivererConfig \<Rightarrow> penv \<Rightarrow> dl_row \<Rightarrow> int option \<Rightarrow> string \<Rightarrow> db \<Rightarrow> redis \<Rightarrow> bool" where
  "consequence cfg e x st err d r \<longleftrightarrow> (\<exists>y. log_by_id d (d_id x) = Some y \<and> d_http_status y = st
     \<and> (if is_success st then d_status y = StatusSuccess
        else d_error_details y = nullStr err \<and>
          (if d_attempt_number x < MaxRetryAttempts cfg then d_status y = StatusFailedAttempt
             \<and> (\<exists>z. log_by_id d (c_uuid (pe_retry e)) = Some z \<and> is_pending z \<and> d_webhook_id z = d_webhook_id x
                  \<and> d_payload z = d_payload x \<and> d_attempt_number z = d_attempt_number x + 1
                  \<and> d_next_retry_at z = Some (next_due cfg e x)
                  \<and> (c_uuid (pe_retry e), unixScore (next_due cfg e x)) \<in> set (schedule r))
           else d_status y = StatusFinalFailure \<and> d_in_dlq y \<and> d_id x \<in> set (dlq_list r))))"

lemma handleFailure_consequence:
  assumes e: "faultless_env e" and p: "pending_at pg (w_db w) (d_id x) y" and y: "y = lease_row c lease x"
    and lg: "lg = scanDeliveryLog x" and st: "\<not> is_success st"
    and fresh: "log_by_id (w_db w) (c_uuid (pe_retry e)) = None" and fk: "sub_by_id (w_db w) (d_subscription_id x) \<noteq> None"
    and sid: "uuid_in pg (d_subscription_id x) \<noteq> None"
  shows "fst (handleFailure pg cfg e lg st err w) = Inr ()
    \<and> consequence cfg e x st err (w_db (snd (handleFailure pg cfg e lg st err w))) (w_redis (snd (handleFailure pg cfg e lg st err w)))"
proof (cases "d_attempt_number x < MaxRetryAttempts cfg")
  case True
  from e have f: "faultless (pe_retry e)" "pe_zadd e = Done" by (simp_all add: faultless_env_def)
  have "sub_by_id (w_db w) (d_subscription_id y) \<noteq> None" using fk by (simp add: y lease_row_def)
  from retry_consequence [OF p f(1) fresh this, of st err "next_due cfg e x"] obtain d' where
    d': "FailAndScheduleRetry pg (pe_retry e) (w_db w) (d_id x) st err (next_due cfg e x) = (Inr (c_uuid (pe_retry e), True), d')"
      "log_by_id d' (d_id x) = Some (failed_row (pe_retry e) st err y)"
      "log_by_id d' (c_uuid (pe_retry e)) = Some (successor_row (pe_retry e) (next_due cfg e x) y)" by blast
  then show ?thesis using True st f(2)
    by (simp add: handleFailure_def lg next_due_def [symmetric] consequence_def Schedule_def redis_do_def zadd_def
        failed_row_def successor_row_def y lease_row_def)
next
  case False
  from e have f: "faultless (e_call (pe_finish e))" "pe_push e = Done" by (simp_all add: faultless_env_def)
  from final_settles [OF p f(1) sid, of st err "AutoDisableThreshold cfg"] obtain b d' where
    d': "FinalizeFailure pg (e_call (pe_finish e)) (w_db w) (d_id x) (d_subscription_id x) st err (AutoDisableThreshold cfg) = (Inr (True, b), d')"
      "log_by_id d' (d_id x) = Some (final_row (e_call (pe_finish e)) st err y)" by blast
  then show ?thesis using False st f(2)
    by (simp add: handleFailure_def lg RecordFinalFailure_def Let_def consequence_def PushDLQ_def redis_do_def final_row_def)
qed

lemma deliver_consequence:
  assumes e: "faultless_env e" and p: "pending_at pg (w_db w) (d_id x) y" and y: "y = lease_row c lease x"
    and fresh: "log_by_id (w_db w) (c_uuid (pe_retry e)) = None" and fk: "sub_by_id (w_db w) (d_subscription_id x) \<noteq> None"
    and sid: "uuid_in pg (d_subscription_id x) \<noteq> None" "uuid_in pg (S_ID sub) \<noteq> None"
    and a: "attempt h e (scanDeliveryLog x) sub = (st, err, lat, sent)"
    and out: "deliver pg cfg h e (scanDeliveryLog x) sub q token w = (res, w')"
  shows "res = Inr () \<and> consequence cfg e x st err (w_db w') (w_redis w')"
proof (cases "is_success st")
  case True
  from e have f: "faultless (e_call (pe_finish e))" by (simp add: faultless_env_def)
  from True obtain code where code: "st = Some code" by (cases st) (auto simp: is_success_def)
  from success_settles [OF p f sid(2), of code] obtain b d' where
    d': "MarkSuccess pg (e_call (pe_finish e)) (w_db w) (d_id x) (S_ID sub) code = (Inr (True, b), d')"
      "log_by_id d' (d_id x) = Some (success_row (e_call (pe_finish e)) code y)" by blast
  have st: "is_success (Some code)" using True code by simp
  show ?thesis using out d' st
    by (auto simp: deliver_def a code Let_def RecordDeliverySuccess_def consequence_def success_row_def set_cb_def)
next
  case False
  let ?w1 = "w\<lparr>w_sent := (case sent of None \<Rightarrow> w_sent w | Some r \<Rightarrow> r # w_sent w), w_metrics := RecordDelivery lat False (w_metrics w)\<rparr>"
  let ?w2 = "set_cb q (RecordFailure (pe_record_now e) token (w_cbs ?w1 ! q)) ?w1"
  have "handleFailure pg cfg e (scanDeliveryLog x) st err ?w2 = (res, w')"
    using out False by (simp add: deliver_def a Let_def)
  moreover have "pending_at pg (w_db ?w2) (d_id x) y" "log_by_id (w_db ?w2) (c_uuid (pe_retry e)) = None"
    "sub_by_id (w_db ?w2) (d_subscription_id x) \<noteq> None" using p fresh fk by simp_all
  ultimately show ?thesis
    using handleFailure_consequence [OF e _ y refl False _ _ sid(1), of ?w2 cfg err] by simp
qed

lemma controlled_delivers:
  assumes "w_sent (snd (controlled pg cfg h e lg sub w)) \<noteq> w_sent w"
  shows "\<exists>q token p w0 res w4. deliver pg cfg h e lg sub q token w0 = (res, w4) \<and> w_db w0 = w_db w
    \<and> controlled pg cfg h e lg sub w = (res, release_sem p w4)"
proof -
  obtain p w1 where s: "semFor cfg (pe_sem_now e) (S_ID sub) w = (p, w1)" by fastforce
  have w1: "w_db w1 = w_db w" using control_db(4) [of cfg "pe_sem_now e" "S_ID sub" w] s by simp
  obtain ok sem where t: "TryAcquire (sem_heap (w_sub w1) ! p) = (ok, sem)" by fastforce
  obtain q w3 where b: "breakerFor cfg (pe_reg_now e) (D_TargetURL lg) (set_sem p sem w1) = (q, w3)" by fastforce
  have w3: "w_db w3 = w_db w" using control_db(5) [of cfg "pe_reg_now e" "D_TargetURL lg" "set_sem p sem w1"] b w1 by simp
  obtain al token cb where a: "AllowCB (pe_cb_now e) (w_cbs w3 ! q) = ((al, token), cb)" by (metis prod.collapse)
  obtain res w4 where d: "deliver pg cfg h e lg sub q token (set_cb q cb w3) = (res, w4)" by fastforce
  have sent: "w_sent w1 = w_sent w" "w_sent w3 = w_sent w" using controls_sent(1) [OF s] controls_sent(2) [OF b] by simp_all
  have out: "controlled pg cfg h e lg sub w =
      (if \<not> ok then (Inr (), rescheduleNoAttempt pg e (D_ID lg) (pe_now e + concurrencyBackoff) w1)
       else if al then (res, release_sem p w4)
       else (Inr (), release_sem p (rescheduleNoAttempt pg e (D_ID lg) (pe_now e + DBreakerResetTimeout cfg) (set_cb q cb w3))))"
    using s t b a d by (simp add: controlled_def Let_def split: bool.splits)
  then have "ok" "al" using assms sent by (auto split: if_splits)
  then show ?thesis using out d w3 by (metis control_db(2))
qed

lemma release_sem_rest [simp]: "w_db (release_sem p w) = w_db w" "w_redis (release_sem p w) = w_redis w"
  by (auto simp: release_sem_def set_sem_def split: option.splits)



end
