(* ===== verification/Recovery.thy ===== *)
theory Recovery
  imports Store_Contracts Redis
begin

text \<open>
  \<^verbatim>\<open>internal/worker/retry.go\<close> (poller and recovery scan) and \<^verbatim>\<open>internal/worker/periodic.go\<close>. The scan's
  loops have no bound of their own, so they are partial functions: \<open>None\<close> is a scan that never returns.
  \<open>scan_env\<close> gives the repository call of every iteration, what other processes did to the database before
  it, the rows they hold locked, and the fate of every enqueue.
\<close>

section \<open>Periodic execution\<close>

text \<open>What \<^verbatim>\<open>select\<close> picks: a tick of the timer, with what the run it starts meets, or the cancellation.\<close>

datatype 'a wake = Ticked 'a | Cancelled

fun tick_loop :: "('a \<Rightarrow> 's \<Rightarrow> 's) \<Rightarrow> 'a wake list \<Rightarrow> 's \<Rightarrow> 's" where
  "tick_loop run [] s = s"
| "tick_loop run (Cancelled # ws) s = s"
| "tick_loop run (Ticked a # ws) s = tick_loop run ws (run a s)"

text \<open>The first argument is what the run at the start meets, if there is one.\<close>

definition runPeriodic :: "'a option \<Rightarrow> ('a \<Rightarrow> 's \<Rightarrow> 's) \<Rightarrow> 'a wake list \<Rightarrow> 's \<Rightarrow> 's" where
  "runPeriodic runAtStart run ws s = tick_loop run ws (case runAtStart of Some a \<Rightarrow> run a s | None \<Rightarrow> s)"

section \<open>Retry poller\<close>

text \<open>One tick: a failing claim is logged and the next tick tries again.\<close>

definition poll_tick :: "reply \<times> time \<Rightarrow> redis \<Rightarrow> redis" where
  "poll_tick a r = (case ClaimDue (fst a) (snd a) r of (Inl err, r') \<Rightarrow> r' | (Inr n, r') \<Rightarrow> r')"

definition RetrySchedulerRun :: "(reply \<times> time) wake list \<Rightarrow> redis \<Rightarrow> redis" where
  "RetrySchedulerRun ws r = runPeriodic None poll_tick ws r"

section \<open>Recovery scan\<close>

record RecoveryWorker =
  rw_batch :: nat
  rw_orphanThreshold :: duration

record scan_env =
  sc_find :: "nat \<Rightarrow> call"
  sc_rearm :: "nat \<Rightarrow> call"
  sc_other :: "nat \<Rightarrow> db \<Rightarrow> db"
  sc_locked :: "nat \<Rightarrow> string \<Rightarrow> bool"
  sc_enq :: "nat \<Rightarrow> string \<Rightarrow> reply"

text \<open>\<^verbatim>\<open>RecoveryWorker.enqueue\<close> counts the enqueues that reported success.\<close>

definition enqueue_one :: "reply \<Rightarrow> string \<Rightarrow> nat \<times> redis \<Rightarrow> nat \<times> redis" where
  "enqueue_one rp lid s =
     (case Enqueue rp lid (snd s) of (Inl err, r) \<Rightarrow> (fst s, r) | (Inr _, r) \<Rightarrow> (fst s + 1, r))"

fun enqueue_all :: "(string \<Rightarrow> reply) \<Rightarrow> string list \<Rightarrow> nat \<times> redis \<Rightarrow> nat \<times> redis" where
  "enqueue_all rp [] s = s"
| "enqueue_all rp (i # is) s = enqueue_all rp is (enqueue_one (rp i) i s)"

text \<open>How a loop ends: it ran to its \<^verbatim>\<open>break\<close>, it returned early on an error, or it indexed an empty page
  (only with a batch size of zero).\<close>

datatype 's loop_end = Finished 's | Aborted 's | Panicked

partial_function (option) find_loop ::
  "RecoveryWorker \<Rightarrow> scan_env \<Rightarrow> nat \<Rightarrow> RecoveryCursor option \<Rightarrow> db \<Rightarrow> nat \<times> redis \<Rightarrow> (db \<times> nat \<times> redis) loop_end option" where
  "find_loop w e k after d s =
     (let d = sc_other e k d in
      case FindDuePending (sc_find e k) d (rw_batch w) after of
        Inl err \<Rightarrow> Some (Aborted (d, s))
      | Inr items \<Rightarrow>
         (let s = enqueue_all (sc_enq e k) (map DP_ID items) s in
          if length items < rw_batch w then Some (Finished (d, s))
          else if items = [] then Some Panicked
          else find_loop w e (k + 1) (Some \<lparr>RC_DueAt = DP_DueAt (last items), RC_ID = DP_ID (last items)\<rparr>) d s))"

partial_function (option) rearm_loop ::
  "RecoveryWorker \<Rightarrow> scan_env \<Rightarrow> nat \<Rightarrow> db \<Rightarrow> nat \<times> redis \<Rightarrow> (db \<times> nat \<times> redis) loop_end option" where
  "rearm_loop w e k d s =
     (case RearmLeaseLessPending (sc_rearm e k) (sc_locked e k) d (rw_batch w) (rw_orphanThreshold w) of
        (Inl err, d) \<Rightarrow> Some (Aborted (d, s))
      | (Inr ids, d) \<Rightarrow>
         (let s = enqueue_all (sc_enq e k) ids s in
          if length ids < rw_batch w then Some (Finished (d, s)) else rearm_loop w e (k + 1) d s))"

definition scan :: "RecoveryWorker \<Rightarrow> scan_env \<Rightarrow> db \<Rightarrow> redis \<Rightarrow> (db \<times> nat \<times> redis) loop_end option" where
  "scan w e d r =
     (case find_loop w e 0 None d (0, r) of
        None \<Rightarrow> None
      | Some (Finished (d, s)) \<Rightarrow> rearm_loop w e 0 d s
      | Some other \<Rightarrow> Some other)"

section \<open>Enqueueing\<close>

lemma enqueue_all_done:
  "(\<And>i. rp i = Done) \<Longrightarrow> enqueue_all rp is (n, r) = (n + length is, r\<lparr>work_queue := rev is @ work_queue r\<rparr>)"
proof (induction "is" arbitrary: n r)
  case (Cons i "is")
  have "enqueue_one Done i (n, r) = (n + 1, r\<lparr>work_queue := i # work_queue r\<rparr>)"
    by (simp add: enqueue_one_def Enqueue_def redis_do_def)
  with Cons show ?case by simp
qed simp

section \<open>Keyset pages\<close>

text \<open>Pending rows in scan order.\<close>

abbreviation due_key :: "dl_row \<Rightarrow> time \<times> string" where
  "due_key r \<equiv> (due_of r, d_id r)"

definition scan_order :: "db \<Rightarrow> dl_row list" where
  "scan_order d = sort_key due_key (filter is_pending (delivery_logs d))"

lemma scan_order_sorted:
  assumes "keyed d_id (delivery_logs d)"
  shows "sorted_wrt (\<lambda>a b. due_key a < due_key b) (scan_order d)"
proof -
  have "distinct (map d_id (filter is_pending (delivery_logs d)))" using assms by (simp add: keyed_def distinct_map_filter)
  then have "distinct (map d_id (scan_order d))" by (simp add: scan_order_def distinct_map)
  then have "distinct (map snd (map due_key (scan_order d)))" by (simp add: comp_def)
  then have "distinct (map due_key (scan_order d))" by (rule distinct_map [THEN iffD1, THEN conjunct1])
  moreover have "sorted (map due_key (scan_order d))" by (simp add: scan_order_def)
  ultimately have "sorted_wrt (<) (map due_key (scan_order d))" by (simp only: strict_sorted_iff)
  then show ?thesis by (simp add: sorted_wrt_map)
qed

lemma due_rows_scan: "due_rows now cur d = filter (\<lambda>r. due now r \<and> after_cursor cur r) (scan_order d)"
  by (simp add: due_rows_def scan_order_def filter_sort [symmetric] conj_commute conj_left_commute)

definition cursor_of :: "dl_row list \<Rightarrow> RecoveryCursor option" where
  "cursor_of done = (if done = [] then None else Some \<lparr>RC_DueAt = due_of (last done), RC_ID = d_id (last done)\<rparr>)"

lemma after_cursor_split:
  assumes "sorted_wrt (\<lambda>a b. due_key a < due_key b) (done @ rest)"
  shows "filter (\<lambda>r. P r \<and> after_cursor (cursor_of done) r) (done @ rest) = filter P rest"
proof (cases "done = []")
  case True
  then show ?thesis by (simp add: cursor_of_def after_cursor_def)
next
  case False
  let ?x = "last done"
  have after: "after_cursor (cursor_of done) r \<longleftrightarrow> due_key ?x < due_key r" for r
    using False by (auto simp: cursor_of_def after_cursor_def)
  have "\<not> due_key ?x < due_key r" if "r \<in> set done" for r
  proof -
    have "r \<in> set (butlast done @ [?x])" using that False by simp
    moreover have "sorted_wrt (\<lambda>a b. due_key a < due_key b) (butlast done @ [?x])"
      using assms False by (simp add: sorted_wrt_append)
    ultimately show ?thesis by (auto simp: sorted_wrt_append dest: less_asym)
  qed
  then have "filter (\<lambda>r. P r \<and> after_cursor (cursor_of done) r) done = []" by (auto simp: filter_empty_conv after)
  moreover have "due_key ?x < due_key r" if "r \<in> set rest" for r
    using assms that False by (auto simp: sorted_wrt_append)
  then have "filter (\<lambda>r. P r \<and> after_cursor (cursor_of done) r) rest = filter P rest"
    by (intro filter_cong) (auto simp: after)
  ultimately show ?thesis by simp
qed

text \<open>Rows that are due come first.\<close>

lemma due_prefix:
  assumes "sorted_wrt (\<lambda>a b. due_key a < due_key b) xs" and "\<forall>r \<in> set xs. d_next_retry_at r \<noteq> None"
  shows "filter (due now) xs = takeWhile (due now) xs"
  using assms
proof (induction xs)
  case (Cons x xs)
  have due: "due now r \<longleftrightarrow> due_of r \<le> now" if "r \<in> set (x # xs)" for r
    using Cons.prems(2) that by (auto simp: due_def due_of_def split: option.splits)
  have "due_of x \<le> due_of r" if "r \<in> set xs" for r
    using Cons.prems(1) that by fastforce
  then have "filter (due now) xs = []" if "\<not> due now x"
    using that due by (fastforce simp: filter_empty_conv)
  then show ?case using Cons by simp
qed simp

definition quiet_scan :: "scan_env \<Rightarrow> bool" where
  "quiet_scan e \<longleftrightarrow> (\<forall>k d. sc_other e k d = d) \<and> (\<forall>k. faultless (sc_find e k) \<and> faultless (sc_rearm e k))
     \<and> (\<forall>j k. j \<le> k \<longrightarrow> c_now (sc_find e j) \<le> c_now (sc_find e k)) \<and> (\<forall>k i. sc_enq e k i = Done)"

lemma due_mono: "due t r \<Longrightarrow> t \<le> t' \<Longrightarrow> due t' r"
  by (auto simp: due_def split: option.splits)

lemma FindDuePending_page:
  assumes "keyed d_id (delivery_logs d)" and "\<forall>r \<in> set (scan_order d). d_next_retry_at r \<noteq> None"
    and "scan_order d = dn @ rest" and "faultless c"
  shows "FindDuePending c d batch (cursor_of dn) =
    Inr (map (\<lambda>r. \<lparr>DP_ID = d_id r, DP_DueAt = due_of r\<rparr>) (take batch (takeWhile (due (c_now c)) rest)))"
proof -
  have s: "sorted_wrt (\<lambda>a b. due_key a < due_key b) (dn @ rest)" using scan_order_sorted [OF assms(1)] assms(3) by simp
  have "due_rows (c_now c) (cursor_of dn) d = filter (due (c_now c)) rest"
    unfolding due_rows_scan assms(3) using after_cursor_split [OF s] .
  also have "\<dots> = takeWhile (due (c_now c)) rest"
    using s assms(2,3) by (intro due_prefix) (simp_all add: sorted_wrt_append)
  finally show ?thesis using assms(4) by (simp add: FindDuePending_def faultless_def)
qed

definition scan_ready :: "RecoveryWorker \<Rightarrow> scan_env \<Rightarrow> db \<Rightarrow> bool" where
  "scan_ready w e d \<longleftrightarrow> quiet_scan e \<and> 1 \<le> rw_batch w \<and> keyed d_id (delivery_logs d)
     \<and> (\<forall>r \<in> set (scan_order d). d_next_retry_at r \<noteq> None)"

text \<open>One iteration: a page with fewer due rows than the batch ends the loop, a full page moves the cursor
  to its last row.\<close>

lemma find_loop_page:
  assumes ready: "scan_ready w e d" and split: "scan_order d = dn @ rest"
    and page_def: "page = take (rw_batch w) (takeWhile (due (c_now (sc_find e k))) rest)"
  shows "find_loop w e k (cursor_of dn) d (n, r) =
    (let s = (n + length page, r\<lparr>work_queue := rev (map d_id page) @ work_queue r\<rparr>) in
     if length page < rw_batch w then Some (Finished (d, s)) else find_loop w e (k + 1) (cursor_of (dn @ page)) d s)"
proof -
  have f: "faultless (sc_find e k)" and o: "sc_other e k d = d" and rp: "\<And>i. sc_enq e k i = Done" and b: "1 \<le> rw_batch w"
    using ready by (simp_all add: scan_ready_def quiet_scan_def)
  let ?items = "map (\<lambda>r. \<lparr>DP_ID = d_id r, DP_DueAt = due_of r\<rparr>) page"
  have p: "FindDuePending (sc_find e k) d (rw_batch w) (cursor_of dn) = Inr ?items"
    unfolding page_def using ready by (intro FindDuePending_page [OF _ _ split f]) (simp_all add: scan_ready_def)
  have last: "cursor_of (dn @ page) = Some \<lparr>RC_DueAt = DP_DueAt (last ?items), RC_ID = DP_ID (last ?items)\<rparr>"
    if "page \<noteq> []" using that by (simp add: cursor_of_def last_map)
  have ids: "map DP_ID ?items = map d_id page" by simp
  have ne: "page \<noteq> []" if "\<not> length page < rw_batch w" using that b by auto
  show ?thesis
    using last ne by (subst find_loop.simps) (simp add: o p ids enqueue_all_done [OF rp] Let_def del: map_map)
qed

lemma takeWhile_take: "takeWhile P xs = take (length (takeWhile P xs)) xs"
  by (metis append_eq_conv_conj takeWhile_dropWhile_id)

lemma find_loop_all:
  assumes ready: "scan_ready w e d" and split: "scan_order d = dn @ rest"
  shows "\<exists>m. find_loop w e k (cursor_of dn) d (n, r) =
      Some (Finished (d, n + length (take m rest), r\<lparr>work_queue := rev (map d_id (take m rest)) @ work_queue r\<rparr>))
    \<and> (\<forall>x \<in> set rest. due (c_now (sc_find e k)) x \<longrightarrow> x \<in> set (take m rest))
    \<and> (\<forall>x \<in> set (take m rest). \<exists>j. due (c_now (sc_find e j)) x)"
  using split
proof (induction "length rest" arbitrary: dn rest k n r rule: less_induct)
  case less
  let ?due = "due (c_now (sc_find e k))" and ?B = "rw_batch w"
  note step = find_loop_page [OF ready less.prems refl, of k n r]
  show ?case
  proof (cases "length (takeWhile ?due rest) < ?B")
    case True
    let ?m = "length (takeWhile ?due rest)"
    have p: "take ?B (takeWhile ?due rest) = take ?m rest" using True takeWhile_take [of ?due rest] by simp
    have s: "sorted_wrt (\<lambda>a b. due_key a < due_key b) rest"
      using scan_order_sorted [of d] ready less.prems by (simp add: scan_ready_def sorted_wrt_append)
    have "filter ?due rest = take ?m rest"
      using due_prefix [OF s] ready less.prems takeWhile_take [of ?due rest] by (simp add: scan_ready_def)
    then have "set (take ?m rest) = {x \<in> set rest. ?due x}" by (metis set_filter)
    then show ?thesis using True step unfolding p by (intro exI [of _ ?m]) (auto simp: Let_def)
  next
    case False
    have len: "?B \<le> length rest" using False length_takeWhile_le [of ?due rest] by simp
    have p: "take ?B (takeWhile ?due rest) = take ?B rest" using False by (subst takeWhile_take) (simp add: min_def)
    let ?r = "r\<lparr>work_queue := rev (map d_id (take ?B rest)) @ work_queue r\<rparr>" and ?n = "n + length (take ?B rest)"
    have "length (drop ?B rest) < length rest" using ready len by (auto simp: scan_ready_def)
    from less.hyps [OF this, of "dn @ take ?B rest" "k + 1" ?n ?r] less.prems obtain m where
      m: "find_loop w e (k + 1) (cursor_of (dn @ take ?B rest)) d (?n, ?r) =
          Some (Finished (d, ?n + length (take m (drop ?B rest)), ?r\<lparr>work_queue := rev (map d_id (take m (drop ?B rest))) @ work_queue ?r\<rparr>))"
        "\<forall>x \<in> set (drop ?B rest). due (c_now (sc_find e (k + 1))) x \<longrightarrow> x \<in> set (take m (drop ?B rest))"
        "\<forall>x \<in> set (take m (drop ?B rest)). \<exists>j. due (c_now (sc_find e j)) x" by auto
    have t: "take (?B + m) rest = take ?B rest @ take m (drop ?B rest)" by (rule take_add)
    have "find_loop w e k (cursor_of dn) d (n, r) =
        Some (Finished (d, n + length (take (?B + m) rest), r\<lparr>work_queue := rev (map d_id (take (?B + m) rest)) @ work_queue r\<rparr>))"
      using step m(1) len unfolding p t by (simp add: Let_def)
    moreover have "x \<in> set (take (?B + m) rest)" if "x \<in> set rest" "?due x" for x
    proof -
      have "due (c_now (sc_find e (k + 1))) x"
        using that(2) ready by (auto simp: scan_ready_def quiet_scan_def intro: due_mono)
      moreover have "x \<in> set (take ?B rest) \<or> x \<in> set (drop ?B rest)"
        using that(1) by (metis append_take_drop_id Un_iff set_append)
      ultimately show ?thesis using m(2) by (auto simp: t)
    qed
    moreover have "\<forall>x \<in> set (take ?B rest). ?due x" using p by (metis in_set_takeD set_takeWhileD)
    then have "\<exists>j. due (c_now (sc_find e j)) x" if "x \<in> set (take (?B + m) rest)" for x
      using that m(3) by (auto simp: t)
    ultimately show ?thesis by blast
  qed
qed

section \<open>What the scan guarantees\<close>

lemma rearm_loop_idle:
  assumes "quiet_scan e" and "1 \<le> rw_batch w" and "db_inv pg t d"
  shows "rearm_loop w e k d s = Some (Finished (d, s))"
proof -
  have "faultless (sc_rearm e k)" using assms(1) by (simp add: quiet_scan_def)
  then have "RearmLeaseLessPending (sc_rearm e k) (sc_locked e k) d (rw_batch w) (rw_orphanThreshold w) = (Inr [], d)"
    by (simp add: RearmLeaseLessPending_def pool_run_def faultless_def rearm_stmt_idle [OF assms(3)])
  then show ?thesis using assms(2) by (subst rearm_loop.simps) (simp add: Let_def)
qed

lemma scan_order_mem: "x \<in> set (scan_order d) \<longleftrightarrow> x \<in> set (delivery_logs d) \<and> is_pending x"
  by (auto simp: scan_order_def)

lemma db_inv_pending_due: "db_inv pg t d \<Longrightarrow> \<forall>r \<in> set (scan_order d). d_next_retry_at r \<noteq> None"
  using db_inv_rowsD by (auto simp: scan_order_mem row_ok_def)

lemma scan_complete:
  assumes "db_inv pg t d" and "quiet_scan e" and "1 \<le> rw_batch w"
  shows "\<exists>xs. scan w e d r =
      Some (Finished (d, length xs, r\<lparr>work_queue := rev (map d_id xs) @ work_queue r\<rparr>))
    \<and> distinct (map d_id xs) \<and> (\<forall>x \<in> set xs. x \<in> set (delivery_logs d) \<and> is_pending x \<and> (\<exists>j. due (c_now (sc_find e j)) x))
    \<and> (\<forall>x \<in> set (delivery_logs d). is_pending x \<and> due (c_now (sc_find e 0)) x \<longrightarrow> x \<in> set xs)"
proof -
  have ready: "scan_ready w e d"
    using assms db_inv_pending_due [OF assms(1)] db_inv_key [OF assms(1)] by (simp add: scan_ready_def)
  from find_loop_all [OF ready, of "[]" "scan_order d" 0 0 r] obtain m where
    m: "find_loop w e 0 None d (0, r) = Some (Finished (d, length (take m (scan_order d)),
          r\<lparr>work_queue := rev (map d_id (take m (scan_order d))) @ work_queue r\<rparr>))"
      "\<forall>x \<in> set (scan_order d). due (c_now (sc_find e 0)) x \<longrightarrow> x \<in> set (take m (scan_order d))"
      "\<forall>x \<in> set (take m (scan_order d)). \<exists>j. due (c_now (sc_find e j)) x"
    by (auto simp: cursor_of_def)
  let ?xs = "take m (scan_order d)"
  have "scan w e d r = Some (Finished (d, length ?xs, r\<lparr>work_queue := rev (map d_id ?xs) @ work_queue r\<rparr>))"
    unfolding scan_def m(1) using rearm_loop_idle [OF assms(2,3,1)] by simp
  moreover have "distinct (map d_id (scan_order d))"
    using db_inv_key [OF assms(1)] by (simp add: scan_order_def keyed_def distinct_map)
      (metis distinct_map distinct_map_filter set_filter)
  then have "distinct (map d_id ?xs)" by (simp flip: take_map)
  moreover have "x \<in> set (delivery_logs d) \<and> is_pending x" if "x \<in> set ?xs" for x
    using that scan_order_mem by (metis in_set_takeD)
  ultimately show ?thesis using m(2,3) scan_order_mem by (intro exI [of _ ?xs]) blast
qed

text \<open>C23. Recovery is complete and terminates: on a well-formed database, with any batch size of at least
  one, a scan that meets no fault and no concurrent writer returns, leaves the database alone, and has put
  on the work queue every pending attempt that was due when it started, each exactly once, and nothing but
  pending attempts that had become due before it ended. So whatever lost its queue entry or its lease is
  queued again.\<close>

theorem recovery_scan_complete:
  assumes "db_inv pg t d" and "quiet_scan e" and "1 \<le> rw_batch w"
  shows "\<exists>xs. scan w e d r =
      Some (Finished (d, length xs, r\<lparr>work_queue := rev (map d_id xs) @ work_queue r\<rparr>))
    \<and> distinct (map d_id xs) \<and> (\<forall>x \<in> set xs. x \<in> set (delivery_logs d) \<and> is_pending x \<and> (\<exists>j. due (c_now (sc_find e j)) x))
    \<and> (\<forall>x \<in> set (delivery_logs d). is_pending x \<and> due (c_now (sc_find e 0)) x \<longrightarrow> x \<in> set xs)"
  using scan_complete [OF assms] .

definition demo_scan :: scan_env where
  "demo_scan = \<lparr>sc_find = (\<lambda>_. ok_call 6 ''u''), sc_rearm = (\<lambda>_. ok_call 6 ''u''), sc_other = (\<lambda>_ d. d), sc_locked = (\<lambda>_ _. False),
     sc_enq = (\<lambda>_ _. Done)\<rparr>"

theorem recovery_scan_complete_witness:
  "\<exists>n r'. scan \<lparr>rw_batch = 1, rw_orphanThreshold = 1\<rparr> demo_scan demo_db3 empty_redis = Some (Finished (demo_db3, n, r'))
    \<and> ''b'' \<in> set (work_queue r')"
proof -
  let ?x = "delivery_logs demo_db3 ! 1"
  have x: "?x \<in> set (delivery_logs demo_db3)" "is_pending ?x" "due 6 ?x" "d_id ?x = ''b''"
    by (simp_all add: demo_db3_eq pending_row_def due_def)
  have "quiet_scan demo_scan" by (simp add: quiet_scan_def demo_scan_def)
  from recovery_scan_complete [OF demo_inv this, of "\<lparr>rw_batch = 1, rw_orphanThreshold = 1\<rparr>" empty_redis] obtain xs where
    xs: "scan \<lparr>rw_batch = 1, rw_orphanThreshold = 1\<rparr> demo_scan demo_db3 empty_redis =
      Some (Finished (demo_db3, length xs, empty_redis\<lparr>work_queue := rev (map d_id xs) @ work_queue empty_redis\<rparr>))"
      "\<forall>x \<in> set (delivery_logs demo_db3). is_pending x \<and> due (c_now (sc_find demo_scan 0)) x \<longrightarrow> x \<in> set xs" by auto
  then have "''b'' \<in> d_id ` set xs" using x by (force simp: demo_scan_def)
  with xs(1) show ?thesis by simp
qed

section \<open>What the poller guarantees\<close>

lemma due_entries_filter: "due_entries now (filter P z) = filter P (due_entries now z)"
  by (simp add: due_entries_def filter_sort [symmetric] conj_commute)

lemma due_entries_distinct: "keyed fst z \<Longrightarrow> distinct (map fst (due_entries now z))"
proof -
  assume "keyed fst z"
  then have "distinct (map fst (filter (\<lambda>(m, sc). 0 \<le> sc \<and> sc \<le> now) z))" by (simp add: keyed_def distinct_map_filter)
  moreover have "mset (map fst (due_entries now z)) = mset (map fst (filter (\<lambda>(m, sc). 0 \<le> sc \<and> sc \<le> now) z))"
    by (simp add: due_entries_def)
  ultimately show ?thesis by (metis mset_eq_imp_distinct_iff)
qed

lemma filter_not_taken:
  assumes "distinct (map f xs)"
  shows "filter (\<lambda>x. f x \<notin> set (map f (take n xs))) xs = drop n xs"
proof -
  have d: "distinct (map f (take n xs) @ map f (drop n xs))" using assms by (simp flip: map_append)
  have "filter (\<lambda>x. f x \<notin> set (map f (take n xs))) (take n xs) = []" by (auto simp: filter_empty_conv)
  moreover have "filter (\<lambda>x. f x \<notin> set (map f (take n xs))) (drop n xs) = drop n xs"
    using d by (auto simp: filter_id_conv)
  ultimately show ?thesis by (metis append_Nil append_take_drop_id filter_append)
qed

text \<open>What is due now comes first among what is due later.\<close>

lemma due_entries_prefix:
  assumes "now \<le> t"
  shows "\<exists>n. due_entries now z = take n (due_entries t z)"
proof -
  let ?f = "\<lambda>(m, sc). (sc, m) :: int \<times> string"
  have "filter (\<lambda>(m, sc). 0 \<le> sc \<and> sc \<le> now) z = filter (\<lambda>e. snd e \<le> now) (filter (\<lambda>(m, sc). 0 \<le> sc \<and> sc \<le> t) z)"
    using assms by (auto simp: case_prod_unfold intro!: filter_cong)
  then have "due_entries now z = filter (\<lambda>e. snd e \<le> now) (due_entries t z)"
    by (simp add: due_entries_def filter_sort)
  moreover have "filter (\<lambda>e. snd e \<le> now) xs = takeWhile (\<lambda>e. snd e \<le> now) xs" if "sorted (map ?f xs)" for xs
    using that
  proof (induction xs)
    case (Cons a xs)
    have "snd a \<le> snd x" if "x \<in> set xs" for x using Cons.prems that by (force simp: case_prod_unfold)
    then have "filter (\<lambda>e. snd e \<le> now) xs = []" if "\<not> snd a \<le> now" using that by (force simp: filter_empty_conv)
    then show ?case using Cons by simp
  qed simp
  ultimately have "due_entries now z = takeWhile (\<lambda>e. snd e \<le> now) (due_entries t z)" by (simp add: due_entries_def)
  then show ?thesis by (metis takeWhile_take)
qed

lemma poll_tick_due:
  assumes "keyed fst (schedule r)" and "now \<le> t" and E_def: "E = due_entries (unixScore now) (schedule r)"
  shows "keyed fst (schedule (poll_tick (Done, t) r))
    \<and> due_entries (unixScore now) (schedule (poll_tick (Done, t) r)) = drop 100 E
    \<and> fst ` set (take 100 E) \<union> set (work_queue r) \<subseteq> set (work_queue (poll_tick (Done, t) r))"
proof -
  let ?T = "due_entries (unixScore t) (schedule r)"
  have "unixScore now \<le> unixScore t" using assms(2) by (simp add: unixScore_def zdiv_mono1)
  from due_entries_prefix [OF this, of "schedule r"] obtain n where n: "E = take n ?T" unfolding E_def by blast
  have sub: "take 100 E = take (min 100 n) ?T" by (simp add: n min.commute)
  have "filter (\<lambda>e. fst e \<notin> set (map fst (take 100 ?T))) E = drop 100 E"
  proof (cases "n \<le> 100")
    case True
    then have "set E \<subseteq> set (take 100 ?T)" unfolding n by (rule set_take_subset_set_take)
    then show ?thesis using True by (auto simp: n filter_empty_conv image_iff)
  next
    case False
    then have "take 100 ?T = take 100 E" by (simp add: n)
    then show ?thesis
      using filter_not_taken [of fst E 100] due_entries_distinct [OF assms(1)] by (simp add: E_def)
  qed
  moreover have "poll_tick (Done, t) r = move_tasks (map fst (take 100 ?T)) r"
    by (simp add: poll_tick_def ClaimDue_def redis_do_def claimDueScript_def Let_def)
  moreover have "set (take 100 E) \<subseteq> set (take 100 ?T)" unfolding sub by (rule set_take_subset_set_take) simp
  ultimately show ?thesis
    using assms(1) by (auto simp: move_tasks_eq due_entries_filter keyed_def distinct_map_filter E_def)
qed

lemma poll_ticks:
  assumes "keyed fst (schedule r)" and "\<forall>t \<in> set ts. now \<le> t" and "E = due_entries (unixScore now) (schedule r)"
  shows "due_entries (unixScore now) (schedule (tick_loop poll_tick (map (\<lambda>t. Ticked (Done, t)) ts) r)) = drop (100 * length ts) E
    \<and> fst ` set (take (100 * length ts) E) \<union> set (work_queue r) \<subseteq> set (work_queue (tick_loop poll_tick (map (\<lambda>t. Ticked (Done, t)) ts) r))"
  using assms
proof (induction ts arbitrary: r E)
  case (Cons t ts)
  have t: "now \<le> t" using Cons.prems(2) by simp
  note p = poll_tick_due [OF Cons.prems(1) t Cons.prems(3)]
  have "take (100 * length (t # ts)) E = take 100 E @ take (100 * length ts) (drop 100 E)" by (simp add: take_add)
  moreover have "drop (100 * length ts) (drop 100 E) = drop (100 * length (t # ts)) E" by (simp add: algebra_simps)
  ultimately show ?case using Cons.IH [of "poll_tick (Done, t) r" "drop 100 E"] p Cons.prems(2) by auto
qed simp

text \<open>The poller drains the schedule: with one entry per task, after ticks at any times not before
  \<open>now\<close>, as many that 100 per tick cover the retries due at \<open>now\<close>, each of those retries is on the work
  queue, none is left in the schedule, and no task that was queued is lost.\<close>

theorem poller_drains:
  assumes "keyed fst (schedule r)" and "\<forall>t \<in> set ts. now \<le> t"
    and "length (due_entries (unixScore now) (schedule r)) \<le> 100 * length ts"
    and "r' = RetrySchedulerRun (map (\<lambda>t. Ticked (Done, t)) ts) r"
  shows "due_entries (unixScore now) (schedule r') = []
    \<and> fst ` set (due_entries (unixScore now) (schedule r)) \<union> set (work_queue r) \<subseteq> set (work_queue r')"
  using poll_ticks [OF assms(1,2) refl] assms(3) by (simp add: assms(4) RetrySchedulerRun_def runPeriodic_def)

theorem poller_drains_witness:
  "''b'' \<in> set (work_queue (RetrySchedulerRun [Ticked (Done, 25 * millisecond)]
     \<lparr>work_queue = [''q''], dlq_list = [], schedule = [(''a'', 30), (''b'', 10)]\<rparr>))"
proof -
  let ?r = "\<lparr>work_queue = [''q''], dlq_list = [], schedule = [(''a'', 30), (''b'', 10)]\<rparr>"
  have "keyed fst (schedule ?r)" by (simp add: keyed_def)
  moreover have "due_entries (unixScore (20 * millisecond)) (schedule ?r) = [(''b'', 10)]"
    by (simp add: due_entries_def unixScore_def)
  ultimately show ?thesis using poller_drains [of ?r "[25 * millisecond]" "20 * millisecond"] by simp
qed

section \<open>The recovery worker's loop\<close>

text \<open>\<^verbatim>\<open>Run\<close> scans at the start and on every tick; an aborted scan is left to the next tick. A scan that does
  not return blocks the worker: \<open>None\<close>.\<close>

definition scan_tick :: "RecoveryWorker \<Rightarrow> scan_env \<Rightarrow> (db \<times> redis) option \<Rightarrow> (db \<times> redis) option" where
  "scan_tick w e s = (case s of None \<Rightarrow> None | Some (d, r) \<Rightarrow>
     (case scan w e d r of
        Some (Finished (d', n, r')) \<Rightarrow> Some (d', r')
      | Some (Aborted (d', n, r')) \<Rightarrow> Some (d', r')
      | _ \<Rightarrow> None))"

definition RecoveryRun :: "RecoveryWorker \<Rightarrow> scan_env \<Rightarrow> scan_env wake list \<Rightarrow> db \<times> redis \<Rightarrow> (db \<times> redis) option" where
  "RecoveryRun w e ws s = runPeriodic (Some e) (scan_tick w) ws (Some s)"

end
