(* ===== verification/Maintenance.thy ===== *)
theory Maintenance
  imports Recovery
begin

text \<open>
  \<^verbatim>\<open>internal/worker/cleanup.go\<close>: the retention worker and the dead-letter reconciler. The reconciler
  relies on its index only through the interface \<open>dead_letter_index\<close>, which the Redis list of
  \<^verbatim>\<open>internal/infra/queue/dlq.go\<close> meets.
\<close>

section \<open>Retention\<close>

record CleanupWorker =
  cw_retention :: duration
  cw_idempotencyTTL :: duration

definition cleanup :: "CleanupWorker \<Rightarrow> call \<Rightarrow> call \<Rightarrow> db \<Rightarrow> db" where
  "cleanup w c1 c2 d =
     (case DeleteExpired c1 d (cw_retention w) of
        (Inl err, d1) \<Rightarrow> d1
      | (Inr deleted, d1) \<Rightarrow>
         (case PruneIdempotency c2 d1 (cw_idempotencyTTL w) of
            (Inl err, d2) \<Rightarrow> d2
          | (Inr pruned, d2) \<Rightarrow> d2))"

definition CleanupRun :: "CleanupWorker \<Rightarrow> call \<times> call \<Rightarrow> (call \<times> call) wake list \<Rightarrow> db \<Rightarrow> db" where
  "CleanupRun w c ws d = runPeriodic (Some c) (\<lambda>c. cleanup w (fst c) (snd c)) ws d"

section \<open>Dead-letter reconciliation\<close>

text \<open>\<open>re_other\<close> is what other processes do to the database between the two snapshots and the point reads
  that re-validate them.\<close>

record recon_env =
  re_force :: call
  re_flagged :: call
  re_listed :: reply
  re_isin :: "string \<Rightarrow> call"
  re_other :: "db \<Rightarrow> db"
  re_push :: "string \<Rightarrow> reply"
  re_rem :: "string \<Rightarrow> reply"

definition remove_one :: "recon_env \<Rightarrow> string \<Rightarrow> redis \<Rightarrow> redis" where
  "remove_one e i r = snd (RemoveDLQ (re_rem e i) i r)"

definition repush_one :: "pgsql \<Rightarrow> recon_env \<Rightarrow> db \<Rightarrow> string list \<Rightarrow> string \<Rightarrow> redis \<Rightarrow> redis" where
  "repush_one pg e d listed i r =
     (if i \<in> set listed then r
      else case IsInDLQ pg (re_isin e i) d i of
        Inl err \<Rightarrow> r
      | Inr stillFlagged \<Rightarrow> if \<not> stillFlagged then r else snd (PushDLQ (re_push e i) i r))"

definition unlist_one :: "pgsql \<Rightarrow> recon_env \<Rightarrow> db \<Rightarrow> string list \<Rightarrow> string \<Rightarrow> redis \<Rightarrow> redis" where
  "unlist_one pg e d flagged i r =
     (if i \<in> set flagged then r
      else case IsInDLQ pg (re_isin e i) d i of
        Inl err \<Rightarrow> r
      | Inr stillFlagged \<Rightarrow> if stillFlagged then r else remove_one e i r)"

definition reconcile :: "pgsql \<Rightarrow> duration \<Rightarrow> recon_env \<Rightarrow> db \<Rightarrow> redis \<Rightarrow> db \<times> redis" where
  "reconcile pg maxAge e d r =
     (case ForceAckOldDLQ (re_force e) d maxAge of
        (Inl err, d1) \<Rightarrow> (d1, r)
      | (Inr forced, d1) \<Rightarrow>
         (let r1 = fold (remove_one e) forced r in
          case ListInDLQ (re_flagged e) d1 of
            Inl err \<Rightarrow> (d1, r1)
          | Inr flagged \<Rightarrow>
             (case ListDLQ (re_listed e) r1 of
                Inl err \<Rightarrow> (d1, r1)
              | Inr listed \<Rightarrow>
                 (let d2 = re_other e d1;
                      r2 = fold (repush_one pg e d2 listed) flagged r1
                  in (d2, fold (unlist_one pg e d2 flagged) listed r2)))))"

definition ReconcilerRun :: "pgsql \<Rightarrow> duration \<Rightarrow> recon_env \<Rightarrow> recon_env wake list \<Rightarrow> db \<times> redis \<Rightarrow> db \<times> redis" where
  "ReconcilerRun pg maxAge e ws s = runPeriodic (Some e) (\<lambda>e s. reconcile pg maxAge e (fst s) (snd s)) ws s"

section \<open>The index interface\<close>

locale dead_letter_index =
  fixes push :: "string \<Rightarrow> 's \<Rightarrow> 's" and remove :: "string \<Rightarrow> 's \<Rightarrow> 's" and listed :: "'s \<Rightarrow> string set"
  assumes listed_push: "listed (push i s) = insert i (listed s)"
    and listed_remove: "listed (remove i s) = listed s - {i}"
begin

lemma listed_pushes: "listed (fold push is s) = set is \<union> listed s"
  by (induction "is" arbitrary: s) (auto simp: listed_push)

lemma listed_removes: "listed (fold remove is s) = listed s - set is"
  by (induction "is" arbitrary: s) (auto simp: listed_remove)

text \<open>Pushing what is flagged and not listed, then removing what is listed and not flagged, leaves exactly
  what is flagged.\<close>

lemma repair_exact:
  assumes "set ls = listed s"
  shows "listed (fold remove (filter (\<lambda>i. i \<notin> set fs) ls) (fold push (filter (\<lambda>i. i \<notin> set ls) fs) s)) = set fs"
  using assms by (auto simp: listed_pushes listed_removes)

end

interpretation dlq: dead_letter_index "\<lambda>i r. snd (PushDLQ Done i r)" "\<lambda>i r. snd (RemoveDLQ Done i r)" "\<lambda>r. set (dlq_list r)"
  by unfold_locales (auto simp: PushDLQ_def RemoveDLQ_def redis_do_def)

section \<open>What retention deletes\<close>

lemma DeleteExpired_db: "DeleteExpired c d ret = (res, d') \<Longrightarrow>
    d' = d \<or> d' = d\<lparr>delivery_logs := sql_delete (expired c ret) (delivery_logs d)\<rparr>"
  using pool_run_db [of c "delete_expired_stmt c ret" d]
  by (auto simp: DeleteExpired_def delete_expired_stmt_def split: prod.splits sum.splits)

lemma Prune_db: "PruneIdempotency c d ttl = (res, d') \<Longrightarrow>
    d' = d \<or> d' = d\<lparr>ingest_idempotency := sql_delete (stale_idem c ttl) (ingest_idempotency d)\<rparr>"
  using pool_run_db [of c "prune_stmt c ttl" d]
  by (auto simp: PruneIdempotency_def prune_stmt_def split: prod.splits sum.splits)

lemma cleanup_effect:
  assumes "d' = cleanup w c1 c2 d"
  shows "set (delivery_logs d') \<subseteq> set (delivery_logs d) \<and> set (ingest_idempotency d') \<subseteq> set (ingest_idempotency d)
    \<and> subscriptions d' = subscriptions d
    \<and> (\<forall>r \<in> set (delivery_logs d). is_pending r \<or> d_in_dlq r
         \<or> c_now c1 - pg_interval (secondsArg (cw_retention w)) \<le> d_created_at r \<longrightarrow> r \<in> set (delivery_logs d'))
    \<and> (\<forall>k \<in> set (ingest_idempotency d).
         c_now c2 - pg_interval (secondsArg (cw_idempotencyTTL w)) \<le> i_created_at k \<longrightarrow> k \<in> set (ingest_idempotency d'))"
proof -
  obtain res1 d1 where del: "DeleteExpired c1 d (cw_retention w) = (res1, d1)" by fastforce
  obtain res2 d2 where prune: "PruneIdempotency c2 d1 (cw_idempotencyTTL w) = (res2, d2)" by fastforce
  have "d' = d1 \<or> d' = d2" using del prune by (auto simp: assms cleanup_def split: sum.splits)
  with DeleteExpired_db [OF del] Prune_db [OF prune] show ?thesis
    by (elim disjE) (auto simp: set_sql_delete expired_def stale_idem_def)
qed



section \<open>What the reconciler does\<close>

definition flagged_in :: "pgsql \<Rightarrow> db \<Rightarrow> string \<Rightarrow> bool" where
  "flagged_in pg d i \<longleftrightarrow> (case select_log pg i d of Inl err \<Rightarrow> False | Inr x \<Rightarrow> d_in_dlq x)"

lemma IsInDLQ_flagged: "(\<exists>err. IsInDLQ pg c d i = Inl err) \<or> IsInDLQ pg c d i = Inr (flagged_in pg d i)"
  by (auto simp: IsInDLQ_def read_run_def flagged_in_def split: sum.splits if_splits)

lemma IsInDLQ_faultless: "faultless c \<Longrightarrow> IsInDLQ pg c d i = Inr (flagged_in pg d i)"
  by (auto simp: IsInDLQ_def read_run_def flagged_in_def faultless_def select_log_def split: sum.splits option.splits)

lemma index_ops:
  "j \<in> set (dlq_list (remove_one e i r)) \<Longrightarrow> j \<in> set (dlq_list r)"
  "j \<in> set (dlq_list r) \<Longrightarrow> j \<noteq> i \<Longrightarrow> j \<in> set (dlq_list (remove_one e i r))"
  "j \<in> set (dlq_list r) \<Longrightarrow> j \<in> set (dlq_list (snd (PushDLQ rp i r)))"
  "j \<in> set (dlq_list (snd (PushDLQ rp i r))) \<Longrightarrow> j = i \<or> j \<in> set (dlq_list r)"
  by (auto simp: remove_one_def RemoveDLQ_def PushDLQ_def redis_do_def split: reply.splits)

lemma remove_all_keeps:
  "set (dlq_list (fold (remove_one e) is r)) \<subseteq> set (dlq_list r)
   \<and> set (dlq_list r) - set is \<subseteq> set (dlq_list (fold (remove_one e) is r))"
proof (induction "is" arbitrary: r)
  case (Cons i "is")
  then show ?case using Cons.IH [of "remove_one e i r"] index_ops(1,2) [where e = e and i = i and r = r] by auto blast
qed simp

lemma repush_safe:
  "set (dlq_list r) \<subseteq> set (dlq_list (fold (repush_one pg e d ls) is r))
   \<and> (\<forall>i \<in> set (dlq_list (fold (repush_one pg e d ls) is r)). i \<in> set (dlq_list r) \<or> flagged_in pg d i)"
proof (induction "is" arbitrary: r)
  case (Cons i "is")
  have "set (dlq_list r) \<subseteq> set (dlq_list (repush_one pg e d ls i r))
      \<and> (\<forall>j \<in> set (dlq_list (repush_one pg e d ls i r)). j \<in> set (dlq_list r) \<or> flagged_in pg d j)"
    using IsInDLQ_flagged [of pg "re_isin e i" d i]
    by (auto simp: repush_one_def index_ops(3) split: sum.splits dest: index_ops(4))
  then show ?case using Cons.IH [of "repush_one pg e d ls i r"] by auto
qed simp

lemma unlist_safe:
  "set (dlq_list (fold (unlist_one pg e d fs) is r)) \<subseteq> set (dlq_list r)
   \<and> (\<forall>i \<in> set (dlq_list r). flagged_in pg d i \<longrightarrow> i \<in> set (dlq_list (fold (unlist_one pg e d fs) is r)))"
proof (induction "is" arbitrary: r)
  case (Cons i "is")
  have "j \<in> set (dlq_list (unlist_one pg e d fs i r))" if "j \<in> set (dlq_list r)" "flagged_in pg d j" for j
    using that IsInDLQ_flagged [of pg "re_isin e i" d i] index_ops(2) [of j r i e]
    by (cases "j = i") (auto simp: unlist_one_def)
  moreover have "set (dlq_list (unlist_one pg e d fs i r)) \<subseteq> set (dlq_list r)"
    by (auto simp: unlist_one_def split: sum.splits if_splits dest: index_ops(1))
  ultimately show ?case using Cons.IH [of "unlist_one pg e d fs i r"] unfolding fold_simps by blast
qed simp

lemma ForceAck_result: "ForceAckOldDLQ c d maxAge = (Inr ids, d') \<Longrightarrow>
    ids = map d_id (filter (aged_dlq c maxAge) (delivery_logs d))
  \<and> d' = d\<lparr>delivery_logs := sql_update (aged_dlq c maxAge) (acked_row c) (delivery_logs d)\<rparr>"
  by (auto simp: ForceAckOldDLQ_def force_ack_stmt_def split: prod.splits sum.splits dest!: pool_run_Inr)

text \<open>C27. The reconciler never makes the index worse: whatever fails, and whatever other processes did to the
  database after the snapshots, an entry for a row that is still flagged stays in the list unless the row
  was just force-acknowledged for age, and an entry is added only for a row that is still flagged.\<close>

theorem reconcile_safe:
  assumes "reconcile pg maxAge e d r = (d', r')"
    and "aged = d_id ` {x \<in> set (delivery_logs d). aged_dlq (re_force e) maxAge x}"
  shows "(\<forall>i \<in> set (dlq_list r). flagged_in pg d' i \<and> i \<notin> aged \<longrightarrow> i \<in> set (dlq_list r'))
    \<and> (\<forall>i \<in> set (dlq_list r'). i \<in> set (dlq_list r) \<or> flagged_in pg d' i)"
proof -
  obtain res d1 where f: "ForceAckOldDLQ (re_force e) d maxAge = (res, d1)" by fastforce
  show ?thesis
  proof (cases res)
    case (Inl err)
    then show ?thesis using assms(1) f by (auto simp: reconcile_def)
  next
    case (Inr forced)
    let ?r1 = "fold (remove_one e) forced r"
    have forced: "set forced = aged" using ForceAck_result [of "re_force e" d maxAge forced d1] f Inr assms(2) by auto
    have r1: "set (dlq_list ?r1) \<subseteq> set (dlq_list r)" "set (dlq_list r) - aged \<subseteq> set (dlq_list ?r1)"
      using remove_all_keeps [of e forced r] forced by simp_all
    consider "r' = ?r1" | fs ls where "d' = re_other e d1"
      "r' = fold (unlist_one pg e d' fs) ls (fold (repush_one pg e d' ls) fs ?r1)"
      using assms(1) f Inr by (auto simp: reconcile_def Let_def split: sum.splits)
    then show ?thesis
    proof cases
      case 1
      then show ?thesis using r1 by auto
    next
      case 2
      let ?r2 = "fold (repush_one pg e d' ls) fs ?r1"
      note p = repush_safe [of ?r1 pg e d' ls fs] and u = unlist_safe [of pg e d' fs ls ?r2]
      show ?thesis unfolding 2(2) using p u r1 by (intro conjI ballI impI) blast+
    qed
  qed
qed

text \<open>A run with no fault and no concurrent writer.\<close>

definition quiet_recon :: "recon_env \<Rightarrow> bool" where
  "quiet_recon e \<longleftrightarrow> faultless (re_force e) \<and> faultless (re_flagged e) \<and> re_listed e = Done \<and> (\<forall>i. faultless (re_isin e i))
     \<and> (\<forall>d. re_other e d = d) \<and> (\<forall>i. re_push e i = Done \<and> re_rem e i = Done)"

lemma quiet_steps:
  assumes "quiet_recon e"
  shows "remove_one e = (\<lambda>i r. snd (RemoveDLQ Done i r))"
    and "repush_one pg e d ls = (\<lambda>i. if i \<notin> set ls \<and> flagged_in pg d i then (\<lambda>r. snd (PushDLQ Done i r)) else id)"
    and "unlist_one pg e d fs = (\<lambda>i. if i \<notin> set fs \<and> \<not> flagged_in pg d i then (\<lambda>r. snd (RemoveDLQ Done i r)) else id)"
  using assms by (auto simp: fun_eq_iff quiet_recon_def remove_one_def repush_one_def unlist_one_def IsInDLQ_faultless)

lemma fold_if_filter:
  assumes "\<And>x. x \<in> set xs \<Longrightarrow> P x = Q x"
  shows "fold (\<lambda>x. if P x then f x else id) xs = fold f (filter Q xs)"
  unfolding fold_filter using assms by (intro ext fold_cong) auto

lemma flagged_in_iff:
  assumes "db_inv pg t d" and "\<And>j. uuid_in pg i = Some j \<Longrightarrow> j = i"
  shows "flagged_in pg d i \<longleftrightarrow> i \<in> set (map d_id (filter d_in_dlq (delivery_logs d)))"
proof
  assume "flagged_in pg d i"
  then show "i \<in> set (map d_id (filter d_in_dlq (delivery_logs d)))"
    using assms(2) by (force simp: flagged_in_def select_log_def dest: lookup_row_SomeD split: option.splits sum.splits)
next
  assume "i \<in> set (map d_id (filter d_in_dlq (delivery_logs d)))"
  then obtain x where x: "x \<in> set (delivery_logs d)" "d_in_dlq x" "d_id x = i" by auto
  then have "uuid_in pg i = Some i" "log_by_id d i = Some x"
    using assms(1) db_inv_key [OF assms(1)] by (auto simp: db_inv_def core_inv_def lookup_row_eq)
  then show "flagged_in pg d i" using x by (simp add: flagged_in_def select_log_def)
qed

text \<open>C26. The reconciler repairs the index: on a well-formed database, with no fault and no concurrent writer,
  one pass leaves the Redis list with exactly the rows that are flagged in the database, whatever entries
  had been lost or left behind, provided every listed id that names a row is spelled canonically (the
  program only pushes ids it read from the database); the only rows it changes are the aged ones, whose
  flag is cleared.\<close>

theorem reconcile_converges:
  assumes "db_inv pg t d" and "quiet_recon e" and "t \<le> c_now (re_force e)"
    and "\<forall>i \<in> set (dlq_list r). \<forall>j. uuid_in pg i = Some j \<longrightarrow> j = i"
    and "reconcile pg maxAge e d r = (d', r')"
  shows "set (dlq_list r') = d_id ` {x \<in> set (delivery_logs d'). d_in_dlq x}
    \<and> d' = d\<lparr>delivery_logs := sql_update (aged_dlq (re_force e) maxAge) (acked_row (re_force e)) (delivery_logs d)\<rparr>"
proof -
  let ?d1 = "d\<lparr>delivery_logs := sql_update (aged_dlq (re_force e) maxAge) (acked_row (re_force e)) (delivery_logs d)\<rparr>"
  let ?forced = "map d_id (filter (aged_dlq (re_force e) maxAge) (delivery_logs d))"
  let ?fs = "map d_id (filter d_in_dlq (delivery_logs ?d1))"
  let ?r1 = "fold (\<lambda>i r. snd (RemoveDLQ Done i r)) ?forced r"
  have f: "ForceAckOldDLQ (re_force e) d maxAge = (Inr ?forced, ?d1)"
    using assms(2) by (simp add: ForceAckOldDLQ_def pool_run_def force_ack_stmt_def quiet_recon_def faultless_def)
  have inv: "db_inv pg (c_now (re_force e)) ?d1"
    using ForceAck_inv [OF assms(1,3), of maxAge] f by simp
  have lists: "ListInDLQ (re_flagged e) ?d1 = Inr ?fs" "ListDLQ (re_listed e) ?r1 = Inr (dlq_list ?r1)" "re_other e ?d1 = ?d1"
    using assms(2) by (simp_all add: quiet_recon_def ListInDLQ_def ListDLQ_def redis_do_def faultless_def)
  have r1: "set (dlq_list ?r1) \<subseteq> set (dlq_list r)" using dlq.listed_removes [of ?forced r] by auto
  have flag: "flagged_in pg ?d1 i \<longleftrightarrow> i \<in> set ?fs" if "i \<in> set ?fs \<or> i \<in> set (dlq_list ?r1)" for i
  proof (rule flagged_in_iff [OF inv])
    fix j assume "uuid_in pg i = Some j"
    moreover have "uuid_in pg i = Some i" if "i \<in> set ?fs" using that inv by (auto simp: db_inv_def core_inv_def)
    ultimately show "j = i" using that r1 assms(4) by auto
  qed
  have push: "fold (repush_one pg e ?d1 (dlq_list ?r1)) ?fs = fold (\<lambda>i r. snd (PushDLQ Done i r)) (filter (\<lambda>i. i \<notin> set (dlq_list ?r1)) ?fs)"
    unfolding quiet_steps(2) [OF assms(2)] by (rule fold_if_filter) (use flag in auto)
  have rem: "fold (unlist_one pg e ?d1 ?fs) (dlq_list ?r1) = fold (\<lambda>i r. snd (RemoveDLQ Done i r)) (filter (\<lambda>i. i \<notin> set ?fs) (dlq_list ?r1))"
    unfolding quiet_steps(3) [OF assms(2)] by (rule fold_if_filter) (use flag in auto)
  have "(d', r') = (?d1, fold (unlist_one pg e ?d1 ?fs) (dlq_list ?r1) (fold (repush_one pg e ?d1 (dlq_list ?r1)) ?fs ?r1))"
    unfolding assms(5) [symmetric]
    by (simp only: reconcile_def f prod.case sum.case Let_def quiet_steps(1) [OF assms(2)] lists)
  then have "d' = ?d1" and "r' = fold (unlist_one pg e ?d1 ?fs) (dlq_list ?r1) (fold (repush_one pg e ?d1 (dlq_list ?r1)) ?fs ?r1)"
    by (iprover elim: Pair_inject)+
  moreover have "set ?fs = d_id ` {x \<in> set (delivery_logs ?d1). d_in_dlq x}" by simp
  ultimately show ?thesis using dlq.repair_exact [of "dlq_list ?r1" ?r1 ?fs] by (simp only: push rem)
qed

definition demo_recon :: recon_env where
  "demo_recon = \<lparr>re_force = ok_call 7 ''u'', re_flagged = ok_call 7 ''u'', re_listed = Done, re_isin = (\<lambda>_. ok_call 7 ''u''),
     re_other = (\<lambda>d. d), re_push = (\<lambda>_. Done), re_rem = (\<lambda>_. Done)\<rparr>"

theorem reconcile_safe_witness:
  "''b'' \<in> set (dlq_list (snd (reconcile plain_pg hour (demo_recon\<lparr>re_listed := NotRun\<rparr>) demo_db4 \<lparr>work_queue = [], dlq_list = [''b''], schedule = []\<rparr>)))"
proof -
  let ?e = "demo_recon\<lparr>re_listed := NotRun\<rparr>" and ?r = "\<lparr>work_queue = [], dlq_list = [''b''], schedule = []\<rparr>"
  have "flagged_in plain_pg (fst (reconcile plain_pg hour ?e demo_db4 ?r)) ''b''"
    "filter (aged_dlq (re_force ?e) hour) (delivery_logs demo_db4) = []" by code_simp+
  then show ?thesis using reconcile_safe [OF surjective_pairing refl, where pg = plain_pg and maxAge = hour and e = ?e and d = demo_db4 and r = ?r]
    by (auto simp: filter_empty_conv)
qed

theorem reconcile_converges_witness:
  "set (dlq_list (snd (reconcile plain_pg hour demo_recon demo_db4 \<lparr>work_queue = [], dlq_list = [''gone''], schedule = []\<rparr>)))
    = d_id ` {x \<in> set (delivery_logs (fst (reconcile plain_pg hour demo_recon demo_db4 \<lparr>work_queue = [], dlq_list = [''gone''], schedule = []\<rparr>))). d_in_dlq x}"
proof -
  have "quiet_recon demo_recon" by (simp add: quiet_recon_def demo_recon_def)
  moreover have "c_now (re_force demo_recon) = 7" by (simp add: demo_recon_def)
  ultimately show ?thesis
    using reconcile_converges [OF demo_inv4 _ _ _ surjective_pairing, where maxAge = hour and e = demo_recon
      and r = "\<lparr>work_queue = [], dlq_list = [''gone''], schedule = []\<rparr>"]
    by (simp add: plain_pg_def)
qed

end
