(* ===== verification/Processes.thy ===== *)
theory Processes
  imports Redis Subscription_State Recovery
begin

text \<open>
  The long-lived processes: the delivery pool (\<^verbatim>\<open>internal/worker/pool.go\<close>), the supervisor
  (\<^verbatim>\<open>internal/lifecycle/supervisor.go\<close>) and the registry sweeper of \<^verbatim>\<open>cmd/server/main.go\<close>. Goroutines
  interleave, so pool and supervisor are step relations; one step is one statement that synchronises.
\<close>

section \<open>Worker pool\<close>

text \<open>Where \<^verbatim>\<open>Start\<close> is: at the loop head, blocked in \<^verbatim>\<open>g.Go\<close> with a dequeued task, in \<^verbatim>\<open>g.Wait\<close>, or
  returned. \<open>p_taken\<close> and \<open>p_done\<close> record the tasks dequeued and the deliveries that have ended.\<close>

datatype pool_pc = AtHead | Holding string | Draining | Returned

record pool =
  p_redis :: redis
  p_cancelled :: bool
  p_running :: bool
  p_pc :: pool_pc
  p_inflight :: "string list"
  p_taken :: "string list"
  p_done :: "string list"

definition pool_start :: "redis \<Rightarrow> pool" where
  "pool_start r = \<lparr>p_redis = r, p_cancelled = False, p_running = True, p_pc = AtHead, p_inflight = [], p_taken = [], p_done = []\<rparr>"

inductive pool_step :: "nat \<Rightarrow> pool \<Rightarrow> pool \<Rightarrow> bool" for concurrency where
  cancel: "pool_step concurrency p (p\<lparr>p_cancelled := True\<rparr>)"
| produce: "pool_step concurrency p (p\<lparr>p_redis := r\<rparr>)"
| take_task: "p_pc p = AtHead \<Longrightarrow> \<not> p_cancelled p \<Longrightarrow> Dequeue rp (p_redis p) = (Inr i, r) \<Longrightarrow>
    pool_step concurrency p (p\<lparr>p_redis := r, p_pc := Holding i, p_taken := i # p_taken p\<rparr>)"
| take_fails: "p_pc p = AtHead \<Longrightarrow> \<not> p_cancelled p \<Longrightarrow> Dequeue rp (p_redis p) = (Inl err, r) \<Longrightarrow>
    pool_step concurrency p (p\<lparr>p_redis := r\<rparr>)"
| go: "p_pc p = Holding i \<Longrightarrow> length (p_inflight p) < concurrency \<Longrightarrow>
    pool_step concurrency p (p\<lparr>p_pc := AtHead, p_inflight := i # p_inflight p\<rparr>)"
| delivered: "i \<in> set (p_inflight p) \<Longrightarrow>
    pool_step concurrency p (p\<lparr>p_inflight := remove1 i (p_inflight p), p_done := i # p_done p\<rparr>)"
| leave: "p_pc p = AtHead \<Longrightarrow> p_cancelled p \<Longrightarrow> pool_step concurrency p (p\<lparr>p_pc := Draining\<rparr>)"
| return: "p_pc p = Draining \<Longrightarrow> p_inflight p = [] \<Longrightarrow>
    pool_step concurrency p (p\<lparr>p_pc := Returned, p_running := False\<rparr>)"

definition Running :: "pool \<Rightarrow> bool" where
  "Running p = p_running p"

fun held :: "pool_pc \<Rightarrow> string list" where
  "held (Holding i) = [i]"
| "held _ = []"

definition pool_inv :: "nat \<Rightarrow> pool \<Rightarrow> bool" where
  "pool_inv n p \<longleftrightarrow> length (p_inflight p) \<le> n \<and> (p_running p \<longleftrightarrow> p_pc p \<noteq> Returned)
     \<and> (p_pc p = Returned \<longrightarrow> p_inflight p = [])
     \<and> mset (p_taken p) = mset (held (p_pc p)) + mset (p_inflight p) + mset (p_done p)"

lemma pool_inv_step:
  assumes "pool_inv n p" and "pool_step n p p'"
  shows "pool_inv n p'"
  using assms(2,1)
  by cases (auto simp: pool_inv_def length_remove1)

interpretation workers: step_invariant "pool_step n" "pool_inv n" for n
  by unfold_locales (rule pool_inv_step)

lemma pool_inv_start: "pool_inv n (pool_start r)"
  by (simp add: pool_inv_def pool_start_def)

text \<open>Deliveries in flight can all be waited for.\<close>

lemma pool_finish_all:
  "\<exists>p'. (pool_step n)\<^sup>*\<^sup>* p p' \<and> p_inflight p' = [] \<and> p_pc p' = p_pc p \<and> p_cancelled p' = p_cancelled p \<and> p_taken p' = p_taken p"
proof (induction "length (p_inflight p)" arbitrary: p)
  case (Suc k)
  then obtain i where i: "i \<in> set (p_inflight p)" by (metis length_greater_0_conv nth_mem zero_less_Suc)
  let ?p = "p\<lparr>p_inflight := remove1 i (p_inflight p), p_done := i # p_done p\<rparr>"
  have "k = length (p_inflight ?p)" using Suc(2) i by (simp add: length_remove1)
  from Suc.hyps(1) [OF this] delivered [OF i, of n] show ?case by (auto intro: converse_rtranclp_into_rtranclp)
qed auto

lemma pool_can_return:
  assumes "p_cancelled p" and "1 \<le> n"
  shows "\<exists>p'. (pool_step n)\<^sup>*\<^sup>* p p' \<and> p_pc p' = Returned \<and> p_taken p' = p_taken p"
proof -
  from pool_finish_all [of n p] obtain p1 where
    p1: "(pool_step n)\<^sup>*\<^sup>* p p1" "p_inflight p1 = []" "p_pc p1 = p_pc p" "p_cancelled p1" "p_taken p1 = p_taken p"
    using assms(1) by auto
  have out: "\<exists>q. (pool_step n)\<^sup>*\<^sup>* p2 q \<and> p_pc q = Returned \<and> p_taken q = p_taken p2" if dr: "p_pc p2 = Draining" for p2
  proof -
    from pool_finish_all [of n p2] obtain q where q: "(pool_step n)\<^sup>*\<^sup>* p2 q" "p_inflight q = []" "p_pc q = Draining" "p_taken q = p_taken p2"
      using dr by auto
    from return [OF q(3,2), of n] q show ?thesis by (auto intro!: exI [of _ "q\<lparr>p_pc := Returned, p_running := False\<rparr>"])
  qed
  have head: "\<exists>q. (pool_step n)\<^sup>*\<^sup>* p2 q \<and> p_pc q = Returned \<and> p_taken q = p_taken p2"
    if "p_pc p2 = AtHead" "p_cancelled p2" for p2
    using out [of "p2\<lparr>p_pc := Draining\<rparr>"] leave [OF that, of n] by (auto intro: converse_rtranclp_into_rtranclp)
  have "\<exists>q. (pool_step n)\<^sup>*\<^sup>* p1 q \<and> p_pc q = Returned \<and> p_taken q = p_taken p1"
  proof (cases "p_pc p1")
    case (Holding i)
    have "pool_step n p1 (p1\<lparr>p_pc := AtHead, p_inflight := i # p_inflight p1\<rparr>)"
      using go [OF Holding, of n] p1(2) assms(2) by simp
    with head [of "p1\<lparr>p_pc := AtHead, p_inflight := i # p_inflight p1\<rparr>"] p1(4) show ?thesis
      by (auto intro: converse_rtranclp_into_rtranclp)
  next
    case AtHead
    then show ?thesis using head [OF _ p1(4)] by blast
  next
    case Draining
    then show ?thesis using out by blast
  qed auto
  with p1 show ?thesis by (metis rtranclp_trans)
qed



section \<open>Supervisor\<close>

text \<open>A goroutine of the group: running, or ended with its error if it had one. \<open>sv_cancelled\<close> is the state
  of the shared context; \<open>sv_error\<close> is the first error, which the group keeps.\<close>

datatype routine = Live | Ended "string option"

record supervisor =
  sv_cancelled :: bool
  sv_server :: routine
  sv_shutdown :: routine
  sv_processes :: "(string \<times> routine) list"
  sv_error :: "string option"

definition sv_start :: "string list \<Rightarrow> supervisor" where
  "sv_start names = \<lparr>sv_cancelled = False, sv_server = Live, sv_shutdown = Live,
     sv_processes = map (\<lambda>n. (n, Live)) names, sv_error = None\<rparr>"

text \<open>\<open>errgroup\<close> keeps the first error and cancels its context with it.\<close>

definition record_exit :: "string option \<Rightarrow> supervisor \<Rightarrow> supervisor" where
  "record_exit err s = (case err of None \<Rightarrow> s
     | Some e \<Rightarrow> s\<lparr>sv_error := (case sv_error s of None \<Rightarrow> Some e | Some e0 \<Rightarrow> Some e0), sv_cancelled := True\<rparr>)"

datatype serve_result = ServerClosed | ServeFailed string

text \<open>The three kinds of goroutine of \<^verbatim>\<open>Run\<close>, by the statement that ends them.\<close>

definition serve_exit :: "serve_result \<Rightarrow> supervisor \<Rightarrow> supervisor" where
  "serve_exit res s =
     (let err = (case res of ServerClosed \<Rightarrow> None | ServeFailed e \<Rightarrow> Some (''http serve: '' @ e)) in
      record_exit err (s\<lparr>sv_server := Ended err, sv_cancelled := True\<rparr>))"

definition shutdown_exit :: "string option \<Rightarrow> supervisor \<Rightarrow> supervisor" where
  "shutdown_exit res s =
     (let err = map_option (\<lambda>e. ''http shutdown: '' @ e) res in record_exit err (s\<lparr>sv_shutdown := Ended err\<rparr>))"

definition process_exit :: "nat \<Rightarrow> string option \<Rightarrow> supervisor \<Rightarrow> supervisor" where
  "process_exit k res s =
     (let n = fst (sv_processes s ! k); err = map_option (\<lambda>e. ''process '' @ n @ '': '' @ e) res in
      record_exit err (s\<lparr>sv_processes := (sv_processes s)[k := (n, Ended err)], sv_cancelled := True\<rparr>))"

inductive sv_step :: "supervisor \<Rightarrow> supervisor \<Rightarrow> bool" where
  parent: "sv_step s (s\<lparr>sv_cancelled := True\<rparr>)"
| serve: "sv_server s = Live \<Longrightarrow> sv_step s (serve_exit res s)"
| shutdown: "sv_shutdown s = Live \<Longrightarrow> sv_cancelled s \<Longrightarrow> sv_step s (shutdown_exit res' s)"
| process: "k < length (sv_processes s) \<Longrightarrow> snd (sv_processes s ! k) = Live \<Longrightarrow> sv_step s (process_exit k res' s)"

definition routines :: "supervisor \<Rightarrow> routine list" where
  "routines s = sv_server s # sv_shutdown s # map snd (sv_processes s)"

text \<open>\<^verbatim>\<open>g.Wait()\<close>: blocks (\<open>None\<close>) while a goroutine runs, then returns the first error.\<close>

definition sv_result :: "supervisor \<Rightarrow> string option option" where
  "sv_result s = (if Live \<in> set (routines s) then None else Some (map_option (\<lambda>e. ''supervisor: '' @ e) (sv_error s)))"

definition sv_inv :: "supervisor \<Rightarrow> bool" where
  "sv_inv s \<longleftrightarrow> (\<forall>g \<in> set (routines s). g \<noteq> Live \<longrightarrow> sv_cancelled s)
     \<and> (sv_error s \<noteq> None \<longrightarrow> sv_cancelled s \<and> Ended (sv_error s) \<in> set (routines s))
     \<and> (sv_error s = None \<longrightarrow> (\<forall>g \<in> set (routines s). g = Live \<or> g = Ended None))"

lemma record_exit_sel:
  "sv_server (record_exit err s) = sv_server s" "sv_shutdown (record_exit err s) = sv_shutdown s"
  "sv_processes (record_exit err s) = sv_processes s" "routines (record_exit err s) = routines s"
  "sv_cancelled (record_exit err s) = (err \<noteq> None \<or> sv_cancelled s)"
  "sv_error (record_exit err s) = (case sv_error s of None \<Rightarrow> err | Some e \<Rightarrow> Some e)"
  by (auto simp: record_exit_def routines_def split: option.splits)

text \<open>One goroutine ends.\<close>

lemma sv_inv_exit:
  assumes inv: "sv_inv s" and upd: "routines s' = (routines s)[j := Ended err]" and j: "j < length (routines s)" "routines s ! j = Live"
    and c: "sv_cancelled s'" "sv_error s' = sv_error s"
  shows "sv_inv (record_exit err s')"
proof -
  have g: "set (routines s') \<subseteq> insert (Ended err) (set (routines s))" unfolding upd by (rule set_update_subset_insert)
  have keep: "x \<in> set (routines s')" if "x \<in> set (routines s)" "x \<noteq> Live" for x
    using that j unfolding upd by (metis in_set_conv_nth length_list_update nth_list_update_neq)
  have new: "Ended err \<in> set (routines s')" unfolding upd using j by (simp add: set_update_memI)
  show ?thesis
    using inv g keep new c unfolding sv_inv_def record_exit_sel
    by (auto split: option.splits)
qed

lemma sv_inv_step:
  assumes "sv_inv s" and "sv_step s s'"
  shows "sv_inv s'"
  using assms(2)
proof cases
  case parent
  then show ?thesis using assms(1) by (simp add: sv_inv_def routines_def)
next
  case (serve res)
  show ?thesis unfolding serve(1) serve_exit_def Let_def
    by (rule sv_inv_exit [OF assms(1), where j = 0]) (use serve in \<open>simp_all add: routines_def\<close>)
next
  case (shutdown res)
  show ?thesis unfolding shutdown(1) shutdown_exit_def Let_def
    by (rule sv_inv_exit [OF assms(1), where j = 1]) (use shutdown in \<open>simp_all add: routines_def\<close>)
next
  case (process k res)
  show ?thesis unfolding process(1) process_exit_def Let_def
    by (rule sv_inv_exit [OF assms(1), where j = "k + 2"]) (use process in \<open>simp_all add: routines_def map_update\<close>)
qed

interpretation supervised: step_invariant sv_step sv_inv
  by unfold_locales (rule sv_inv_step)

lemma sv_inv_start: "sv_inv (sv_start names)"
  by (auto simp: sv_inv_def sv_start_def routines_def)

text \<open>C29. One exit stops the service, and no failure is swallowed: in every interleaving, as soon as the
  server, the shutdown or a process has ended, the shared context is cancelled; \<open>Run\<close> returns only when
  every goroutine has ended, returns nil exactly when each ended without an error, and otherwise returns
  the error of one that failed.\<close>

theorem supervisor_stops_together:
  assumes "sv_step\<^sup>*\<^sup>* (sv_start names) s"
  shows "((\<exists>g \<in> set (routines s). g \<noteq> Live) \<longrightarrow> sv_cancelled s)
    \<and> (sv_result s \<noteq> None \<longleftrightarrow> (\<forall>g \<in> set (routines s). g \<noteq> Live))
    \<and> (sv_result s = Some None \<longleftrightarrow> (\<forall>g \<in> set (routines s). g = Ended None))
    \<and> (\<forall>e. sv_result s = Some (Some e) \<longrightarrow> (\<exists>e'. e = ''supervisor: '' @ e' \<and> Ended (Some e') \<in> set (routines s)))"
proof -
  have inv: "sv_inv s" using supervised.run_pres [OF assms sv_inv_start] .
  have "sv_result s = Some None \<longleftrightarrow> (\<forall>g \<in> set (routines s). g = Ended None)"
    using inv unfolding sv_inv_def sv_result_def by (cases "sv_error s") auto
  moreover have "\<exists>e'. e = ''supervisor: '' @ e' \<and> Ended (Some e') \<in> set (routines s)" if "sv_result s = Some (Some e)" for e
    using that inv unfolding sv_inv_def sv_result_def by (auto split: if_splits)
  moreover have "sv_result s \<noteq> None \<longleftrightarrow> (\<forall>g \<in> set (routines s). g \<noteq> Live)" by (auto simp: sv_result_def)
  ultimately show ?thesis using inv unfolding sv_inv_def by blast
qed

theorem supervisor_stops_together_witness:
  "sv_cancelled (process_exit 0 (Some ''boom'') (sv_start [''pool'']))
    \<and> sv_result (process_exit 0 (Some ''boom'') (sv_start [''pool''])) = None"
proof -
  let ?s = "process_exit 0 (Some ''boom'') (sv_start [''pool''])"
  have "sv_step (sv_start [''pool'']) ?s" by (rule process) (simp_all add: sv_start_def)
  then have "sv_step\<^sup>*\<^sup>* (sv_start [''pool'']) ?s" ..
  from supervisor_stops_together [OF this] show ?thesis
    by (auto simp: process_exit_def sv_start_def record_exit_sel routines_def Let_def)
qed

section \<open>Registry sweeper\<close>

definition sweepInterval :: "duration \<Rightarrow> duration" where
  "sweepInterval idleTTL' = (let d = idleTTL' sdiv 2 in if d < minute then minute else d)"

text \<open>One tick of \<^verbatim>\<open>runSweep\<close> over the subscription state and the breaker registry.\<close>

definition sweep_tick :: "time \<Rightarrow> SubState \<times> nat Registry \<Rightarrow> SubState \<times> nat Registry" where
  "sweep_tick now s = (snd (StateSweep now (fst s)), snd (RegSweep now (snd s)))"

definition runSweep :: "time wake list \<Rightarrow> SubState \<times> nat Registry \<Rightarrow> SubState \<times> nat Registry" where
  "runSweep ws s = tick_loop sweep_tick ws s"

end
