(* ===== verification/Connections.thy ===== *)
theory Connections
  imports Strconv
begin

text \<open>
  Connections and migrations, \<^verbatim>\<open>internal/store/db.go\<close>. The driver packages (pgxpool, go-redis and
  golang-migrate) are parameters: each of their calls is a function that gives the error it returns, or
  nothing. The state is what the process holds of the outside world: the handles it has opened and not
  yet closed, newest first, and the schema of the database, whose type the migration library alone knows.
  The embedded migration source holds no connection and is not a handle.
\<close>

section \<open>Drivers and handles\<close>

datatype handle = PgPool string | RedisClient string | Migrator string

record 'v host =
  h_open :: "handle list"
  h_schema :: 'v

record PoolConfig =
  pc_dsn :: string
  MaxConnLifetime :: duration
  MaxConnIdleTime :: duration
  HealthCheckPeriod :: duration

text \<open>The answers of \<^verbatim>\<open>Up\<close> and \<^verbatim>\<open>Steps\<close>; \<open>ErrNoChange\<close> is the sentinel of golang-migrate.\<close>

datatype migrate_answer = Migrated | ErrNoChange | MigrateError string

record 'v drivers =
  pgx_ParseConfig :: "string \<Rightarrow> string + PoolConfig"
  pgx_NewWithConfig :: "PoolConfig \<Rightarrow> string option"
  pgx_Ping :: "string \<Rightarrow> string option"
  redis_ParseURL :: "string \<Rightarrow> string option"
  redis_Ping :: "string \<Rightarrow> string option"
  iofs_New :: "string option"
  NewWithSourceInstance :: "string \<Rightarrow> string option"
  mig_Up :: "string \<Rightarrow> 'v \<Rightarrow> migrate_answer \<times> 'v"
  mig_Steps :: "int \<Rightarrow> string \<Rightarrow> 'v \<Rightarrow> migrate_answer \<times> 'v"

definition acquire :: "handle \<Rightarrow> 'v host \<Rightarrow> 'v host" where
  "acquire h w = w\<lparr>h_open := h # h_open w\<rparr>"

definition close_handle :: "handle \<Rightarrow> 'v host \<Rightarrow> 'v host" where
  "close_handle h w = w\<lparr>h_open := remove1 h (h_open w)\<rparr>"

section \<open>Operations\<close>

text \<open>The result of an operation that opens something is the error text or the handle.\<close>

definition NewPool :: "'v drivers \<Rightarrow> string \<Rightarrow> 'v host \<Rightarrow> (string + handle) \<times> 'v host" where
  "NewPool dr dsn w =
     (case pgx_ParseConfig dr dsn of
        Inl e \<Rightarrow> (Inl (''store: parse database dsn: '' @ e), w)
      | Inr cfg0 \<Rightarrow>
         (let cfg = cfg0\<lparr>MaxConnLifetime := hour, MaxConnIdleTime := 30 * minute, HealthCheckPeriod := minute\<rparr> in
          case pgx_NewWithConfig dr cfg of
            Some e \<Rightarrow> (Inl (''store: create pgx pool: '' @ e), w)
          | None \<Rightarrow>
             (let pool = PgPool (pc_dsn cfg); w = acquire pool w in
              case pgx_Ping dr (pc_dsn cfg) of
                Some e \<Rightarrow> (Inl (''store: ping database: '' @ e), close_handle pool w)
              | None \<Rightarrow> (Inr pool, w))))"

definition NewRedis :: "'v drivers \<Rightarrow> string \<Rightarrow> 'v host \<Rightarrow> (string + handle) \<times> 'v host" where
  "NewRedis dr url w =
     (case redis_ParseURL dr url of
        Some e \<Rightarrow> (Inl (''store: parse redis url: '' @ e), w)
      | None \<Rightarrow>
         (let client = RedisClient url; w = acquire client w in
          case redis_Ping dr url of
            Some e \<Rightarrow> (Inl (''store: ping redis: '' @ e), close_handle client w)
          | None \<Rightarrow> (Inr client, w)))"

fun rewrite_scheme :: "string list \<Rightarrow> string \<Rightarrow> string" where
  "rewrite_scheme [] dsn = dsn"
| "rewrite_scheme (p # ps) dsn = (if HasPrefix dsn p then ''pgx5://'' @ TrimPrefix dsn p else rewrite_scheme ps dsn)"

definition toMigrateURL :: "string \<Rightarrow> string" where
  "toMigrateURL dsn = rewrite_scheme [''postgresql://'', ''postgres://''] dsn"

definition newMigrator :: "'v drivers \<Rightarrow> string \<Rightarrow> 'v host \<Rightarrow> (string + handle) \<times> 'v host" where
  "newMigrator dr dsn w =
     (case iofs_New dr of
        Some e \<Rightarrow> (Inl (''store: open embedded migrations: '' @ e), w)
      | None \<Rightarrow>
         (case NewWithSourceInstance dr (toMigrateURL dsn) of
            Some e \<Rightarrow> (Inl (''store: init migrator: '' @ e), w)
          | None \<Rightarrow> (let m = Migrator (toMigrateURL dsn) in (Inr m, acquire m w))))"

text \<open>Both errors of \<^verbatim>\<open>Close\<close> are dropped.\<close>

definition closeMigrator :: "handle \<Rightarrow> 'v host \<Rightarrow> 'v host" where
  "closeMigrator m w = close_handle m w"

definition MigrateUp :: "'v drivers \<Rightarrow> string \<Rightarrow> 'v host \<Rightarrow> string option \<times> 'v host" where
  "MigrateUp dr dsn w =
     (case newMigrator dr dsn w of
        (Inl e, w) \<Rightarrow> (Some e, w)
      | (Inr m, w) \<Rightarrow>
         (case mig_Up dr (toMigrateURL dsn) (h_schema w) of (answer, v) \<Rightarrow>
            ((case answer of MigrateError e \<Rightarrow> Some (''store: migrate up: '' @ e) | _ \<Rightarrow> None),
             closeMigrator m (w\<lparr>h_schema := v\<rparr>))))"

definition MigrateDown :: "'v drivers \<Rightarrow> string \<Rightarrow> 'v host \<Rightarrow> string option \<times> 'v host" where
  "MigrateDown dr dsn w =
     (case newMigrator dr dsn w of
        (Inl e, w) \<Rightarrow> (Some e, w)
      | (Inr m, w) \<Rightarrow>
         (case mig_Steps dr (- 1) (toMigrateURL dsn) (h_schema w) of (answer, v) \<Rightarrow>
            ((case answer of MigrateError e \<Rightarrow> Some (''store: migrate down: '' @ e) | _ \<Rightarrow> None),
             closeMigrator m (w\<lparr>h_schema := v\<rparr>))))"

section \<open>Ownership of handles\<close>

text \<open>An operation owns what it opens: it returns the one handle it leaves open, or leaves none.\<close>

lemma acquire_close [simp]: "close_handle h (acquire h w) = w"
  by (simp add: acquire_def close_handle_def)

lemma acquire_open [simp]: "h_open (acquire h w) = h # h_open w" "h_schema (acquire h w) = h_schema w"
  by (simp_all add: acquire_def)

lemma close_after_schema [simp]: "close_handle h ((acquire h w)\<lparr>h_schema := v\<rparr>) = w\<lparr>h_schema := v\<rparr>"
  by (simp add: acquire_def close_handle_def)

lemma NewPool_owns:
  "NewPool dr dsn w = (r, w') \<Longrightarrow> fst (NewPool dr dsn w) = r \<and> w' = (case r of Inl _ \<Rightarrow> w | Inr h \<Rightarrow> acquire h w)"
  by (auto simp: NewPool_def Let_def split: sum.splits option.splits)

lemma NewRedis_owns:
  "NewRedis dr url w = (r, w') \<Longrightarrow> fst (NewRedis dr url w) = r \<and> w' = (case r of Inl _ \<Rightarrow> w | Inr h \<Rightarrow> acquire h w)"
  by (auto simp: NewRedis_def Let_def split: sum.splits option.splits)

lemma newMigrator_owns:
  "newMigrator dr dsn w = (r, w') \<Longrightarrow> fst (newMigrator dr dsn w) = r \<and> w' = (case r of Inl _ \<Rightarrow> w | Inr h \<Rightarrow> acquire h w)"
  by (auto simp: newMigrator_def Let_def split: sum.splits option.splits)

lemma MigrateUp_open: "MigrateUp dr dsn w = (r, w') \<Longrightarrow> h_open w' = h_open w"
  by (auto simp: MigrateUp_def closeMigrator_def split: prod.splits sum.splits dest!: newMigrator_owns)

lemma MigrateDown_open: "MigrateDown dr dsn w = (r, w') \<Longrightarrow> h_open w' = h_open w"
  by (auto simp: MigrateDown_def closeMigrator_def split: prod.splits sum.splits dest!: newMigrator_owns)

lemmas owns = NewPool_owns NewRedis_owns newMigrator_owns MigrateUp_open MigrateDown_open

section \<open>Migrating on every start\<close>

text \<open>What golang-migrate promises of \<^verbatim>\<open>Up\<close>: after it ran without an error there is nothing left to apply.\<close>

definition up_complete :: "'v drivers \<Rightarrow> bool" where
  "up_complete dr \<longleftrightarrow> (\<forall>url v a v'. mig_Up dr url v = (a, v') \<and> (\<forall>e. a \<noteq> MigrateError e) \<longrightarrow> mig_Up dr url v' = (ErrNoChange, v'))"

lemma MigrateUp_None:
  "MigrateUp dr dsn w = (None, w') \<longleftrightarrow> iofs_New dr = None \<and> NewWithSourceInstance dr (toMigrateURL dsn) = None
     \<and> (\<exists>a v. mig_Up dr (toMigrateURL dsn) (h_schema w) = (a, v) \<and> (\<forall>e. a \<noteq> MigrateError e) \<and> w' = w\<lparr>h_schema := v\<rparr>)"
  by (auto simp: MigrateUp_def newMigrator_def Let_def closeMigrator_def split: option.splits prod.splits migrate_answer.splits)

text \<open>Migrating is idempotent: once \<^verbatim>\<open>MigrateUp\<close> succeeded, running it again succeeds and changes nothing,
  so it is safe on every start; and it reaches the driver under the scheme the driver registered.\<close>

theorem migrate_idempotent:
  assumes "up_complete dr" and "MigrateUp dr dsn w = (None, w1)"
  shows "MigrateUp dr dsn w1 = (None, w1)"
proof -
  from assms(2) obtain a v where u: "iofs_New dr = None" "NewWithSourceInstance dr (toMigrateURL dsn) = None"
      "mig_Up dr (toMigrateURL dsn) (h_schema w) = (a, v)" "\<forall>e. a \<noteq> MigrateError e" "w1 = w\<lparr>h_schema := v\<rparr>"
    unfolding MigrateUp_None by blast
  then have "mig_Up dr (toMigrateURL dsn) v = (ErrNoChange, v)" using assms(1) unfolding up_complete_def by blast
  with u show ?thesis by (simp add: MigrateUp_None)
qed

lemma toMigrateURL_scheme:
  "toMigrateURL (''postgres://'' @ rest) = ''pgx5://'' @ rest" "toMigrateURL (''postgresql://'' @ rest) = ''pgx5://'' @ rest"
  by (simp_all add: toMigrateURL_def HasPrefix_def TrimPrefix_def)

section \<open>Drivers that work\<close>

text \<open>Three migrations, the schema being the number applied.\<close>

definition demo_drivers :: "nat drivers" where
  "demo_drivers = \<lparr>pgx_ParseConfig = (\<lambda>s. Inr \<lparr>pc_dsn = s, MaxConnLifetime = 0, MaxConnIdleTime = 0, HealthCheckPeriod = 0\<rparr>),
     pgx_NewWithConfig = (\<lambda>_. None), pgx_Ping = (\<lambda>_. None), redis_ParseURL = (\<lambda>_. None), redis_Ping = (\<lambda>_. None), iofs_New = None,
     NewWithSourceInstance = (\<lambda>u. if take 7 u = ''pgx5://'' then None else Some ''unknown driver''),
     mig_Up = (\<lambda>_ v. if v = 3 then (ErrNoChange, v) else (Migrated, 3)),
     mig_Steps = (\<lambda>_ _ v. if v = 0 then (ErrNoChange, v) else (Migrated, v - 1))\<rparr>"

theorem migrate_idempotent_witness:
  "MigrateUp demo_drivers ''postgres://db'' \<lparr>h_open = [], h_schema = 3\<rparr> = (None, \<lparr>h_open = [], h_schema = 3\<rparr>)"
proof -
  have "up_complete demo_drivers" by (auto simp: up_complete_def demo_drivers_def split: if_splits)
  moreover have "MigrateUp demo_drivers ''postgres://db'' \<lparr>h_open = [], h_schema = 0\<rparr> = (None, \<lparr>h_open = [], h_schema = 3\<rparr>)" by code_simp
  ultimately show ?thesis by (rule migrate_idempotent)
qed

end
