(* ===== verification/Wiring.thy ===== *)
theory Wiring
  imports Config Delivery_Outcomes Maintenance Processes Connections
begin

text \<open>
  The composition root, \<^verbatim>\<open>cmd/server/main.go\<close>: which configuration value reaches which component, the
  order in which \<^verbatim>\<open>run\<close> acquires its resources, and what validation therefore guarantees of the
  running service. The calls into the driver packages go through \<open>Connections\<close>.
\<close>

section \<open>Components built from the configuration\<close>

definition sub_config :: "Config \<Rightarrow> SubConfig" where
  "sub_config c = \<lparr>CacheTTL = cCacheTTL c, RegistryIdleTTL = cRegistryIdleTTL c, RateLimitPerSec = cRateLimitPerSec c,
     RateLimitBurst = cRateLimitBurst c, ConcurrencyLimit = nat (cPerSubConcurrency c)\<rparr>"

definition deliverer_config :: "Config \<Rightarrow> DelivererConfig" where
  "deliverer_config c = \<lparr>VisibilityTimeout = cVisibilityTimeout c, MaxRetryAttempts = cMaxRetryAttempts c,
     RetryBaseDelay = cRetryBaseDelay c, RetryMaxDelay = cRetryMaxDelay c, DBreakerResetTimeout = cBreakerResetTimeout c,
     AutoDisableThreshold = cAutoDisableThreshold c, BreakerThreshold = cBreakerThreshold c, SubCfg = sub_config c\<rparr>"

definition recovery_worker :: "Config \<Rightarrow> RecoveryWorker" where
  "recovery_worker c = \<lparr>rw_batch = 100, rw_orphanThreshold = cOrphanThreshold c\<rparr>"

definition cleanup_worker :: "Config \<Rightarrow> CleanupWorker" where
  "cleanup_worker c = \<lparr>cw_retention = cLogRetention c, cw_idempotencyTTL = cIdempotencyTTL c\<rparr>"

text \<open>The supervised processes with their ticker periods; the pool has none.\<close>

definition service_processes :: "Config \<Rightarrow> (string \<times> duration option) list" where
  "service_processes c =
    [(''worker pool'', None), (''retry scheduler'', Some second), (''recovery scanner'', Some (cRecoveryScanInterval c)),
     (''cleanup worker'', Some hour), (''dlq reconciler'', Some (cRecoveryScanInterval c)),
     (''registry sweeper'', Some (sweepInterval (cRegistryIdleTTL c)))]"

definition boot_world :: "Config \<Rightarrow> time \<Rightarrow> db \<Rightarrow> redis \<Rightarrow> world" where
  "boot_world c now d r = \<lparr>w_db = d, w_redis = r, w_sub = NewState (sub_config c), w_breakers = NewRegistry (cRegistryIdleTTL c),
     w_cbs = [], w_metrics = NewCollector now, w_sent = []\<rparr>"

text \<open>The inbound server with the limits that bound how long a client may occupy a connection.\<close>

record 'h http_server =
  hs_Addr :: string
  hs_Handler :: 'h
  hs_ReadHeaderTimeout :: duration
  hs_ReadTimeout :: duration
  hs_WriteTimeout :: duration
  hs_IdleTimeout :: duration
  hs_MaxHeaderBytes :: int

definition newHTTPServer :: "string \<Rightarrow> 'h \<Rightarrow> 'h http_server" where
  "newHTTPServer addr handler = \<lparr>hs_Addr = addr, hs_Handler = handler, hs_ReadHeaderTimeout = 10 * second, hs_ReadTimeout = 15 * second,
     hs_WriteTimeout = 60 * second, hs_IdleTimeout = 60 * second, hs_MaxHeaderBytes = push_bit 20 1\<rparr>"

section \<open>The run\<close>

datatype run_error = ConfigFailed config_error | BadMigrateFlag string | RunFailed string

text \<open>What \<^verbatim>\<open>run\<close> leaves behind: its error, the host after its deferred calls, and the configuration and host
  the supervisor ran on, when it ran.\<close>

record 'v run_out =
  ro_error :: "run_error option"
  ro_host :: "'v host"
  ro_served :: "(Config \<times> 'v host) option"

definition stop_run :: "string option \<Rightarrow> 'v host \<Rightarrow> 'v run_out" where
  "stop_run e w = \<lparr>ro_error = map_option RunFailed e, ro_host = w, ro_served = None\<rparr>"

text \<open>\<open>sv\<close> is what \<^verbatim>\<open>supervisor.Run\<close> returns; the two \<^verbatim>\<open>Close\<close> calls are deferred.\<close>

definition serve_run :: "'v drivers \<Rightarrow> (Config \<Rightarrow> string option) \<Rightarrow> Config \<Rightarrow> 'v host \<Rightarrow> 'v run_out" where
  "serve_run dr sv c w =
     (case MigrateUp dr (cDatabaseURL c) w of
        (Some e, w) \<Rightarrow> stop_run (Some e) w
      | (None, w) \<Rightarrow>
         (case Connections.NewPool dr (cDatabaseURL c) w of
            (Inl e, w) \<Rightarrow> stop_run (Some e) w
          | (Inr dbPool, w) \<Rightarrow>
             (case NewRedis dr (cRedisURL c) w of
                (Inl e, w) \<Rightarrow> stop_run (Some e) (close_handle dbPool w)
              | (Inr rdb, w) \<Rightarrow>
                  \<lparr>ro_error = map_option RunFailed (sv c), ro_host = close_handle dbPool (close_handle rdb w), ro_served = Some (c, w)\<rparr>)))"

definition run :: "'v drivers \<Rightarrow> (Config \<Rightarrow> string option) \<Rightarrow> environ \<Rightarrow> string \<Rightarrow> 'v host \<Rightarrow> 'v run_out" where
  "run dr sv env migrateMode w =
     (case Load env of Inl e \<Rightarrow> \<lparr>ro_error = Some (ConfigFailed e), ro_host = w, ro_served = None\<rparr>
      | Inr c \<Rightarrow>
         if migrateMode = ''up'' then case_prod stop_run (MigrateUp dr (cDatabaseURL c) w)
         else if migrateMode = ''down'' then case_prod stop_run (MigrateDown dr (cDatabaseURL c) w)
         else if migrateMode = [] then serve_run dr sv c w
         else \<lparr>ro_error = Some (BadMigrateFlag migrateMode), ro_host = w, ro_served = None\<rparr>)"

text \<open>The exit code of \<^verbatim>\<open>main\<close>.\<close>

definition main :: "'v drivers \<Rightarrow> (Config \<Rightarrow> string option) \<Rightarrow> environ \<Rightarrow> string \<Rightarrow> 'v host \<Rightarrow> int \<times> 'v host" where
  "main dr sv env migrateMode w =
     (let out = run dr sv env migrateMode w in (case ro_error out of Some _ \<Rightarrow> 1 | None \<Rightarrow> 0, ro_host out))"

section \<open>What validation buys\<close>

lemma Load_checks:
  assumes "Load env = Inr c"
  shows "0 < cWebhookTimeout c" "1 \<le> cPerSubConcurrency c" "1 \<le> cWorkerConcurrency c" "cWebhookTimeout c \<le> cDrainTimeout c"
    "0 < cRetryBaseDelay c" "cRetryBaseDelay c \<le> cRetryMaxDelay c" "cWebhookTimeout c < cVisibilityTimeout c"
    "cVisibilityTimeout c \<le> cOrphanThreshold c" "0 < cRecoveryScanInterval c" "0 < cLogRetention c"
    "0 < cRateLimitPerSec c" "0 < cRateLimitBurst c" "0 < cBreakerThreshold c"
proof -
  have "\<forall>k \<in> set (checks c). snd k" using assms by (simp add: Load_Inr)
  then show "0 < cWebhookTimeout c" "1 \<le> cPerSubConcurrency c" "1 \<le> cWorkerConcurrency c" "cWebhookTimeout c \<le> cDrainTimeout c"
    "0 < cRetryBaseDelay c" "cRetryBaseDelay c \<le> cRetryMaxDelay c" "cWebhookTimeout c < cVisibilityTimeout c"
    "cVisibilityTimeout c \<le> cOrphanThreshold c" "0 < cRecoveryScanInterval c" "0 < cLogRetention c"
    "0 < cRateLimitPerSec c" "0 < cRateLimitBurst c" "0 < cBreakerThreshold c"
    by (simp_all add: checks_def)
qed

text \<open>C16. A lease outlives the request it covers: in a service whose configuration loaded, with a visibility
  timeout of whole seconds, a worker that claims an attempt keeps every other worker off it for longer
  than its HTTP request may take.\<close>

theorem lease_outlives_request:
  assumes "Load env = Inr c" and "cVisibilityTimeout c mod second = 0" and "db_inv pg t d"
    and "ClaimPending pg k d lid (VisibilityTimeout (deliverer_config c)) = (Inr True, d1)"
    and "c_now k' \<le> c_now k + cWebhookTimeout c"
  shows "snd (ClaimPending pg k' d1 lid lease') = d1 \<and> fst (ClaimPending pg k' d1 lid lease') \<noteq> Inr True"
proof -
  note chk = Load_checks [OF assms(1)]
  have "cVisibilityTimeout c div second * second = cVisibilityTimeout c" using assms(2) div_mult_mod_eq [of "cVisibilityTimeout c" second] by simp
  then have "pg_interval (secondsArg (cVisibilityTimeout c)) = cVisibilityTimeout c"
    using chk(1,7) by (auto simp: secondsArg_def pg_interval_def Let_def)
  then have late: "c_now k' < c_now k + pg_interval (secondsArg (VisibilityTimeout (deliverer_config c)))"
    using assms(5) chk(7) by (simp add: deliverer_config_def)
  have "keyed d_id (delivery_logs d)" using assms(3) by (simp add: db_inv_def core_inv_def)
  from claim_won [OF this assms(4)] lease_refuses [OF _ late] show ?thesis by metis
qed

theorem lease_outlives_request_witness:
  "fst (ClaimPending plain_pg (ok_call (10 * second) ''v'')
     (snd (ClaimPending plain_pg (ok_call 6 ''u'') demo_db3 ''b'' (60 * second))) ''b'' 1) \<noteq> Inr True"
proof -
  let ?c = "read_config (demo_environ [])"
  have v: "cVisibilityTimeout ?c = 60 * second" "cWebhookTimeout ?c = 10 * second" by (simp_all add: demo_eval)
  have "ClaimPending plain_pg (ok_call 6 ''u'') demo_db3 ''b'' (60 * second) =
      (Inr True, snd (ClaimPending plain_pg (ok_call 6 ''u'') demo_db3 ''b'' (60 * second)))" by code_simp
  then show ?thesis
    using lease_outlives_request [OF demo_load _ demo_inv, of "ok_call 6 ''u''" "''b''" _ "ok_call (10 * second) ''v''" 1] v
    by (simp add: deliverer_config_def)
qed

text \<open>Without whole seconds the promise fails: with \<^verbatim>\<open>WEBHOOK_TIMEOUT=1500ms\<close> and
  \<^verbatim>\<open>VISIBILITY_TIMEOUT=1900ms\<close>, which pass validation, the lease is truncated to one second, so a second
  worker claims the same attempt while the first is still within its request timeout.\<close>

theorem lease_lapses_early:
  "\<exists>c. Load (demo_environ [(''WEBHOOK_TIMEOUT'', ''1500ms''), (''VISIBILITY_TIMEOUT'', ''1900ms'')]) = Inr c
    \<and> (let (r1, d1) = ClaimPending plain_pg (ok_call 6 ''u'') demo_db3 ''b'' (VisibilityTimeout (deliverer_config c));
           (r2, d2) = ClaimPending plain_pg (ok_call (6 + second) ''v'') d1 ''b'' (VisibilityTimeout (deliverer_config c))
       in r1 = Inr True \<and> r2 = Inr True \<and> 6 + second < 6 + cWebhookTimeout c)"
proof -
  let ?env = "demo_environ [(''WEBHOOK_TIMEOUT'', ''1500ms''), (''VISIBILITY_TIMEOUT'', ''1900ms'')]"
  let ?c = "read_config ?env"
  have "Load ?env = Inr ?c" and v: "cVisibilityTimeout ?c = 1900 * millisecond" "cWebhookTimeout ?c = 1500 * millisecond"
    by (simp_all add: demo_eval)
  moreover have "fst (ClaimPending plain_pg (ok_call 6 ''u'') demo_db3 ''b'' (1900 * millisecond)) = Inr True
    \<and> fst (ClaimPending plain_pg (ok_call (6 + second) ''v'')
        (snd (ClaimPending plain_pg (ok_call 6 ''u'') demo_db3 ''b'' (1900 * millisecond))) ''b'' (1900 * millisecond)) = Inr True"
    by code_simp
  ultimately show ?thesis by (intro exI [of _ ?c]) (simp add: deliverer_config_def case_prod_unfold Let_def)
qed

text \<open>A configuration that loads starts a service that can work: every ticker period is positive (a
  ticker with another period panics), a fresh semaphore grants a permit, a fresh token bucket admits an
  event and a fresh breaker a delivery, and the delay before every retry is positive and at most a fifth
  above the configured cap. Only the cap and the burst must leave room in int64.\<close>

theorem started_service_ready:
  assumes "Load env = Inr c" and "cRateLimitBurst c \<le> 2 ^ 53" and "cRetryMaxDelay c + cRetryMaxDelay c div 5 \<le> int64_max"
  shows "(\<forall>p \<in> set (service_processes c). \<forall>i. snd p = Some i \<longrightarrow> 0 < i)
    \<and> fst (TryAcquire (NewSemaphore (ConcurrencyLimit (sub_config c))))
    \<and> fst (AllowTB now (NewTokenBucket now (RateLimitPerSec (sub_config c)) (RateLimitBurst (sub_config c))))
    \<and> fst (fst (AllowCB now (NewBreaker (cBreakerThreshold c) (cBreakerResetTimeout c))))
    \<and> (\<forall>rnd n. 1 \<le> n \<and> (\<forall>k > 0. 0 \<le> rnd k \<and> rnd k < k) \<longrightarrow>
         (let dl = retryDelay rnd n (RetryBaseDelay (deliverer_config c)) (RetryMaxDelay (deliverer_config c)) in
          0 < dl \<and> dl \<le> cRetryMaxDelay c + cRetryMaxDelay c div 5))"
proof (intro conjI)
  note chk = Load_checks [OF assms(1)]
  show "\<forall>p \<in> set (service_processes c). \<forall>i. snd p = Some i \<longrightarrow> 0 < i"
    using chk(9) by (auto simp: service_processes_def sweepInterval_def Let_def)
  show "fst (TryAcquire (NewSemaphore (ConcurrencyLimit (sub_config c))))"
    using chk(2) by (simp add: TryAcquire_def NewSemaphore_def sub_config_def)
  have "wrap64 (cRateLimitBurst c * scale) = cRateLimitBurst c * scale"
    using assms(2) chk(12) by (intro wrap64_id) (simp_all add: int64_min_def int64_max_def scale_def)
  then show "fst (AllowTB now (NewTokenBucket now (RateLimitPerSec (sub_config c)) (RateLimitBurst (sub_config c))))"
    using chk(12) by (simp add: AllowTB_def NewTokenBucket_def refill_def sub_config_def Let_def scale_def Seconds_def fl_def)
  show "fst (fst (AllowCB now (NewBreaker (cBreakerThreshold c) (cBreakerResetTimeout c))))"
    by (simp add: AllowCB_def NewBreaker_def)
  show "\<forall>rnd n. 1 \<le> n \<and> (\<forall>k > 0. 0 \<le> rnd k \<and> rnd k < k) \<longrightarrow>
         (let dl = retryDelay rnd n (RetryBaseDelay (deliverer_config c)) (RetryMaxDelay (deliverer_config c)) in
          0 < dl \<and> dl \<le> cRetryMaxDelay c + cRetryMaxDelay c div 5)"
  proof (intro allI impI)
    fix rnd n assume a: "1 \<le> (n::int) \<and> (\<forall>k > 0. 0 \<le> rnd k \<and> rnd k < (k::int))"
    let ?d = "min (cRetryMaxDelay c) (cRetryBaseDelay c * 3 ^ nat (n - 1))"
    have "?d + ?d div 5 \<le> cRetryMaxDelay c + cRetryMaxDelay c div 5" by linarith
    with retryDelay_between [OF chk(5,6) assms(3) _ _ refl, of n rnd] a show "let dl = retryDelay rnd n (RetryBaseDelay (deliverer_config c)) (RetryMaxDelay (deliverer_config c)) in
          0 < dl \<and> dl \<le> cRetryMaxDelay c + cRetryMaxDelay c div 5"
      by (auto simp: deliverer_config_def Let_def)
  qed
qed

theorem started_service_ready_witness:
  "fst (TryAcquire (NewSemaphore (ConcurrencyLimit (sub_config (read_config (demo_environ []))))))"
proof -
  let ?c = "read_config (demo_environ [])"
  have "cRateLimitBurst ?c = 200" "cRetryMaxDelay ?c = 15 * minute" by (simp_all add: demo_eval)
  with started_service_ready [OF demo_load] show ?thesis by (simp add: int64_max_def)
qed

section \<open>Starting and stopping\<close>

lemma serve_run_cases:
  "serve_run dr sv c w = out \<Longrightarrow>
     h_open (ro_host out) = h_open w
   \<and> (case ro_served out of None \<Rightarrow> ro_error out \<noteq> None
      | Some (c', w1) \<Rightarrow> c' = c \<and> ro_error out = map_option RunFailed (sv c)
          \<and> (\<exists>w0 p q. MigrateUp dr (cDatabaseURL c) w = (None, w0) \<and> w1 = acquire q (acquire p w0)
                \<and> fst (Connections.NewPool dr (cDatabaseURL c) w0) = Inr p \<and> fst (NewRedis dr (cRedisURL c) (acquire p w0)) = Inr q))"
  by (auto simp: serve_run_def stop_run_def split: prod.splits option.splits sum.splits dest!: owns)



text \<open>On working drivers the service does start.\<close>

lemma demo_start:
  "ro_served (run demo_drivers (\<lambda>_. None) (demo_environ []) [] \<lparr>h_open = [], h_schema = 0\<rparr>) \<noteq> None"
  by (simp add: run_def demo_load serve_run_def MigrateUp_def newMigrator_def Connections.NewPool_def NewRedis_def demo_drivers_def
      demo_eval toMigrateURL_def HasPrefix_def TrimPrefix_def Let_def closeMigrator_def)

end
