(* ===== verification/Http.thy ===== *)
theory Http
  imports Signature Strconv
begin

text \<open>
  The HTTP layer below the handlers: \<^verbatim>\<open>internal/api/middleware.go\<close>, \<^verbatim>\<open>request.go\<close> and \<^verbatim>\<open>response.go\<close>,
  with what they use of \<^verbatim>\<open>net/http\<close>. A response writer \<open>'v rw\<close> keeps the headers set so far, the status
  line once it is sent (with the headers at that moment), the bodies written, the state of the
  \<^verbatim>\<open>statusRecorder\<close> that \<^verbatim>\<open>loggingMiddleware\<close> wraps around it, and the statuses logged. A handler maps a
  request and a writer with the state \<open>'w\<close> behind it to whether it panicked and to their new values.
  SHA-256 and the JSON decoder are arguments.
\<close>

section \<open>Requests\<close>

text \<open>A body: its bytes, whether the sender breaks off after them, and the limit of the innermost
  \<^verbatim>\<open>MaxBytesReader\<close> around it.\<close>

datatype body = NilBody | Body string bool "nat option"

record hreq =
  r_method :: string
  r_segs :: "string list"
  r_query :: "(string \<times> string) list"
  r_header :: "(string \<times> string) list"
  r_body :: body
  r_values :: "(string \<times> string) list"

text \<open>\<^verbatim>\<open>Header.Get\<close>, \<^verbatim>\<open>Query().Get\<close> and \<^verbatim>\<open>PathValue\<close>: the first value, or the empty string.\<close>

definition get_first :: "(string \<times> string) list \<Rightarrow> string \<Rightarrow> string" where
  "get_first xs k = (case map_of xs k of None \<Rightarrow> [] | Some v \<Rightarrow> v)"

abbreviation HeaderGet :: "hreq \<Rightarrow> string \<Rightarrow> string" where "HeaderGet r k \<equiv> get_first (r_header r) k"
abbreviation QueryGet :: "hreq \<Rightarrow> string \<Rightarrow> string" where "QueryGet r k \<equiv> get_first (r_query r) k"
abbreviation PathValue :: "hreq \<Rightarrow> string \<Rightarrow> string" where "PathValue r k \<equiv> get_first (r_values r) k"

definition pathID :: "hreq \<Rightarrow> string" where
  "pathID r = PathValue r ''id''"

text \<open>\<^verbatim>\<open>http.MaxBytesReader\<close>: the tighter of two nested limits is the one met first.\<close>

definition MaxBytesReader :: "nat \<Rightarrow> body \<Rightarrow> body" where
  "MaxBytesReader n b = (case b of NilBody \<Rightarrow> NilBody
     | Body s broken limit \<Rightarrow> Body s broken (case limit of None \<Rightarrow> Some n | Some m \<Rightarrow> Some (min m n)))"

datatype read_end = EOF | TooLarge | BrokenOff

text \<open>The bytes a reader delivers, and how the stream then ends.\<close>

fun read_stream :: "body \<Rightarrow> (string \<times> read_end) option" where
  "read_stream NilBody = None"
| "read_stream (Body s broken None) = Some (s, if broken then BrokenOff else EOF)"
| "read_stream (Body s broken (Some n)) =
     (if length s > n then Some (take n s, TooLarge) else Some (s, if broken then BrokenOff else EOF))"

definition parseClampedInt :: "hreq \<Rightarrow> string \<Rightarrow> int \<Rightarrow> int \<Rightarrow> int" where
  "parseClampedInt r name def mx =
     (let v = QueryGet r name in
      if v = [] then def
      else case Atoi v of None \<Rightarrow> def
        | Some n \<Rightarrow> if n < 1 then def else if n > mx then mx else n)"

definition parseLimit :: "hreq \<Rightarrow> int \<Rightarrow> int \<Rightarrow> int" where
  "parseLimit r def mx = parseClampedInt r ''limit'' def mx"

definition parseHours :: "hreq \<Rightarrow> int \<Rightarrow> int" where
  "parseHours r def = parseClampedInt r ''hours'' def 8760"

lemma parseClampedInt_range: "1 \<le> def \<Longrightarrow> def \<le> mx \<Longrightarrow> 1 \<le> parseClampedInt r name def mx \<and> parseClampedInt r name def mx \<le> mx"
  by (auto simp: parseClampedInt_def Let_def split: option.splits)

section \<open>Responses\<close>

datatype 'v payload = ErrorBody string | JSON 'v | Raw string

record 'v rw =
  rw_header :: "(string \<times> string) list"
  rw_sent :: "(int \<times> (string \<times> string) list) option"
  rw_out :: "'v payload list"
  rw_rec :: "(int \<times> bool) option"
  rw_logged :: "int list"

definition new_rw :: "'v rw" where
  "new_rw = \<lparr>rw_header = [], rw_sent = None, rw_out = [], rw_rec = None, rw_logged = []\<rparr>"

definition set_header :: "string \<Rightarrow> string \<Rightarrow> 'v rw \<Rightarrow> 'v rw" where
  "set_header k v w = w\<lparr>rw_header := filter (\<lambda>kv. fst kv \<noteq> k) (rw_header w) @ [(k, v)]\<rparr>"

definition add_header :: "string \<Rightarrow> string \<Rightarrow> 'v rw \<Rightarrow> 'v rw" where
  "add_header k v w = w\<lparr>rw_header := rw_header w @ [(k, v)]\<rparr>"

text \<open>The server's own writer: the first status line is the one that is sent.\<close>

definition base_WriteHeader :: "int \<Rightarrow> 'v rw \<Rightarrow> 'v rw" where
  "base_WriteHeader code w = (case rw_sent w of Some _ \<Rightarrow> w | None \<Rightarrow> w\<lparr>rw_sent := Some (code, rw_header w)\<rparr>)"

definition base_Write :: "'v payload \<Rightarrow> 'v rw \<Rightarrow> 'v rw" where
  "base_Write p w = (let w' = base_WriteHeader 200 w in w'\<lparr>rw_out := rw_out w' @ [p]\<rparr>)"

text \<open>\<^verbatim>\<open>statusRecorder\<close>, when it is installed.\<close>

definition WriteHeader :: "int \<Rightarrow> 'v rw \<Rightarrow> 'v rw" where
  "WriteHeader code w = (case rw_rec w of None \<Rightarrow> base_WriteHeader code w
     | Some (status, wrote) \<Rightarrow> if wrote then w else base_WriteHeader code (w\<lparr>rw_rec := Some (code, True)\<rparr>))"

definition Write :: "'v payload \<Rightarrow> 'v rw \<Rightarrow> 'v rw" where
  "Write p w = (case rw_rec w of None \<Rightarrow> base_Write p w
     | Some (status, wrote) \<Rightarrow> base_Write p (if wrote then w else w\<lparr>rw_rec := Some (200, True)\<rparr>))"

definition writeJSON :: "int \<Rightarrow> 'v payload \<Rightarrow> 'v rw \<Rightarrow> 'v rw" where
  "writeJSON status v w = Write v (WriteHeader status (set_header ''Content-Type'' ''application/json; charset=utf-8'' w))"

definition writeError :: "int \<Rightarrow> string \<Rightarrow> 'v rw \<Rightarrow> 'v rw" where
  "writeError status msg w = writeJSON status (ErrorBody msg) w"

definition writeDomainError :: "error \<Rightarrow> 'v rw \<Rightarrow> 'v rw" where
  "writeDomainError err w = (case err of
     ErrNotFound \<Rightarrow> writeError 404 ''not found'' w
   | ErrInvalidInput m \<Rightarrow> writeError 400 m w
   | ErrConflict m \<Rightarrow> writeError 409 m w
   | ErrInactiveSubscription \<Rightarrow> writeError 403 ''subscription is inactive'' w
   | _ \<Rightarrow> writeError 500 ''internal server error'' w)"

section \<open>Decoding a JSON body\<close>

text \<open>What \<^verbatim>\<open>Decoder.Decode\<close> finds in the bytes it can read: a first value of the target type with the
  bytes after it, an error that more input cannot mend, or a value that is not complete.\<close>

datatype 'a decoded = Value 'a string | Malformed | Incomplete

definition json_space :: "char \<Rightarrow> bool" where
  "json_space c \<longleftrightarrow> byte c \<in> {9, 10, 13, 32}"

definition readJSON :: "(string \<Rightarrow> 'a decoded) \<Rightarrow> hreq \<Rightarrow> 'v rw \<Rightarrow> 'a option \<times> 'v rw" where
  "readJSON decode r w =
     (case read_stream (r_body r) of
        None \<Rightarrow> (None, writeError 400 ''empty request body'' w)
      | Some (bytes, ends) \<Rightarrow>
         (case decode bytes of
            Malformed \<Rightarrow> (None, writeError 400 ''invalid JSON body'' w)
          | Incomplete \<Rightarrow>
             (if ends = TooLarge then (None, writeError 413 ''request body too large'' w)
              else (None, writeError 400 ''invalid JSON body'' w))
          | Value v rest \<Rightarrow>
             (if list_all json_space rest \<and> ends = EOF then (Some v, w)
              else (None, writeError 400 ''invalid JSON body'' w))))"

section \<open>Middleware\<close>

type_synonym ('v, 'w) handler = "hreq \<Rightarrow> 'v rw \<times> 'w \<Rightarrow> bool \<times> 'v rw \<times> 'w"
type_synonym ('v, 'w) middleware = "('v, 'w) handler \<Rightarrow> ('v, 'w) handler"

definition chain :: "('v, 'w) handler \<Rightarrow> ('v, 'w) middleware list \<Rightarrow> ('v, 'w) handler" where
  "chain h mws = foldr (\<lambda>m h. m h) mws h"

text \<open>\<open>rnd\<close> are the 16 random bytes of \<^verbatim>\<open>MustUUIDv4\<close>, which panics when there are none.\<close>

definition requestIDMiddleware :: "string option \<Rightarrow> ('v, 'w) middleware" where
  "requestIDMiddleware rnd next r s =
     (let given = HeaderGet r ''X-Request-Id'' in
      if given \<noteq> [] then next r (set_header ''X-Request-Id'' given (fst s), snd s)
      else case MustUUIDv4 rnd of None \<Rightarrow> (True, s)
        | Some i \<Rightarrow> next r (set_header ''X-Request-Id'' i (fst s), snd s))"

definition loggingMiddleware :: "('v, 'w) middleware" where
  "loggingMiddleware next r s =
     (case next r ((fst s)\<lparr>rw_rec := Some (200, False)\<rparr>, snd s) of
        (True, w, st) \<Rightarrow> (True, w\<lparr>rw_rec := rw_rec (fst s)\<rparr>, st)
      | (False, w, st) \<Rightarrow>
         (False, w\<lparr>rw_rec := rw_rec (fst s),
                   rw_logged := rw_logged w @ (case rw_rec w of None \<Rightarrow> [] | Some (status, _) \<Rightarrow> [status])\<rparr>, st))"

definition recoveryMiddleware :: "('v, 'w) middleware" where
  "recoveryMiddleware next r s =
     (case next r s of
        (True, w, st) \<Rightarrow> (False, writeError 500 ''internal server error'' w, st)
      | (False, w, st) \<Rightarrow> (False, w, st))"

definition maxBytesMiddleware :: "nat \<Rightarrow> ('v, 'w) middleware" where
  "maxBytesMiddleware limit next r s = next (r\<lparr>r_body := MaxBytesReader limit (r_body r)\<rparr>) s"

definition cors_headers :: "string \<Rightarrow> 'v rw \<Rightarrow> 'v rw" where
  "cors_headers origin w =
     set_header ''Access-Control-Max-Age'' ''600''
    (set_header ''Access-Control-Allow-Credentials'' ''true''
    (set_header ''Access-Control-Allow-Headers'' ''Authorization, Content-Type, X-Hub-Signature-256, Webhook-Timestamp, X-Idempotency-Key, X-Request-ID''
    (set_header ''Access-Control-Allow-Methods'' ''GET, POST, PUT, DELETE, OPTIONS''
    (add_header ''Vary'' ''Origin''
    (set_header ''Access-Control-Allow-Origin'' origin w)))))"

definition corsMiddleware :: "string list \<Rightarrow> ('v, 'w) middleware" where
  "corsMiddleware allowedOrigins next r s =
     (let origin = HeaderGet r ''Origin'';
          w = (if origin \<noteq> [] \<and> origin \<in> set allowedOrigins then cors_headers origin (fst s) else fst s)
      in if r_method r = ''OPTIONS'' then (False, WriteHeader 204 w, snd s) else next r (w, snd s))"

definition secureCompare :: "(string \<Rightarrow> string) \<Rightarrow> string \<Rightarrow> string \<Rightarrow> bool" where
  "secureCompare sha256 a b \<longleftrightarrow> sha256 a = sha256 b"

definition adminAuthMiddleware :: "(string \<Rightarrow> string) \<Rightarrow> string \<Rightarrow> ('v, 'w) middleware" where
  "adminAuthMiddleware sha256 apiKey next r s =
     (if apiKey = [] then (False, writeError 503 ''admin API key not configured'' (fst s), snd s)
      else let authz = HeaderGet r ''Authorization'' in
        if \<not> HasPrefix authz ''Bearer '' then
          (False, writeError 401 ''missing or malformed Authorization header'' (set_header ''WWW-Authenticate'' ''Bearer'' (fst s)), snd s)
        else if \<not> secureCompare sha256 (TrimPrefix authz ''Bearer '') apiKey then
          (False, writeError 401 ''invalid admin credentials'' (fst s), snd s)
        else next r s)"

section \<open>Answering exactly once\<close>

text \<open>A writer as a handler receives it, with nothing sent and the recorder installed, and one through which
  a response went out; both carry the request id.\<close>

definition fresh :: "string \<Rightarrow> 'v rw \<Rightarrow> bool" where
  "fresh i w \<longleftrightarrow> rw_sent w = None \<and> rw_rec w = Some (200, False) \<and> get_first (rw_header w) ''X-Request-Id'' = i \<and> rw_logged w = []"

definition answered :: "string \<Rightarrow> 'v rw \<Rightarrow> bool" where
  "answered i w \<longleftrightarrow> (\<exists>code hdr. rw_sent w = Some (code, hdr) \<and> rw_rec w = Some (code, True) \<and> get_first hdr ''X-Request-Id'' = i) \<and> rw_logged w = []"

lemma get_first_filter: "k \<noteq> k' \<Longrightarrow> get_first (filter (\<lambda>kv. fst kv \<noteq> k) xs @ [(k, v)]) k' = get_first xs k'"
proof -
  assume k: "k \<noteq> k'"
  have "map_of (filter (\<lambda>kv. fst kv \<noteq> k) xs) k' = map_of xs k'" using k by (induction xs) auto
  then show ?thesis using k by (simp add: get_first_def map_add_def split: option.splits)
qed

named_theorems answer_intros "how handlers write their response"

lemma fresh_set_header [answer_intros]: "fresh i w \<Longrightarrow> k \<noteq> ''X-Request-Id'' \<Longrightarrow> fresh i (set_header k v w)"
  by (simp add: fresh_def set_header_def get_first_filter)

lemma fresh_add_header [answer_intros]: "fresh i w \<Longrightarrow> k \<noteq> ''X-Request-Id'' \<Longrightarrow> fresh i (add_header k v w)"
  by (simp add: fresh_def add_header_def get_first_def map_add_def split: option.splits)

lemma answered_WriteHeader [answer_intros]: "fresh i w \<Longrightarrow> answered i (WriteHeader code w)"
  by (auto simp: fresh_def answered_def WriteHeader_def base_WriteHeader_def)

lemma answered_Write: "answered i w \<Longrightarrow> answered i (Write p w)"
  by (auto simp: answered_def Write_def base_Write_def base_WriteHeader_def Let_def)

lemma answered_Write_fresh: "fresh i w \<Longrightarrow> answered i (Write p w)"
  by (auto simp: fresh_def answered_def Write_def base_Write_def base_WriteHeader_def Let_def)

lemma answered_raw [answer_intros]: "fresh i w \<Longrightarrow> answered i (Write p (WriteHeader code w))"
  by (intro answered_Write answered_WriteHeader)

lemma answered_writeJSON [answer_intros]: "fresh i w \<Longrightarrow> answered i (writeJSON code v w)"
  unfolding writeJSON_def by (intro answered_Write answered_WriteHeader fresh_set_header) simp_all

lemma answered_writeError [answer_intros]: "fresh i w \<Longrightarrow> answered i (writeError code m w)"
  unfolding writeError_def by (rule answered_writeJSON)

lemma answered_writeDomainError [answer_intros]: "fresh i w \<Longrightarrow> answered i (writeDomainError err w)"
  by (cases err) (simp_all add: writeDomainError_def answered_writeError)

lemma readJSON_answers:
  assumes "readJSON dec r w = (res, w')" and "fresh i w"
  shows "case res of None \<Rightarrow> answered i w' | Some v \<Rightarrow> w' = w"
  using assms by (auto simp: readJSON_def answered_writeError split: option.splits prod.splits decoded.splits if_splits)

text \<open>The contract of a handler: it answers once, or panics with nothing written.\<close>

locale responder =
  fixes h :: "('v, 'w) handler"
  assumes responds: "fresh i w \<Longrightarrow> h r (w, st) = (p, w', st') \<Longrightarrow> if p then fresh i w' else answered i w'"
begin

lemma recovery_answers:
  assumes "fresh i w" and "recoveryMiddleware h r (w, st) = (p, w', st')"
  shows "\<not> p \<and> answered i w'"
proof -
  obtain q w1 st1 where h: "h r (w, st) = (q, w1, st1)" using prod_cases3 by blast
  with responds [OF assms(1) h] assms(2) show ?thesis
    by (auto simp: recoveryMiddleware_def answered_writeError split: if_splits bool.splits)
qed

lemma cors_responds:
  assumes "fresh i w" and "corsMiddleware os h r (w, st) = (p, w', st')"
  shows "if p then fresh i w' else answered i w'"
proof -
  have c: "fresh i (cors_headers o' w)" for o'
    unfolding cors_headers_def by (intro fresh_set_header fresh_add_header assms(1)) simp_all
  show ?thesis
    using assms responds [of i w r] responds [OF c] c
    by (auto simp: corsMiddleware_def Let_def answered_WriteHeader split: if_splits)
qed

lemma maxBytes_responds:
  assumes "fresh i w" and "maxBytesMiddleware n h r (w, st) = (p, w', st')"
  shows "if p then fresh i w' else answered i w'"
  using assms(2) responds [OF assms(1)] unfolding maxBytesMiddleware_def by blast

lemma maxBytes_responder: "responder (maxBytesMiddleware n h)"
  by unfold_locales (rule maxBytes_responds)

lemma cors_responder: "responder (corsMiddleware os h)"
  by unfold_locales (rule cors_responds)

lemma adminAuth_responds:
  assumes "fresh i w" and "adminAuthMiddleware sha key h r (w, st) = (p, w', st')"
  shows "if p then fresh i w' else answered i w'"
  using assms responds [OF assms(1)]
  by (auto simp: adminAuthMiddleware_def Let_def split: if_splits intro!: answer_intros)

end

end
