(* ===== verification/Calendar.thy ===== *)
theory Calendar
  imports Strconv
begin

text \<open>
  \<^verbatim>\<open>time.Time.UTC().Format(time.RFC3339Nano)\<close> and \<^verbatim>\<open>time.Parse(time.RFC3339Nano, ..)\<close> on instants in
  nanoseconds since the Unix epoch. The printer is defined for the years 0 to 9999, where the format has
  four digits. The parser is the strict RFC 3339 parser Go tries first; the spellings only its general
  parser accepts (a one-digit hour, a comma before the fraction) are an argument of \<open>Parse_RFC3339Nano\<close>.
  Result: what is printed is read back.
\<close>

section \<open>The calendar\<close>

definition leap :: "int \<Rightarrow> bool" where
  "leap y \<longleftrightarrow> y mod 4 = 0 \<and> (y mod 100 \<noteq> 0 \<or> y mod 400 = 0)"

definition year_len :: "int \<Rightarrow> int" where
  "year_len y = (if leap y then 366 else 365)"

definition month_lens :: "int \<Rightarrow> int list" where
  "month_lens y = [31, if leap y then 29 else 28, 31, 30, 31, 30, 31, 31, 30, 31, 30, 31]"

text \<open>Days from 1 January of year 0, counted by whole years.\<close>

definition days_before_year :: "int \<Rightarrow> int" where
  "days_before_year y = 365 * y + (y + 3) div 4 - (y + 99) div 100 + (y + 399) div 400"

definition days_before_month :: "int \<Rightarrow> nat \<Rightarrow> int" where
  "days_before_month y m = sum_list (take (m - 1) (month_lens y))"

definition epoch_day :: int where "epoch_day = days_before_year 1970"

definition days_of_date :: "int \<Rightarrow> nat \<Rightarrow> int \<Rightarrow> int" where
  "days_of_date y m d = days_before_year y + days_before_month y m + (d - 1) - epoch_day"

text \<open>The date of a day: walk the years, then the months.\<close>

function year_walk :: "int \<Rightarrow> int \<Rightarrow> int \<times> int" where
  "year_walk y n = (if n < year_len y then (y, n) else year_walk (y + 1) (n - year_len y))"
  by pat_completeness auto
termination
  by (relation "measure (\<lambda>(y, n). nat n)") (auto simp: year_len_def split: if_splits)

declare year_walk.simps [simp del]

fun month_walk :: "nat \<Rightarrow> int list \<Rightarrow> int \<Rightarrow> nat \<times> int" where
  "month_walk m [] n = (m, n)"
| "month_walk m (l # ls) n = (if n < l then (m, n) else month_walk (m + 1) ls (n - l))"

definition date_of_days :: "int \<Rightarrow> int \<times> nat \<times> int" where
  "date_of_days n =
     (let N = n + epoch_day; c = N div 146097; (y, r) = year_walk (c * 400) (N - c * 146097); (m, d) = month_walk 1 (month_lens y) r
      in (y, m, d + 1))"

lemma ceil_step:
  assumes "0 < (k::int)" and "j = k - 1"
  shows "(y + 1 + j) div k = (y + j) div k + (if y mod k = 0 then 1 else 0)"
proof -
  have r: "0 \<le> y mod k" "y mod k < k" using assms by simp_all
  have "y + j = y mod k + j + y div k * k" using mult_div_mod_eq [of k y] by (simp add: mult.commute)
  then have "(y + j) div k = (y mod k + j + y div k * k) div k" by (rule arg_cong)
  then have "(y + j) div k = y div k + (y mod k + j) div k" using assms(1) by (simp only: div_mult_self1)
  moreover have "(y mod k + j) div k = (if y mod k = 0 then 0 else 1)"
  proof (cases "y mod k = 0")
    case False
    have "(y mod k + j) div k = 1" by (rule int_div_pos_eq [where r = "y mod k - 1"]) (use r assms False in linarith)+
    then show ?thesis using False by simp
  qed (use assms in simp)
  moreover have "(y + 1 + j) div k = y div k + 1" using assms by simp
  ultimately show ?thesis by simp
qed

lemma days_before_Suc: "days_before_year (y + 1) = days_before_year y + year_len y"
proof -
  have count: "365 * (y + 1) + a' - b' + c' = 365 * y + a - b + c + (if P \<and> (\<not> Q \<or> R) then 366 else 365)"
    if "a' = a + (if P then 1 else 0)" "b' = b + (if Q then 1 else 0)" "c' = c + (if R then 1 else 0)" "R \<Longrightarrow> Q" "Q \<Longrightarrow> P"
    for a a' b b' c c' :: int and P Q R
    using that by auto
  show ?thesis unfolding days_before_year_def year_len_def leap_def
  proof (rule count)
    show "y mod 400 = 0 \<Longrightarrow> y mod 100 = 0" "y mod 100 = 0 \<Longrightarrow> y mod 4 = 0"
      using mod_mod_cancel [of 100 400 y] mod_mod_cancel [of 4 100 y] by simp_all
  qed (rule ceil_step; simp)+
qed

lemma days_before_cycle: "days_before_year (c * 400) = c * 146097"
proof -
  have "(c * 400 + 3) div 4 = c * 100 + 3 div 4" "(c * 400 + 99) div 100 = c * 4 + 99 div 100" "(c * 400 + 399) div 400 = c + 399 div 400"
    using div_mult_self1 [of 4 3 "c * 100"] div_mult_self1 [of 100 99 "c * 4"] div_mult_self1 [of 400 399 c] by (simp_all add: add.commute)
  then show ?thesis by (simp add: days_before_year_def)
qed

lemma year_walk_sum:
  "year_walk y n = (y', r) \<Longrightarrow> 0 \<le> n \<Longrightarrow> days_before_year y + n = days_before_year y' + r \<and> 0 \<le> r \<and> r < year_len y' \<and> y \<le> y'"
proof (induction y n arbitrary: y' r rule: year_walk.induct)
  case (1 y n)
  show ?case
  proof (cases "n < year_len y")
    case True
    then show ?thesis using "1.prems" by (simp add: year_walk.simps)
  next
    case False
    then have "year_walk (y + 1) (n - year_len y) = (y', r)" using "1.prems" by (simp add: year_walk.simps)
    from "1.IH" [OF False this] False days_before_Suc [of y] show ?thesis by simp
  qed
qed

lemma month_walk_sum:
  "month_walk m ls n = (m', r) \<Longrightarrow> 0 \<le> n \<Longrightarrow> n < sum_list ls \<Longrightarrow>
     m \<le> m' \<and> m' < m + length ls \<and> 0 \<le> r \<and> r < ls ! (m' - m) \<and> sum_list (take (m' - m) ls) + r = n"
proof (induction m ls n rule: month_walk.induct)
  case (2 m l ls n)
  show ?case
  proof (cases "n < l")
    case True
    then show ?thesis using 2 by auto
  next
    case False
    with 2 have "m + 1 \<le> m' \<and> m' < m + 1 + length ls \<and> 0 \<le> r \<and> r < ls ! (m' - (m + 1))
        \<and> sum_list (take (m' - (m + 1)) ls) + r = n - l" by auto
    moreover from this have "m' - m = Suc (m' - (m + 1))" by linarith
    ultimately show ?thesis by auto
  qed
qed simp

lemma sum_month_lens: "sum_list (month_lens y) = year_len y" "length (month_lens y) = 12"
  by (simp_all add: month_lens_def year_len_def)

lemma date_roundtrip:
  assumes "date_of_days n = (y, m, d)"
  shows "days_of_date y m d = n \<and> 1 \<le> m \<and> m \<le> 12 \<and> 1 \<le> d \<and> d \<le> month_lens y ! (m - 1)
    \<and> (n + epoch_day) div 146097 * 400 \<le> y"
proof -
  let ?N = "n + epoch_day" and ?c = "(n + epoch_day) div 146097"
  obtain r where yw: "year_walk (?c * 400) (?N - ?c * 146097) = (y, r)" and mw: "month_walk 1 (month_lens y) r = (m, d - 1)"
    using assms by (auto simp: date_of_days_def Let_def split: prod.splits)
  have "0 \<le> ?N - ?c * 146097" by (simp add: minus_div_mult_eq_mod)
  note y = year_walk_sum [OF yw this]
  from y days_before_cycle [of ?c] have N: "days_before_year y + r = ?N" "0 \<le> r" "r < year_len y" by auto
  from month_walk_sum [OF mw] N have "1 \<le> m \<and> m \<le> 12 \<and> 1 \<le> d \<and> d \<le> month_lens y ! (m - 1)
      \<and> days_before_month y m + (d - 1) = r"
    by (auto simp: sum_month_lens days_before_month_def)
  with N y show ?thesis by (auto simp: days_of_date_def)
qed

section \<open>Digits\<close>

fun pad :: "nat \<Rightarrow> int \<Rightarrow> string" where
  "pad 0 n = []"
| "pad (Suc k) n = pad k (n div 10) @ [digit (nat (n mod 10))]"

lemma length_pad [simp]: "length (pad k n) = k"
  by (induction k arbitrary: n) simp_all

lemma pad_digit: "is_digit (digit (nat (n mod 10)))" "digit_val (digit (nat (n mod 10))) = n mod 10" for n :: int
proof -
  have "nat (n mod 10) < 10" by simp
  then have "byte (digit (nat (n mod 10))) = 48 + nat (n mod 10)" by (simp add: digit_def byte_def)
  then show "is_digit (digit (nat (n mod 10)))" "digit_val (digit (nat (n mod 10))) = n mod 10"
    by (simp_all add: is_digit_def digit_val_def)
qed

lemma pad_digits: "list_all is_digit (pad k n)"
  by (induction k arbitrary: n) (simp_all add: pad_digit)

lemma digits_val_pad: "0 \<le> n \<Longrightarrow> digits_val (pad k n) = n mod 10 ^ k"
proof (induction k arbitrary: n)
  case (Suc k)
  have "n mod 10 ^ Suc k = (n div 10) mod 10 ^ k * 10 + n mod 10"
    using mod_mult2_eq' [of n 10 "10 ^ k"] zmod_zmult2_eq [of "10 ^ k" n 10] by simp
  then show ?case using Suc by (simp add: digits_val_snoc pad_digit pos_imp_zdiv_nonneg_iff)
qed (simp add: digits_val_def)

section \<open>Printing\<close>

definition sec_of_day :: "time \<Rightarrow> int" where
  "sec_of_day t = t div second mod 86400"

text \<open>The fraction, without trailing zeros.\<close>

definition frac_digits :: "int \<Rightarrow> string" where
  "frac_digits ns = rev (dropWhile (\<lambda>c. c = CHR ''0'') (rev (pad 9 ns)))"

definition frac_str :: "int \<Rightarrow> string" where
  "frac_str ns = (if ns = 0 then [] else ''.'' @ frac_digits ns)"

definition Format_RFC3339Nano :: "time \<Rightarrow> string" where
  "Format_RFC3339Nano t =
     (let (y, m, d) = date_of_days (t div second div 86400); s = sec_of_day t in
      pad 4 y @ ''-'' @ pad 2 (int m) @ ''-'' @ pad 2 d @ ''T'' @ pad 2 (s div 3600) @ '':'' @ pad 2 (s div 60 mod 60) @ '':'' @ pad 2 (s mod 60)
      @ frac_str (t mod second) @ ''Z'')"

section \<open>Parsing\<close>

definition parseUint :: "string \<Rightarrow> int \<Rightarrow> int \<Rightarrow> int option" where
  "parseUint s lo hi = (if list_all is_digit s \<and> lo \<le> digits_val s \<and> digits_val s \<le> hi then Some (digits_val s) else None)"

definition substr :: "nat \<Rightarrow> nat \<Rightarrow> string \<Rightarrow> string" where
  "substr i j s = take (j - i) (drop i s)"

definition parseNanoseconds :: "string \<Rightarrow> int" where
  "parseNanoseconds ds = (let ds = take 9 ds in digits_val ds * 10 ^ (9 - length ds))"

definition parse_zone :: "string \<Rightarrow> int option" where
  "parse_zone s =
     (if s = ''Z'' then Some 0
      else if length s \<noteq> 6 \<or> s ! 0 \<notin> {CHR ''+'', CHR ''-''} \<or> s ! 3 \<noteq> CHR '':'' then None
      else case (parseUint (substr 1 3 s) 0 23, parseUint (substr 4 6 s) 0 59) of
        (Some hr, Some mm) \<Rightarrow> (let off = (hr * 60 + mm) * 60 in Some (if s ! 0 = CHR ''-'' then - off else off))
      | _ \<Rightarrow> None)"

text \<open>The tail of the layout: an optional fraction and the zone.\<close>

definition parse_tail :: "string \<Rightarrow> string \<times> string" where
  "parse_tail rest =
     (let frac = (if length rest \<ge> 2 \<and> rest ! 0 = CHR ''.'' \<and> is_digit (rest ! 1) then takeWhile is_digit (tl rest) else [])
      in (frac, if frac = [] then rest else drop (1 + length frac) rest))"

definition parseRFC3339 :: "string \<Rightarrow> time option" where
  "parseRFC3339 s =
     (if length s < 19 \<or> s ! 4 \<noteq> CHR ''-'' \<or> s ! 7 \<noteq> CHR ''-'' \<or> s ! 10 \<noteq> CHR ''T'' \<or> s ! 13 \<noteq> CHR '':'' \<or> s ! 16 \<noteq> CHR '':'' then None
      else case (parseUint (substr 0 4 s) 0 9999, parseUint (substr 5 7 s) 1 12, parseUint (substr 11 13 s) 0 23,
                 parseUint (substr 14 16 s) 0 59, parseUint (substr 17 19 s) 0 59) of
        (Some y, Some m, Some h, Some mi, Some sc) \<Rightarrow>
          (case parseUint (substr 8 10 s) 1 (month_lens y ! nat (m - 1)) of None \<Rightarrow> None
           | Some d \<Rightarrow> (case parse_tail (drop 19 s) of (fr, zone) \<Rightarrow>
               (case parse_zone zone of None \<Rightarrow> None
                | Some off \<Rightarrow> Some ((days_of_date y (nat m) d * 86400 + h * 3600 + mi * 60 + sc - off) * second + parseNanoseconds fr))))
      | _ \<Rightarrow> None)"

definition Parse_RFC3339Nano :: "(string \<Rightarrow> time option) \<Rightarrow> string \<Rightarrow> time option" where
  "Parse_RFC3339Nano lenient s = (case parseRFC3339 s of Some t \<Rightarrow> Some t | None \<Rightarrow> lenient s)"

section \<open>Round trip\<close>

lemma digits_val_zeros: "digits_val (xs @ replicate k (CHR ''0'')) = digits_val xs * 10 ^ k"
proof (induction k)
  case (Suc k)
  have "xs @ replicate (Suc k) (CHR ''0'') = (xs @ replicate k (CHR ''0'')) @ [CHR ''0'']"
    by (simp add: replicate_append_same)
  then show ?case using Suc by (simp only: digits_val_snoc) (simp add: digit_val_def byte_def)
qed simp

lemma frac_digits_pad: "\<exists>k. pad 9 ns = frac_digits ns @ replicate k (CHR ''0'')"
proof -
  let ?z = "\<lambda>c. c = CHR ''0''" and ?r = "rev (pad 9 ns)"
  have "pad 9 ns = rev (dropWhile ?z ?r) @ rev (takeWhile ?z ?r)"
    by (metis rev_append rev_rev_ident takeWhile_dropWhile_id)
  moreover have "rev (takeWhile ?z ?r) = replicate (length (takeWhile ?z ?r)) (CHR ''0'')"
    using replicate_length_same [of "takeWhile ?z ?r" "CHR ''0''"] set_takeWhileD [of _ ?z ?r] by (metis rev_replicate)
  ultimately show ?thesis unfolding frac_digits_def by metis
qed

lemma frac_digits:
  assumes "0 < ns" and "ns < second"
  shows "frac_digits ns \<noteq> []" "list_all is_digit (frac_digits ns)" "parseNanoseconds (frac_digits ns) = ns"
proof -
  obtain k where k: "pad 9 ns = frac_digits ns @ replicate k (CHR ''0'')" using frac_digits_pad by blast
  then have "length (frac_digits ns) + k = 9" by (metis length_append length_pad length_replicate)
  then have len: "9 - length (frac_digits ns) = k" "length (frac_digits ns) \<le> 9" by simp_all
  have v: "digits_val (frac_digits ns) * 10 ^ k = ns"
    using digits_val_zeros [of "frac_digits ns" k] digits_val_pad [of ns 9] assms k by simp
  then show "parseNanoseconds (frac_digits ns) = ns" using len by (simp add: parseNanoseconds_def Let_def)
  show "frac_digits ns \<noteq> []" using v assms by (auto simp: digits_val_def)
  show "list_all is_digit (frac_digits ns)" using pad_digits [of 9 ns] unfolding k by simp
qed

lemma parseUint_pad: "0 \<le> n \<Longrightarrow> n < 10 ^ k \<Longrightarrow> lo \<le> n \<Longrightarrow> n \<le> hi \<Longrightarrow> parseUint (pad k n) lo hi = Some n"
  by (simp add: parseUint_def pad_digits digits_val_pad)

lemma pad_explode: "\<exists>a b. pad 2 n = [a, b]" "\<exists>a b c d. pad 4 n = [a, b, c, d]"
  by (simp_all add: numeral_eq_Suc)

text \<open>The fixed part of the layout.\<close>

lemma layout_substr:
  assumes "s = pad 4 y @ ''-'' @ pad 2 m @ ''-'' @ pad 2 d @ ''T'' @ pad 2 h @ '':'' @ pad 2 mi @ '':'' @ pad 2 sc @ rest"
  shows "substr 0 4 s = pad 4 y" "substr 5 7 s = pad 2 m" "substr 8 10 s = pad 2 d" "substr 11 13 s = pad 2 h"
    "substr 14 16 s = pad 2 mi" "substr 17 19 s = pad 2 sc" "drop 19 s = rest" "19 \<le> length s"
    "s ! 4 = CHR ''-''" "s ! 7 = CHR ''-''" "s ! 10 = CHR ''T''" "s ! 13 = CHR '':''" "s ! 16 = CHR '':''"
proof -
  obtain a b c e where y: "pad 4 y = [a, b, c, e]" using pad_explode by blast
  obtain m1 m2 d1 d2 h1 h2 where m: "pad 2 m = [m1, m2]" "pad 2 d = [d1, d2]" "pad 2 h = [h1, h2]" using pad_explode by metis
  obtain i1 i2 s1 s2 where t: "pad 2 mi = [i1, i2]" "pad 2 sc = [s1, s2]" using pad_explode by metis
  show "substr 0 4 s = pad 4 y" "substr 5 7 s = pad 2 m" "substr 8 10 s = pad 2 d" "substr 11 13 s = pad 2 h"
    "substr 14 16 s = pad 2 mi" "substr 17 19 s = pad 2 sc" "drop 19 s = rest" "19 \<le> length s"
    "s ! 4 = CHR ''-''" "s ! 7 = CHR ''-''" "s ! 10 = CHR ''T''" "s ! 13 = CHR '':''" "s ! 16 = CHR '':''"
    unfolding assms y m t by (simp_all add: substr_def)
qed

definition four_digit_year :: "time \<Rightarrow> bool" where
  "four_digit_year t = (case date_of_days (t div second div 86400) of (y, m, d) \<Rightarrow> 0 \<le> y \<and> y \<le> 9999)"

lemma month_lens_le: "1 \<le> m \<Longrightarrow> m \<le> 12 \<Longrightarrow> month_lens y ! (m - 1) \<le> 31"
proof -
  assume "1 \<le> m" "m \<le> 12"
  then have "month_lens y ! (m - 1) \<in> set (month_lens y)" by (intro nth_mem) (simp add: sum_month_lens)
  then show ?thesis by (auto simp: month_lens_def split: if_splits)
qed

lemma split_instant:
  "(t div second div 86400 * 86400 + sec_of_day t div 3600 * 3600 + sec_of_day t div 60 mod 60 * 60 + sec_of_day t mod 60) * second + t mod second = t"
proof -
  let ?u = "t div second" and ?s = "sec_of_day t"
  have "?s div 60 div 60 * 60 + ?s div 60 mod 60 = ?s div 60" "?s div 60 * 60 + ?s mod 60 = ?s" "?u div 86400 * 86400 + ?u mod 86400 = ?u"
    "?u * second + t mod second = t"
    by (rule div_mult_mod_eq)+
  moreover have "?s div 60 div 60 = ?s div 3600" by (simp add: zdiv_zmult2_eq [symmetric])
  moreover have "?s = ?u mod 86400" by (simp add: sec_of_day_def)
  ultimately show ?thesis by (simp only: ring_distribs)
qed

lemma parse_tail_frac:
  assumes "0 \<le> ns" and "ns < second"
  shows "\<exists>ds. parse_tail (frac_str ns @ ''Z'') = (ds, ''Z'') \<and> parseNanoseconds ds = ns"
proof (cases "ns = 0")
  case True
  then show ?thesis by (simp add: frac_str_def parse_tail_def Let_def parseNanoseconds_def digits_val_def)
next
  case False
  note f = frac_digits [of ns]
  obtain c cs where cs: "frac_digits ns = c # cs" using f False assms by (cases "frac_digits ns") auto
  have z: "\<not> is_digit (CHR ''Z'')" by (simp add: is_digit_def byte_def)
  have "takeWhile is_digit (frac_digits ns @ ''Z'') = frac_digits ns"
    using f False assms z by (subst takeWhile_append2) (auto simp: list_all_iff)
  moreover have "is_digit c" using f(2) False assms cs by simp
  ultimately have "parse_tail (frac_str ns @ ''Z'') = (frac_digits ns, ''Z'')"
    using False cs by (simp add: frac_str_def parse_tail_def Let_def)
  then show ?thesis using f False assms by auto
qed

lemma Parse_Format:
  assumes "four_digit_year t"
  shows "Parse_RFC3339Nano lenient (Format_RFC3339Nano t) = Some t"
proof -
  obtain y m d where dt: "date_of_days (t div second div 86400) = (y, m, d)" using prod_cases3 by blast
  note r = date_roundtrip [OF dt]
  let ?s = "Format_RFC3339Nano t" and ?u = "sec_of_day t"
  have s: "?s = pad 4 y @ ''-'' @ pad 2 (int m) @ ''-'' @ pad 2 d @ ''T'' @ pad 2 (?u div 3600) @ '':'' @ pad 2 (?u div 60 mod 60)
      @ '':'' @ pad 2 (?u mod 60) @ (frac_str (t mod second) @ ''Z'')"
    by (simp add: Format_RFC3339Nano_def dt Let_def)
  note l = layout_substr [OF s]
  have u: "0 \<le> ?u" "?u < 86400" by (simp_all add: sec_of_day_def)
  have y: "parseUint (substr 0 4 ?s) 0 9999 = Some y"
    unfolding l using assms dt by (intro parseUint_pad) (auto simp: four_digit_year_def)
  have m: "parseUint (substr 5 7 ?s) 1 12 = Some (int m)" unfolding l using r by (intro parseUint_pad) auto
  have "d \<le> 31" using r month_lens_le [of m y] by linarith
  then have d: "parseUint (substr 8 10 ?s) 1 (month_lens y ! nat (int m - 1)) = Some d"
    unfolding l using r by (intro parseUint_pad) (auto simp: nat_diff_distrib')
  have h: "parseUint (substr 11 13 ?s) 0 23 = Some (?u div 3600)" unfolding l using u by (intro parseUint_pad) auto
  have mi: "parseUint (substr 14 16 ?s) 0 59 = Some (?u div 60 mod 60)" unfolding l by (intro parseUint_pad) auto
  have sc: "parseUint (substr 17 19 ?s) 0 59 = Some (?u mod 60)" unfolding l by (intro parseUint_pad) auto
  obtain ds where ds: "parse_tail (frac_str (t mod second) @ ''Z'') = (ds, ''Z'')" "parseNanoseconds ds = t mod second"
    using parse_tail_frac [of "t mod second"] by auto
  have "parseRFC3339 ?s = Some ((days_of_date y m d * 86400 + ?u div 3600 * 3600 + ?u div 60 mod 60 * 60 + ?u mod 60) * second + t mod second)"
  proof -
    have g: "\<not> (length ?s < 19 \<or> ?s ! 4 \<noteq> CHR ''-'' \<or> ?s ! 7 \<noteq> CHR ''-'' \<or> ?s ! 10 \<noteq> CHR ''T'' \<or> ?s ! 13 \<noteq> CHR '':'' \<or> ?s ! 16 \<noteq> CHR '':'')"
      using l(8-13) by simp
    have z: "parse_zone ''Z'' = Some 0" by (simp add: parse_zone_def)
    show ?thesis
      unfolding parseRFC3339_def if_not_P [OF g] y m h mi sc prod.case option.case d l(7) ds z nat_int diff_zero ..
  qed
  also have "days_of_date y m d = t div second div 86400" using r by blast
  finally show ?thesis unfolding split_instant Parse_RFC3339Nano_def by (simp only: option.case)
qed

end
