(* ===== verification/Cursor_Codec.thy ===== *)
theory Cursor_Codec
  imports Calendar
begin

text \<open>
  The opaque page token of \<^verbatim>\<open>internal/api/dto.go\<close>: \<^verbatim>\<open>encodeCursor\<close> and \<^verbatim>\<open>decodeCursor\<close>, with
  \<^verbatim>\<open>base64.RawURLEncoding\<close> of the standard library (no padding; a decoder that skips line breaks and does
  not check the unused bits of the last character). A token that was issued is read back.
\<close>

section \<open>Base64\<close>

text \<open>The character of a six-bit value and back.\<close>

definition b64_char :: "nat \<Rightarrow> char" where
  "b64_char v = char_of (if v < 26 then 65 + v else if v < 52 then 71 + v else if v < 62 then v - 4 else if v = 62 then 45 else (95 :: nat))"

definition b64_val :: "char \<Rightarrow> nat option" where
  "b64_val c = (let b = byte c in
     if 65 \<le> b \<and> b \<le> 90 then Some (b - 65) else if 97 \<le> b \<and> b \<le> 122 then Some (b - 71)
     else if 48 \<le> b \<and> b \<le> 57 then Some (b + 4) else if b = 45 then Some 62 else if b = 95 then Some 63 else None)"

fun EncodeToString :: "string \<Rightarrow> string" where
  "EncodeToString (a # b # c # s) =
     b64_char (byte a div 4) # b64_char (byte a mod 4 * 16 + byte b div 16)
     # b64_char (byte b mod 16 * 4 + byte c div 64) # b64_char (byte c mod 64) # EncodeToString s"
| "EncodeToString [a, b] = [b64_char (byte a div 4), b64_char (byte a mod 4 * 16 + byte b div 16), b64_char (byte b mod 16 * 4)]"
| "EncodeToString [a] = [b64_char (byte a div 4), b64_char (byte a mod 4 * 16)]"
| "EncodeToString [] = []"

text \<open>\<^verbatim>\<open>DecodeString\<close>: four characters give three bytes; two or three at the end give one or two.\<close>

fun b64_quanta :: "nat list \<Rightarrow> string option" where
  "b64_quanta (p # q # r # t # vs) =
     map_option (\<lambda>s. char_of (p * 4 + q div 16) # char_of (q mod 16 * 16 + r div 4) # char_of (r mod 4 * 64 + t) # s) (b64_quanta vs)"
| "b64_quanta [p, q, r] = Some [char_of (p * 4 + q div 16), char_of (q mod 16 * 16 + r div 4)]"
| "b64_quanta [p, q] = Some [char_of (p * 4 + q div 16)]"
| "b64_quanta [p] = None"
| "b64_quanta [] = Some []"

definition DecodeString :: "string \<Rightarrow> string option" where
  "DecodeString s =
     (let cs = filter (\<lambda>c. byte c \<notin> {10, 13}) s in
      if list_all (\<lambda>c. b64_val c \<noteq> None) cs then b64_quanta (map (\<lambda>c. the (b64_val c)) cs) else None)"

lemma b64_char_byte:
  "v < 64 \<Longrightarrow> byte (b64_char v) = (if v < 26 then 65 + v else if v < 52 then 71 + v else if v < 62 then v - 4 else if v = 62 then 45 else 95)"
  by (auto simp: b64_char_def byte_def)

lemma b64_val_char: "v < 64 \<Longrightarrow> b64_val (b64_char v) = Some v"
  by (auto simp: b64_val_def b64_char_byte Let_def)

lemma b64_char_solid: "v < 64 \<Longrightarrow> solid (b64_char v) \<and> byte (b64_char v) \<notin> {10, 13}"
  by (auto simp: solid_def b64_char_byte)

text \<open>The six-bit values an encoding consists of.\<close>

fun b64_values :: "string \<Rightarrow> nat list" where
  "b64_values (a # b # c # s) =
     byte a div 4 # (byte a mod 4 * 16 + byte b div 16) # (byte b mod 16 * 4 + byte c div 64) # (byte c mod 64) # b64_values s"
| "b64_values [a, b] = [byte a div 4, byte a mod 4 * 16 + byte b div 16, byte b mod 16 * 4]"
| "b64_values [a] = [byte a div 4, byte a mod 4 * 16]"
| "b64_values [] = []"

lemma encode_values: "EncodeToString s = map b64_char (b64_values s)"
  by (induction s rule: EncodeToString.induct) simp_all

lemma b64_values_lt: "\<forall>v \<in> set (b64_values s). v < 64"
proof (induction s rule: b64_values.induct)
  case (1 a b c s)
  then show ?case using byte_lt [of a] byte_lt [of b] byte_lt [of c] by (simp; linarith)
next
  case (2 a b)
  then show ?case using byte_lt [of a] byte_lt [of b] by (simp; linarith)
next
  case (3 a)
  then show ?case using byte_lt [of a] by (simp; linarith)
qed simp

lemma char_of_byte: "n = byte c \<Longrightarrow> char_of n = c"
  by (simp add: byte_def)

lemma join_bits:
  "x div 4 * 4 + (x mod 4 * 16 + y div 16) div 16 = x" "(x mod 4 * 16 + y div 16) mod 16 * 16 + (y mod 16 * 4 + z div 64) div 4 = y"
  "(y mod 16 * 4 + z div 64) mod 4 * 64 + z mod 64 = z" "x div 4 * 4 + x mod 4 * 16 div 16 = x"
  "(x mod 4 * 16 + y div 16) mod 16 * 16 + y mod 16 * 4 div 4 = y"
  if "x < 256" "y < 256" "z < 256" for x y z :: nat
proof -
  have y: "y div 16 < 16" and z: "z div 64 < 4" using that by simp_all
  have "(x mod 4 * 16 + y div 16) div 16 = x mod 4" "(x mod 4 * 16 + y div 16) mod 16 = y div 16"
    using y by (simp_all add: div_mult_self3)
  moreover have "(y mod 16 * 4 + z div 64) div 4 = y mod 16" "(y mod 16 * 4 + z div 64) mod 4 = z div 64"
    using z by (simp_all add: div_mult_self3)
  ultimately show "x div 4 * 4 + (x mod 4 * 16 + y div 16) div 16 = x" "(x mod 4 * 16 + y div 16) mod 16 * 16 + (y mod 16 * 4 + z div 64) div 4 = y"
    "(y mod 16 * 4 + z div 64) mod 4 * 64 + z mod 64 = z" "x div 4 * 4 + x mod 4 * 16 div 16 = x"
    "(x mod 4 * 16 + y div 16) mod 16 * 16 + y mod 16 * 4 div 4 = y"
    by (simp_all only: div_mult_mod_eq nonzero_mult_div_cancel_right zero_neq_numeral [symmetric] not_False_eq_True)
qed

lemma quanta_values: "b64_quanta (b64_values s) = Some s"
proof (induction s rule: b64_values.induct)
  case (1 a b c s)
  note j = join_bits [OF byte_lt [of a] byte_lt [of b] byte_lt [of c]]
  show ?case unfolding b64_values.simps b64_quanta.simps j "1.IH" by (simp add: char_of_byte)
next
  case (2 a b)
  note j = join_bits [OF byte_lt [of a] byte_lt [of b] byte_lt [of b]]
  show ?case unfolding b64_values.simps b64_quanta.simps j by (simp add: char_of_byte)
next
  case (3 a)
  note j = join_bits [OF byte_lt [of a] byte_lt [of a] byte_lt [of a]]
  show ?case unfolding b64_values.simps b64_quanta.simps j by (simp add: char_of_byte)
qed simp

lemma Decode_Encode: "DecodeString (EncodeToString s) = Some s"
proof -
  let ?vs = "b64_values s"
  have lt: "\<And>v. v \<in> set ?vs \<Longrightarrow> v < 64" using b64_values_lt by blast
  have "filter (\<lambda>c. byte c \<notin> {10, 13}) (map b64_char ?vs) = map b64_char ?vs"
    using lt b64_char_solid by (intro filter_True) auto
  moreover have "list_all (\<lambda>c. b64_val c \<noteq> None) (map b64_char ?vs)" using lt by (auto simp: list_all_iff b64_val_char)
  moreover have "map (\<lambda>c. the (b64_val c)) (map b64_char ?vs) = ?vs"
    unfolding map_map by (rule map_idI) (simp add: lt b64_val_char)
  ultimately show ?thesis unfolding DecodeString_def encode_values Let_def by (simp only: if_True quanta_values)
qed

lemma encode_solid: "c \<in> set (EncodeToString s) \<Longrightarrow> solid c"
  using b64_values_lt [of s] b64_char_solid by (auto simp: encode_values)

lemma encode_Nil: "EncodeToString s = [] \<longleftrightarrow> s = []"
  by (cases s rule: EncodeToString.cases) simp_all

section \<open>Tokens\<close>

definition encodeCursor :: "Cursor option \<Rightarrow> string option" where
  "encodeCursor c = (case c of None \<Rightarrow> None
     | Some c \<Rightarrow> Some (EncodeToString (Format_RFC3339Nano (C_CreatedAt c) @ '','' @ C_ID c)))"

text \<open>\<^verbatim>\<open>strings.SplitN(s, ",", 2)\<close>.\<close>

definition SplitN2 :: "string \<Rightarrow> string list" where
  "SplitN2 s = (let a = takeWhile (\<lambda>c. c \<noteq> CHR '','') s in if a = s then [s] else [a, drop (length a + 1) s])"

text \<open>\<open>None\<close> is the error \<^verbatim>\<open>invalid cursor\<close>.\<close>

definition decodeCursor :: "(string \<Rightarrow> time option) \<Rightarrow> string \<Rightarrow> Cursor option option" where
  "decodeCursor lenient token0 =
     (let token = TrimSpace token0 in
      if token = [] then Some None
      else case DecodeString token of None \<Rightarrow> None
      | Some raw \<Rightarrow>
         (case SplitN2 raw of
            [a, b] \<Rightarrow>
              (case Parse_RFC3339Nano lenient a of None \<Rightarrow> None
               | Some ts \<Rightarrow> if \<not> ValidUUID b then None else Some (Some \<lparr>C_CreatedAt = ts, C_ID = b\<rparr>))
          | _ \<Rightarrow> None))"

lemma pad_no_comma: "CHR '','' \<notin> set (pad k n)"
  using pad_digits [of k n] by (auto simp: list_all_iff is_digit_def byte_def)

lemma frac_no_comma: "CHR '','' \<notin> set (frac_str ns)"
proof -
  have "set (frac_digits ns) \<subseteq> set (pad 9 ns)" unfolding frac_digits_def by (auto dest: set_dropWhileD)
  then show ?thesis using pad_no_comma [of 9 ns] by (auto simp: frac_str_def)
qed

lemma Format_no_comma: "CHR '','' \<notin> set (Format_RFC3339Nano t)"
  using pad_no_comma frac_no_comma by (simp add: Format_RFC3339Nano_def Let_def split: prod.splits)

lemma SplitN2_comma: "CHR '','' \<notin> set a \<Longrightarrow> SplitN2 (a @ '','' @ b) = [a, b]"
proof -
  assume "CHR '','' \<notin> set a"
  then have "takeWhile (\<lambda>c. c \<noteq> CHR '','') (a @ '','' @ b) = a" by (subst takeWhile_append2) auto
  then show ?thesis by (simp add: SplitN2_def Let_def)
qed

text \<open>C36. A page token is read back: the token the API issues for a cursor decodes to exactly that cursor, for
  every instant of the years 0 to 9999 at nanosecond precision and every UUID, whatever else the general
  time parser may accept.\<close>

theorem cursor_roundtrip:
  assumes "four_digit_year (C_CreatedAt c)" and "ValidUUID (C_ID c)" and "encodeCursor (Some c) = Some tok"
  shows "decodeCursor lenient tok = Some (Some c)"
proof -
  let ?raw = "Format_RFC3339Nano (C_CreatedAt c) @ '','' @ C_ID c"
  have tok: "tok = EncodeToString ?raw" using assms(3) by (simp add: encodeCursor_def)
  have "tok \<noteq> []" by (simp add: tok encode_Nil)
  then have trim: "TrimSpace tok = tok" 
    using encode_solid [of _ ?raw] by (intro TrimSpace_solid) (simp_all add: tok del: append.simps)
  have dec: "DecodeString tok = Some ?raw" unfolding tok by (rule Decode_Encode)
  show ?thesis
    using \<open>tok \<noteq> []\<close> assms(1,2)
    unfolding decodeCursor_def Let_def trim dec option.case SplitN2_comma [OF Format_no_comma] list.case
    by (simp add: Parse_Format)
qed

theorem cursor_roundtrip_witness:
  "decodeCursor (\<lambda>_. None) (the (encodeCursor (Some \<lparr>C_CreatedAt = 86401 * second + 5000000, C_ID = ''00000000-0000-4000-8000-000000000000''\<rparr>)))
    = Some (Some \<lparr>C_CreatedAt = 86401 * second + 5000000, C_ID = ''00000000-0000-4000-8000-000000000000''\<rparr>)"
proof -
  have "four_digit_year (86401 * second + 5000000)" by code_simp
  moreover have "ValidUUID ''00000000-0000-4000-8000-000000000000''" by code_simp
  ultimately show ?thesis by (intro cursor_roundtrip) (simp_all add: encodeCursor_def)
qed

end
