(* ===== verification/Api.thy ===== *)
theory Api
  imports Http Cursor_Codec Delivery_Outcomes
begin

text \<open>
  The handlers of \<^verbatim>\<open>internal/api\<close> over the service's state \<open>world\<close>: ingestion (\<^verbatim>\<open>handler_ingest.go\<close>),
  subscriptions (\<^verbatim>\<open>handler_subscription.go\<close>), dead letters (\<^verbatim>\<open>handler_dlq.go\<close>), status and monitoring
  (\<^verbatim>\<open>handler_status.go\<close>, \<^verbatim>\<open>handler_monitor.go\<close>) and health (\<^verbatim>\<open>handler_health.go\<close>), with the response
  types of \<^verbatim>\<open>dto.go\<close>. Each handler is one function with the code's early returns in its order. \<open>henv\<close>
  holds what one request meets: the fate of each call, the clock readings, the random bytes, and what
  others do between the two calls of a partial update.
\<close>

section \<open>Response types\<close>

record subscriptionResponse =
  sr_ID :: string
  sr_TargetURL :: string
  sr_EventTypes :: "string list"
  sr_IsActive :: bool
  sr_ConsecutiveFailures :: int
  sr_SecretRotatedAt :: "time option"
  sr_CreatedAt :: time
  sr_UpdatedAt :: time

record attemptResponse =
  ar_ID :: string
  ar_WebhookID :: string
  ar_EventType :: string
  ar_AttemptNumber :: int
  ar_ReplayNumber :: int
  ar_Status :: string
  ar_HTTPStatus :: "int option"
  ar_ErrorDetails :: string
  ar_NextRetryAt :: "time option"
  ar_InDLQ :: bool
  ar_Payload :: string
  ar_CreatedAt :: time
  ar_UpdatedAt :: time

record attemptView =
  av_AttemptNumber :: int
  av_ReplayNumber :: int
  av_Status :: string
  av_HTTPStatus :: "int option"
  av_ErrorDetails :: string
  av_NextRetryAt :: "time option"
  av_Timestamp :: time

record statistics =
  st_TotalAttempts :: nat
  st_Successful :: nat
  st_Failed :: nat
  st_Pending :: nat
  st_FinalFailure :: nat

record statusResponse =
  wr_WebhookID :: string
  wr_SubscriptionID :: string
  wr_EventType :: string
  wr_Status :: string
  wr_TargetURL :: string
  wr_Payload :: string
  wr_CreatedAt :: time
  wr_UpdatedAt :: time
  wr_LastAttemptAt :: time
  wr_NextRetryAt :: "time option"
  wr_Attempts :: "attemptView list"
  wr_Statistics :: statistics

record metricsSummaryResponse =
  ms_WindowHours :: int
  ms_TotalAttempts :: nat
  ms_Successful :: nat
  ms_Failed :: nat
  ms_Pending :: nat
  ms_FinalFailure :: nat
  ms_SuccessRate :: rat

record monitorResponse =
  mr_UptimeSeconds :: int
  mr_DeliveryMetrics :: "(string \<times> nat) list"
  mr_QueueDepth :: nat
  mr_DeadLetterQueueDep :: nat
  mr_CircuitBreakers :: "(string \<times> string) list"
  mr_DeliveryLatencyMs :: HistogramSnapshot

record ingestResponse =
  ir_WebhookID :: string
  ir_DeliveryID :: string
  ir_Status :: string
  ir_Duplicate :: bool

datatype api_view =
    VIngest ingestResponse
  | VSub subscriptionResponse
  | VSubSecret subscriptionResponse string
  | VSubs "subscriptionResponse list" "string option"
  | VAttempts "attemptResponse list"
  | VStatus statusResponse
  | VMetrics metricsSummaryResponse
  | VMonitor monitorResponse
  | VHealth string "(string \<times> string) list"
  | VFields "(string \<times> string) list"

record createSubscriptionRequest =
  cr_TargetURL :: string
  cr_EventTypes :: "string list"
  cr_IsActive :: "bool option"

record updateSubscriptionRequest =
  ur_TargetURL :: "string option"
  ur_EventTypes :: "string list option"
  ur_IsActive :: "bool option"

definition toSubscriptionResponse :: "Subscription \<Rightarrow> subscriptionResponse" where
  "toSubscriptionResponse s = \<lparr>sr_ID = S_ID s, sr_TargetURL = S_TargetURL s, sr_EventTypes = S_EventTypes s, sr_IsActive = S_IsActive s,
     sr_ConsecutiveFailures = S_ConsecutiveFailures s, sr_SecretRotatedAt = S_SecretRotatedAt s, sr_CreatedAt = S_CreatedAt s,
     sr_UpdatedAt = S_UpdatedAt s\<rparr>"

definition toAttemptResponse :: "DeliveryLog \<Rightarrow> attemptResponse" where
  "toAttemptResponse d = \<lparr>ar_ID = D_ID d, ar_WebhookID = D_WebhookID d, ar_EventType = D_EventType d, ar_AttemptNumber = D_AttemptNumber d,
     ar_ReplayNumber = D_ReplayNumber d, ar_Status = status_string (D_Status d), ar_HTTPStatus = D_HTTPStatus d,
     ar_ErrorDetails = D_ErrorDetails d, ar_NextRetryAt = D_NextRetryAt d, ar_InDLQ = D_InDLQ d, ar_Payload = D_Payload d,
     ar_CreatedAt = D_CreatedAt d, ar_UpdatedAt = D_UpdatedAt d\<rparr>"

definition toAttemptView :: "DeliveryLog \<Rightarrow> attemptView" where
  "toAttemptView d = \<lparr>av_AttemptNumber = D_AttemptNumber d, av_ReplayNumber = D_ReplayNumber d, av_Status = status_string (D_Status d),
     av_HTTPStatus = D_HTTPStatus d, av_ErrorDetails = D_ErrorDetails d, av_NextRetryAt = D_NextRetryAt d, av_Timestamp = D_UpdatedAt d\<rparr>"

section \<open>The server and the surroundings of a request\<close>

text \<open>\<^verbatim>\<open>Options\<close>: the policy values, and the functions of code outside the repository.\<close>

record Options =
  o_pg :: pgsql
  o_dcfg :: DelivererConfig
  o_http :: http_env
  o_json_valid :: "string \<Rightarrow> bool"
  o_url_parse :: "string \<Rightarrow> string + url"
  o_sha256 :: "string \<Rightarrow> string"
  o_decode_create :: "string \<Rightarrow> createSubscriptionRequest decoded"
  o_decode_update :: "string \<Rightarrow> updateSubscriptionRequest decoded"
  o_lenient_time :: "string \<Rightarrow> time option"
  o_external :: "hreq \<Rightarrow> string"
  o_openapi :: string
  o_docs :: string
  SyncDelivery :: bool
  EnablePprof :: bool
  AdminAPIKey :: string
  AllowHTTPURLs :: bool
  CORSAllowedOrigins :: "string list"
  SignatureDriftWindow :: duration
  SecretGraceWindow :: duration

record henv =
  he_get :: senv
  he_between :: "world \<Rightarrow> world"
  he_write :: senv
  he_call :: call
  he_reload :: call
  he_lazy :: bool
  he_now :: time
  he_grace_now :: time
  he_allow_now :: time
  he_rand :: "string option"
  he_reqid_rand :: "string option"
  he_process :: penv
  he_enqueue :: reply
  he_remove :: reply
  he_depth :: reply
  he_dlq_depth :: reply
  he_ping_db :: "string option"
  he_ping_redis :: "string option"
  he_pool_running :: bool
  he_monitor_now :: time

type_synonym api_handler = "(api_view, world) handler"

abbreviation sub_cfg :: "Options \<Rightarrow> SubConfig" where "sub_cfg opt \<equiv> SubCfg (o_dcfg opt)"

section \<open>Ingestion\<close>

definition defaultIngestMaxBytes :: nat where "defaultIngestMaxBytes = 64 * 1024"

text \<open>\<^verbatim>\<open>verifyIngest\<close>: \<open>None\<close> is success.\<close>

definition verifyIngest :: "Options \<Rightarrow> henv \<Rightarrow> Subscription \<Rightarrow> string \<Rightarrow> string \<Rightarrow> string \<Rightarrow> string \<Rightarrow> error option" where
  "verifyIngest opt e sub body timestamp idempotencyKey sig =
     (case ParseInt timestamp of None \<Rightarrow> Some ErrTimestampOutOfWindow
      | Some ts \<Rightarrow>
         (if \<bar>fl (of_int (wrap64 (he_now e div second - ts)))\<bar> > Seconds (SignatureDriftWindow opt) then Some ErrTimestampOutOfWindow
          else
            let message = BuildMessage timestamp idempotencyKey body; mac = h_mac (o_http opt) in
            if Verify mac message (S_SecretKey sub) sig then None
            else case S_SecretRotatedAt sub of
              Some rotated \<Rightarrow>
                (if S_PreviousSecretKey sub \<noteq> [] \<and> he_grace_now e - rotated < SecretGraceWindow opt
                    \<and> Verify mac message (S_PreviousSecretKey sub) sig then None
                 else Some ErrSignatureInvalid)
            | None \<Rightarrow> Some ErrSignatureInvalid))"

text \<open>\<^verbatim>\<open>handleIngest\<close> from the insertion of the event on.\<close>

definition ingest_event :: "Options \<Rightarrow> henv \<Rightarrow> Subscription \<Rightarrow> string \<Rightarrow> string \<Rightarrow> string \<Rightarrow> string \<Rightarrow>
    api_view rw \<Rightarrow> world \<Rightarrow> bool \<times> api_view rw \<times> world" where
  "ingest_event opt e sub idempotencyKey webhookID body eventType w st =
     (case IngestPending (o_json_valid opt) (o_pg opt) (he_call e) (w_db st)
             \<lparr>P_SubscriptionID = S_ID sub, P_IdempotencyKey = idempotencyKey, P_WebhookID = webhookID, P_TargetURL = S_TargetURL sub,
              P_Payload = body, P_EventType = eventType\<rparr> of
        (Inl err, d) \<Rightarrow> (False, writeDomainError err w, st\<lparr>w_db := d\<rparr>)
      | (Inr result, d) \<Rightarrow>
         (let st = st\<lparr>w_db := d\<rparr> in
          if R_Duplicate result then
            (False, writeJSON 200 (JSON (VIngest \<lparr>ir_WebhookID = R_WebhookID result, ir_DeliveryID = [], ir_Status = ''duplicate'', ir_Duplicate = True\<rparr>)) w, st)
          else if SyncDelivery opt then
            (case Process (o_pg opt) (o_dcfg opt) (o_http opt) (he_process e) (R_DeliveryLogID result) st of
               (Inl err, st') \<Rightarrow> (False, writeError 500 ''delivery error'' w, st')
             | (Inr _, st') \<Rightarrow>
                (let status = (case GetLogByID (o_pg opt) (he_reload e) (w_db st') (R_DeliveryLogID result) of
                                 Inl _ \<Rightarrow> ''delivered'' | Inr d \<Rightarrow> status_string (D_Status d)) in
                 (False, writeJSON 200 (JSON (VIngest \<lparr>ir_WebhookID = R_WebhookID result, ir_DeliveryID = R_DeliveryLogID result,
                    ir_Status = status, ir_Duplicate = False\<rparr>)) w, st')))
          else
            (False, writeJSON 202 (JSON (VIngest \<lparr>ir_WebhookID = R_WebhookID result, ir_DeliveryID = R_DeliveryLogID result,
               ir_Status = ''accepted'', ir_Duplicate = False\<rparr>)) w,
             st\<lparr>w_redis := snd (Enqueue (he_enqueue e) (R_DeliveryLogID result) (w_redis st))\<rparr>)))"

text \<open>From the charge of the quota on.\<close>

definition ingest_admitted :: "Options \<Rightarrow> henv \<Rightarrow> hreq \<Rightarrow> Subscription \<Rightarrow> string \<Rightarrow> string \<Rightarrow>
    api_view rw \<Rightarrow> world \<Rightarrow> bool \<times> api_view rw \<times> world" where
  "ingest_admitted opt e r sub idempotencyKey body w st =
     (case StateAllow (sub_cfg opt) (he_allow_now e) (S_ID sub) (w_sub st) of
        (ok, s) \<Rightarrow>
         (let st = st\<lparr>w_sub := s\<rparr>; eventType = QueryGet r ''event_type'' in
          if \<not> ok then (False, writeError 429 ''rate limit exceeded'' w, st)
          else if \<not> o_json_valid opt body then (False, writeError 400 ''payload must be valid JSON'' w, st)
          else case ValidateEventType eventType of
            Inl err \<Rightarrow> (False, writeDomainError err w, st)
          | Inr _ \<Rightarrow>
             (if \<not> AcceptsEvent sub eventType then
                (False, writeJSON 202 (JSON (VIngest \<lparr>ir_WebhookID = [], ir_DeliveryID = [], ir_Status = ''ignored'', ir_Duplicate = False\<rparr>)) w, st)
              else case he_rand e of
                None \<Rightarrow> (False, writeDomainError (ErrOther ''idgen: read random'') w, st)
              | Some bs \<Rightarrow> ingest_event opt e sub idempotencyKey (NewUUIDv4 bs) body eventType w st)))"

definition handleIngest :: "Options \<Rightarrow> henv \<Rightarrow> api_handler" where
  "handleIngest opt e r s =
     (case s of (w, st) \<Rightarrow>
      case StateGetByID (o_pg opt) (sub_cfg opt) (he_get e) (w_db st) (pathID r) (w_sub st) of
        (Inl err, s1) \<Rightarrow> (False, writeDomainError err w, st\<lparr>w_sub := s1\<rparr>)
      | (Inr sub, s1) \<Rightarrow>
         (let st = st\<lparr>w_sub := s1\<rparr>; sig = HeaderGet r ''X-Hub-Signature-256''; timestamp = HeaderGet r ''Webhook-Timestamp'';
              idempotencyKey = HeaderGet r ''X-Idempotency-Key'' in
          if \<not> S_IsActive sub then (False, writeError 403 ''subscription is inactive'' w, st)
          else if sig = [] \<or> timestamp = [] then
            (False, writeError 400 ''missing X-Hub-Signature-256 or Webhook-Timestamp header'' w, st)
          else if \<not> ValidIdempotencyKey idempotencyKey then
            (False, writeError 400 ''invalid X-Idempotency-Key (must match [A-Za-z0-9_-]{1,128})'' w, st)
          else case read_stream (MaxBytesReader defaultIngestMaxBytes (r_body r)) of
            None \<Rightarrow> (True, w, st)
          | Some (body, TooLarge) \<Rightarrow> (False, writeError 413 ''payload exceeds 64KB limit'' w, st)
          | Some (body, BrokenOff) \<Rightarrow> (False, writeError 400 ''could not read request body'' w, st)
          | Some (body, EOF) \<Rightarrow>
             (case verifyIngest opt e sub body timestamp idempotencyKey sig of
                Some err \<Rightarrow>
                  (if err = ErrTimestampOutOfWindow then (False, writeError 400 ''timestamp outside the allowed drift window'' w, st)
                   else (False, writeError 401 ''signature verification failed'' w, st))
              | None \<Rightarrow> ingest_admitted opt e r sub idempotencyKey body w st)))"

section \<open>Subscriptions\<close>

definition handleCreateSubscription :: "Options \<Rightarrow> henv \<Rightarrow> api_handler" where
  "handleCreateSubscription opt e r s =
     (case s of (w0, st) \<Rightarrow>
      case readJSON (o_decode_create opt) r w0 of
        (None, w) \<Rightarrow> (False, w, st)
      | (Some req, w) \<Rightarrow>
         (case ValidateTargetURL (o_url_parse opt) (cr_TargetURL req) (AllowHTTPURLs opt) of
            Inl err \<Rightarrow> (False, writeDomainError err w, st)
          | Inr _ \<Rightarrow>
             (case he_rand e of None \<Rightarrow> (False, writeDomainError (ErrOther ''idgen: read random'') w, st)
              | Some bs \<Rightarrow>
                 (let secret = NewSecretKey bs;
                      sub = \<lparr>S_ID = [], S_TargetURL = cr_TargetURL req, S_SecretKey = secret, S_PreviousSecretKey = [], S_SecretRotatedAt = None,
                             S_EventTypes = cr_EventTypes req, S_IsActive = (cr_IsActive req = None \<or> cr_IsActive req = Some True),
                             S_ConsecutiveFailures = 0, S_CreatedAt = 0, S_UpdatedAt = 0\<rparr> in
                  case StateCreate (sub_cfg opt) (he_write e) (w_db st) sub (w_sub st) of
                    (Inl err, d, s1) \<Rightarrow> (False, writeDomainError err w, st\<lparr>w_db := d, w_sub := s1\<rparr>)
                  | (Inr sub', d, s1) \<Rightarrow>
                      (False, writeJSON 201 (JSON (VSubSecret (toSubscriptionResponse sub') secret)) w, st\<lparr>w_db := d, w_sub := s1\<rparr>)))))"

definition handleListSubscriptions :: "Options \<Rightarrow> henv \<Rightarrow> api_handler" where
  "handleListSubscriptions opt e r s =
     (case s of (w, st) \<Rightarrow>
      case decodeCursor (o_lenient_time opt) (QueryGet r ''cursor'') of
        None \<Rightarrow> (False, writeError 400 ''invalid cursor'' w, st)
      | Some cursor \<Rightarrow>
         (case StateList (o_pg opt) (he_get e) (w_db st) (parseLimit r 20 100) cursor of
            Inl err \<Rightarrow> (False, writeDomainError err w, st)
          | Inr page \<Rightarrow>
              (False, writeJSON 200 (JSON (VSubs (map toSubscriptionResponse (Items page)) (encodeCursor (NextCursor page)))) w, st)))"

definition handleGetSubscription :: "Options \<Rightarrow> henv \<Rightarrow> api_handler" where
  "handleGetSubscription opt e r s =
     (case s of (w, st) \<Rightarrow>
      case StateGetByID (o_pg opt) (sub_cfg opt) (he_get e) (w_db st) (pathID r) (w_sub st) of
        (Inl err, s1) \<Rightarrow> (False, writeDomainError err w, st\<lparr>w_sub := s1\<rparr>)
      | (Inr sub, s1) \<Rightarrow> (False, writeJSON 200 (JSON (VSub (toSubscriptionResponse sub))) w, st\<lparr>w_sub := s1\<rparr>))"

definition apply_update :: "updateSubscriptionRequest \<Rightarrow> Subscription \<Rightarrow> Subscription" where
  "apply_update req sub =
     (let sub = (case ur_TargetURL req of None \<Rightarrow> sub | Some u \<Rightarrow> sub\<lparr>S_TargetURL := u\<rparr>);
          sub = (case ur_EventTypes req of None \<Rightarrow> sub | Some ts \<Rightarrow> sub\<lparr>S_EventTypes := ts\<rparr>)
      in (case ur_IsActive req of None \<Rightarrow> sub | Some b \<Rightarrow> sub\<lparr>S_IsActive := b\<rparr>))"

text \<open>Between the read and the write other requests and workers run.\<close>

definition handleUpdateSubscription :: "Options \<Rightarrow> henv \<Rightarrow> api_handler" where
  "handleUpdateSubscription opt e r s =
     (case s of (w0, st) \<Rightarrow>
      case readJSON (o_decode_update opt) r w0 of
        (None, w) \<Rightarrow> (False, w, st)
      | (Some req, w) \<Rightarrow>
         (case StateGetByID (o_pg opt) (sub_cfg opt) (he_get e) (w_db st) (pathID r) (w_sub st) of
            (Inl err, s1) \<Rightarrow> (False, writeDomainError err w, st\<lparr>w_sub := s1\<rparr>)
          | (Inr sub, s1) \<Rightarrow>
             (let st = st\<lparr>w_sub := s1\<rparr> in
              case (case ur_TargetURL req of None \<Rightarrow> Inr () | Some u \<Rightarrow> ValidateTargetURL (o_url_parse opt) u (AllowHTTPURLs opt)) of
                Inl err \<Rightarrow> (False, writeDomainError err w, st)
              | Inr _ \<Rightarrow>
                 (let st = he_between e st in
                  case StateUpdate (o_pg opt) (sub_cfg opt) (he_write e) (w_db st) (apply_update req sub) (w_sub st) of
                    (Inl err, d, s2) \<Rightarrow> (False, writeDomainError err w, st\<lparr>w_db := d, w_sub := s2\<rparr>)
                  | (Inr sub', d, s2) \<Rightarrow>
                      (False, writeJSON 200 (JSON (VSub (toSubscriptionResponse sub'))) w, st\<lparr>w_db := d, w_sub := s2\<rparr>)))))"

definition handleRotateSecret :: "Options \<Rightarrow> henv \<Rightarrow> api_handler" where
  "handleRotateSecret opt e r s =
     (case s of (w, st) \<Rightarrow>
      case he_rand e of None \<Rightarrow> (False, writeDomainError (ErrOther ''idgen: read random'') w, st)
      | Some bs \<Rightarrow>
         (let newSecret = NewSecretKey bs in
          case StateRotateSecret (o_pg opt) (sub_cfg opt) (he_write e) (w_db st) (pathID r) newSecret (w_sub st) of
            (Inl err, d, s1) \<Rightarrow> (False, writeDomainError err w, st\<lparr>w_db := d, w_sub := s1\<rparr>)
          | (Inr sub, d, s1) \<Rightarrow>
              (False, writeJSON 200 (JSON (VSubSecret (toSubscriptionResponse sub) newSecret)) w, st\<lparr>w_db := d, w_sub := s1\<rparr>)))"

definition handleDeleteSubscription :: "Options \<Rightarrow> henv \<Rightarrow> api_handler" where
  "handleDeleteSubscription opt e r s =
     (case s of (w, st) \<Rightarrow>
      case StateDelete (o_pg opt) (sub_cfg opt) (he_write e) (w_db st) (pathID r) (w_sub st) of
        (Inl err, d, s1) \<Rightarrow> (False, writeDomainError err w, st\<lparr>w_db := d, w_sub := s1\<rparr>)
      | (Inr _, d, s1) \<Rightarrow> (False, WriteHeader 204 w, st\<lparr>w_db := d, w_sub := s1\<rparr>))"

definition handleListAttempts :: "Options \<Rightarrow> henv \<Rightarrow> api_handler" where
  "handleListAttempts opt e r s =
     (case s of (w, st) \<Rightarrow>
      case StateGetByID (o_pg opt) (sub_cfg opt) (he_get e) (w_db st) (pathID r) (w_sub st) of
        (Inl err, s1) \<Rightarrow> (False, writeDomainError err w, st\<lparr>w_sub := s1\<rparr>)
      | (Inr _, s1) \<Rightarrow>
         (let st = st\<lparr>w_sub := s1\<rparr> in
          case ListBySubscription (o_pg opt) (he_lazy e) (he_call e) (w_db st) (pathID r) (parseLimit r 50 200) of
            Inl err \<Rightarrow> (False, writeDomainError err w, st)
          | Inr logs \<Rightarrow> (False, writeJSON 200 (JSON (VAttempts (map toAttemptResponse logs))) w, st)))"

section \<open>Dead letters\<close>

definition handleReplay :: "Options \<Rightarrow> henv \<Rightarrow> api_handler" where
  "handleReplay opt e r s =
     (case s of (w, st) \<Rightarrow>
      let webhookID = PathValue r ''webhook_id'' in
      case ReplayDLQ (o_pg opt) (he_call e) (w_db st) (pathID r) webhookID of
        (Inl err, d) \<Rightarrow> (False, writeDomainError err w, st\<lparr>w_db := d\<rparr>)
      | (Inr (claimedID, newID, ok), d) \<Rightarrow>
         (let st = st\<lparr>w_db := d\<rparr> in
          if \<not> ok then (False, writeError 404 ''no DLQ entry for that subscription and webhook'' w, st)
          else let red1 = snd (Enqueue (he_enqueue e) newID (w_redis st)); red2 = snd (RemoveDLQ (he_remove e) claimedID red1) in
            (False, writeJSON 202 (JSON (VFields [(''webhook_id'', webhookID), (''delivery_id'', newID), (''status'', ''replaying'')])) w,
             st\<lparr>w_redis := red2\<rparr>)))"

definition handleAckDLQ :: "Options \<Rightarrow> henv \<Rightarrow> api_handler" where
  "handleAckDLQ opt e r s =
     (case s of (w, st) \<Rightarrow>
      let webhookID = PathValue r ''webhook_id'' in
      case AckDLQ (o_pg opt) (he_call e) (w_db st) (pathID r) webhookID of
        (Inl err, d) \<Rightarrow> (False, writeDomainError err w, st\<lparr>w_db := d\<rparr>)
      | (Inr (claimedID, ok), d) \<Rightarrow>
         (let st = st\<lparr>w_db := d\<rparr> in
          if \<not> ok then (False, writeError 404 ''no DLQ entry for that subscription and webhook'' w, st)
          else (False, writeJSON 200 (JSON (VFields [(''webhook_id'', webhookID), (''status'', ''acknowledged'')])) w,
                st\<lparr>w_redis := snd (RemoveDLQ (he_remove e) claimedID (w_redis st))\<rparr>)))"

section \<open>Status and metrics\<close>

text \<open>The counting loop of \<^verbatim>\<open>handleWebhookStatus\<close>.\<close>

fun count_log :: "DeliveryLog \<Rightarrow> statistics \<Rightarrow> statistics" where
  "count_log l s = (case D_Status l of
     StatusSuccess \<Rightarrow> s\<lparr>st_Successful := st_Successful s + 1\<rparr>
   | StatusFailedAttempt \<Rightarrow> s\<lparr>st_Failed := st_Failed s + 1\<rparr>
   | StatusPending \<Rightarrow> s\<lparr>st_Pending := st_Pending s + 1\<rparr>
   | StatusFinalFailure \<Rightarrow> s\<lparr>st_FinalFailure := st_FinalFailure s + 1\<rparr>)"

definition statusOf :: "DeliveryLog list \<Rightarrow> statusResponse" where
  "statusOf logs =
     (let current = last logs in
      \<lparr>wr_WebhookID = D_WebhookID current, wr_SubscriptionID = D_SubscriptionID current, wr_EventType = D_EventType current,
       wr_Status = status_string (D_Status current), wr_TargetURL = D_TargetURL current, wr_Payload = D_Payload current,
       wr_CreatedAt = D_CreatedAt current, wr_UpdatedAt = D_UpdatedAt current, wr_LastAttemptAt = D_UpdatedAt current,
       wr_NextRetryAt = D_NextRetryAt current, wr_Attempts = map toAttemptView logs,
       wr_Statistics = fold count_log logs \<lparr>st_TotalAttempts = length logs, st_Successful = 0, st_Failed = 0, st_Pending = 0, st_FinalFailure = 0\<rparr>\<rparr>)"

definition handleWebhookStatus :: "Options \<Rightarrow> henv \<Rightarrow> api_handler" where
  "handleWebhookStatus opt e r s =
     (case s of (w, st) \<Rightarrow>
      case ListByWebhookID (o_pg opt) (he_lazy e) (he_call e) (w_db st) (PathValue r ''webhook_id'') of
        Inl err \<Rightarrow> (False, writeDomainError err w, st)
      | Inr logs \<Rightarrow>
         (if logs = [] then (False, writeError 404 ''webhook not found'' w, st)
          else (False, writeJSON 200 (JSON (VStatus (statusOf logs))) w, st)))"

definition all_statuses :: "DeliveryStatus list" where
  "all_statuses = [StatusPending, StatusSuccess, StatusFailedAttempt, StatusFinalFailure]"

definition count_of :: "(DeliveryStatus \<rightharpoonup> nat) \<Rightarrow> DeliveryStatus \<Rightarrow> nat" where
  "count_of cnt st = (case cnt st of None \<Rightarrow> 0 | Some n \<Rightarrow> n)"

text \<open>The sum over a map does not depend on the iteration order.\<close>

definition total_count :: "(DeliveryStatus \<rightharpoonup> nat) \<Rightarrow> nat" where
  "total_count cnt = sum_list (map (count_of cnt) all_statuses)"

definition handleMetricsSummary :: "Options \<Rightarrow> henv \<Rightarrow> api_handler" where
  "handleMetricsSummary opt e r s =
     (case s of (w, st) \<Rightarrow>
      let hours = parseHours r 24; since = he_now e - hours * hour in
      case CountByStatusSince (he_call e) (w_db st) since of
        Inl err \<Rightarrow> (False, writeDomainError err w, st)
      | Inr cnt \<Rightarrow>
         (let total = total_count cnt; successful = count_of cnt StatusSuccess;
              rate = (if total > 0 then fl (fl (of_nat successful) / fl (of_nat total)) else 0) in
          (False, writeJSON 200 (JSON (VMetrics \<lparr>ms_WindowHours = hours, ms_TotalAttempts = total, ms_Successful = successful,
             ms_Failed = count_of cnt StatusFailedAttempt, ms_Pending = count_of cnt StatusPending,
             ms_FinalFailure = count_of cnt StatusFinalFailure, ms_SuccessRate = rate\<rparr>)) w, st)))"

text \<open>\<^verbatim>\<open>time.Time{}\<close> is before every row; the map of counts is listed by status. The current time of the
  response is left out.\<close>

definition zero_time :: time where "zero_time = - 62135596800 * second"

definition handleMonitor :: "Options \<Rightarrow> henv \<Rightarrow> api_handler" where
  "handleMonitor opt e r s =
     (case s of (w, st) \<Rightarrow>
      let dm = (case CountByStatusSince (he_call e) (w_db st) zero_time of Inl _ \<Rightarrow> []
                | Inr cnt \<Rightarrow> map (\<lambda>x. (status_string x, count_of cnt x)) all_statuses @ [(''total'', total_count cnt)]);
          qd = (case DepthQueue (he_depth e) (w_redis st) of Inl _ \<Rightarrow> 0 | Inr n \<Rightarrow> n);
          dd = (case DepthDLQ (he_dlq_depth e) (w_redis st) of Inl _ \<Rightarrow> 0 | Inr n \<Rightarrow> n);
          cbs = map (\<lambda>(url, p). (url, StateCB (w_cbs st ! p))) (RegSnapshot (w_breakers st))
      in (False, writeJSON 200 (JSON (VMonitor \<lparr>mr_UptimeSeconds = trunc (Seconds (Uptime (he_monitor_now e) (w_metrics st))), mr_DeliveryMetrics = dm, mr_QueueDepth = qd,
            mr_DeadLetterQueueDep = dd, mr_CircuitBreakers = cbs, mr_DeliveryLatencyMs = Latency (w_metrics st)\<rparr>)) w, st))"

section \<open>Probes and documentation\<close>

definition probe :: "string option \<Rightarrow> string" where
  "probe err = (case err of None \<Rightarrow> ''ok'' | Some e \<Rightarrow> e)"

definition probe_checks :: "henv \<Rightarrow> (string \<times> string) list" where
  "probe_checks e = [(''database'', probe (he_ping_db e)), (''redis'', probe (he_ping_redis e))]"

definition handleHealth :: "henv \<Rightarrow> api_handler" where
  "handleHealth e r s =
     (case s of (w, st) \<Rightarrow> let cs = probe_checks e in
      if \<exists>v \<in> set cs. snd v \<noteq> ''ok'' then (False, writeJSON 503 (JSON (VHealth ''degraded'' cs)) w, st)
      else (False, writeJSON 200 (JSON (VHealth ''ok'' cs)) w, st))"

definition handleReady :: "henv \<Rightarrow> api_handler" where
  "handleReady e r s =
     (case s of (w, st) \<Rightarrow> let cs = probe_checks e @ [(''worker'', if he_pool_running e then ''ok'' else ''not_running'')] in
      if \<exists>v \<in> set cs. snd v \<noteq> ''ok'' then (False, writeJSON 503 (JSON (VHealth ''not_ready'' cs)) w, st)
      else (False, writeJSON 200 (JSON (VHealth ''ready'' cs)) w, st))"

definition handleOpenAPISpec :: "Options \<Rightarrow> api_handler" where
  "handleOpenAPISpec opt r s =
     (False, Write (Raw (o_openapi opt)) (WriteHeader 200 (set_header ''Content-Type'' ''application/json; charset=utf-8'' (fst s))), snd s)"

definition handleDocs :: "Options \<Rightarrow> api_handler" where
  "handleDocs opt r s =
     (False, Write (Raw (o_docs opt)) (WriteHeader 200 (set_header ''Content-Type'' ''text/html; charset=utf-8'' (fst s))), snd s)"

end
