(* ===== verification/Api_Server.thy ===== *)
theory Api_Server
  imports Api
begin

text \<open>
  \<^verbatim>\<open>internal/api/server.go\<close>: the route table, the \<^verbatim>\<open>ServeMux\<close> decision on it, and the root handler with
  the global middleware. A request path is the list of its segments (a trailing slash is a last empty
  segment); paths the mux would first redirect to their cleaned form are not represented. The theorems
  are about the whole stack: every request is answered once, and only authenticated requests change
  anything.
\<close>

section \<open>Routes\<close>

datatype seg = Lit string | Var string | Subtree

datatype endpoint = Health | Ready | OpenAPISpec | Docs | CreateSubscription | ListSubscriptions | GetSubscription
  | UpdateSubscription | DeleteSubscription | ListAttempts | RotateSecret | Replay | AckDLQEntry | Ingest | MetricsSummary
  | WebhookStatus | Monitor | DebugVars | Pprof

record route =
  rt_method :: "string option"
  rt_path :: "seg list"
  rt_admin :: bool
  rt_endpoint :: endpoint

abbreviation api :: "seg list \<Rightarrow> seg list" where "api ps \<equiv> Lit ''api'' # Lit ''v1'' # ps"

definition public_route :: "string \<Rightarrow> seg list \<Rightarrow> endpoint \<Rightarrow> route" where
  "public_route m ps ep = \<lparr>rt_method = Some m, rt_path = api ps, rt_admin = False, rt_endpoint = ep\<rparr>"

definition admin_route :: "string \<Rightarrow> seg list \<Rightarrow> endpoint \<Rightarrow> route" where
  "admin_route m ps ep = \<lparr>rt_method = Some m, rt_path = api ps, rt_admin = True, rt_endpoint = ep\<rparr>"

definition routes :: "Options \<Rightarrow> route list" where
  "routes opt =
    [public_route ''GET'' [Lit ''health''] Health,
     public_route ''GET'' [Lit ''ready''] Ready,
     public_route ''GET'' [Lit ''openapi.json''] OpenAPISpec,
     public_route ''GET'' [Lit ''docs''] Docs,
     admin_route ''POST'' [Lit ''subscriptions''] CreateSubscription,
     admin_route ''GET'' [Lit ''subscriptions''] ListSubscriptions,
     admin_route ''GET'' [Lit ''subscriptions'', Var ''id''] GetSubscription,
     admin_route ''PUT'' [Lit ''subscriptions'', Var ''id''] UpdateSubscription,
     admin_route ''DELETE'' [Lit ''subscriptions'', Var ''id''] DeleteSubscription,
     admin_route ''GET'' [Lit ''subscriptions'', Var ''id'', Lit ''attempts''] ListAttempts,
     admin_route ''POST'' [Lit ''subscriptions'', Var ''id'', Lit ''rotate-secret''] RotateSecret,
     admin_route ''POST'' [Lit ''subscriptions'', Var ''id'', Lit ''replay'', Var ''webhook_id''] Replay,
     admin_route ''POST'' [Lit ''subscriptions'', Var ''id'', Lit ''dlq'', Var ''webhook_id'', Lit ''ack''] AckDLQEntry,
     public_route ''POST'' [Lit ''ingest'', Var ''id''] Ingest,
     admin_route ''GET'' [Lit ''status'', Lit ''metrics'', Lit ''summary''] MetricsSummary,
     admin_route ''GET'' [Lit ''status'', Var ''webhook_id''] WebhookStatus,
     admin_route ''GET'' [Lit ''monitor''] Monitor,
     admin_route ''GET'' [Lit ''debug'', Lit ''vars''] DebugVars] @
    (if EnablePprof opt then
       [\<lparr>rt_method = None, rt_path = api [Lit ''debug'', Lit ''pprof'', Subtree], rt_admin = True, rt_endpoint = Pprof\<rparr>] else [])"

text \<open>\<^verbatim>\<open>ServeMux\<close> matching: a wildcard takes one non-empty segment, a subtree the rest; GET also takes HEAD.\<close>

fun match_path :: "seg list \<Rightarrow> string list \<Rightarrow> (string \<times> string) list option" where
  "match_path [] [] = Some []"
| "match_path (Lit l # ps) (x # xs) = (if l = x then match_path ps xs else None)"
| "match_path (Var v # ps) (x # xs) = (if x = [] then None else map_option (\<lambda>vs. (v, x) # vs) (match_path ps xs))"
| "match_path [Subtree] (x # xs) = Some []"
| "match_path _ _ = None"

definition match_method :: "string option \<Rightarrow> string \<Rightarrow> bool" where
  "match_method pm m = (case pm of None \<Rightarrow> True | Some p \<Rightarrow> p = m \<or> p = ''GET'' \<and> m = ''HEAD'')"

definition matches :: "string \<Rightarrow> string list \<Rightarrow> route \<Rightarrow> bool" where
  "matches m segs rt \<longleftrightarrow> match_method (rt_method rt) m \<and> match_path (rt_path rt) segs \<noteq> None"

definition find_route :: "Options \<Rightarrow> hreq \<Rightarrow> route option" where
  "find_route opt r = find (matches (r_method r) (r_segs r)) (routes opt)"

section \<open>Dispatch\<close>

text \<open>Handlers of the standard library (\<^verbatim>\<open>expvar\<close>, \<^verbatim>\<open>net/http/pprof\<close>) only write their report.\<close>

definition external_handler :: "Options \<Rightarrow> api_handler" where
  "external_handler opt r s = (False, Write (Raw (o_external opt r)) (fst s), snd s)"

definition serve :: "Options \<Rightarrow> henv \<Rightarrow> endpoint \<Rightarrow> api_handler" where
  "serve opt e ep = (case ep of
     Health \<Rightarrow> handleHealth e | Ready \<Rightarrow> handleReady e | OpenAPISpec \<Rightarrow> handleOpenAPISpec opt | Docs \<Rightarrow> handleDocs opt
   | CreateSubscription \<Rightarrow> handleCreateSubscription opt e | ListSubscriptions \<Rightarrow> handleListSubscriptions opt e
   | GetSubscription \<Rightarrow> handleGetSubscription opt e | UpdateSubscription \<Rightarrow> handleUpdateSubscription opt e
   | DeleteSubscription \<Rightarrow> handleDeleteSubscription opt e | ListAttempts \<Rightarrow> handleListAttempts opt e
   | RotateSecret \<Rightarrow> handleRotateSecret opt e | Replay \<Rightarrow> handleReplay opt e | AckDLQEntry \<Rightarrow> handleAckDLQ opt e
   | Ingest \<Rightarrow> handleIngest opt e | MetricsSummary \<Rightarrow> handleMetricsSummary opt e | WebhookStatus \<Rightarrow> handleWebhookStatus opt e
   | Monitor \<Rightarrow> handleMonitor opt e | DebugVars \<Rightarrow> external_handler opt | Pprof \<Rightarrow> external_handler opt)"

definition admin :: "Options \<Rightarrow> api_handler \<Rightarrow> api_handler" where
  "admin opt h = adminAuthMiddleware (o_sha256 opt) (AdminAPIKey opt) h"

text \<open>\<^verbatim>\<open>http.Error\<close> and the redirect of a subtree root without its slash.\<close>

definition http_error :: "int \<Rightarrow> string \<Rightarrow> 'v rw \<Rightarrow> 'v rw" where
  "http_error code msg w =
     Write (Raw msg) (WriteHeader code (set_header ''X-Content-Type-Options'' ''nosniff'' (set_header ''Content-Type'' ''text/plain; charset=utf-8'' w)))"

definition no_route :: "Options \<Rightarrow> api_handler" where
  "no_route opt r s =
     (case s of (w, st) \<Rightarrow>
      if \<exists>rt \<in> set (routes opt). matches (r_method r) (r_segs r @ [[]]) rt \<and> last (rt_path rt) = Subtree
      then (False, Write (Raw []) (WriteHeader 301 (set_header ''Location'' (concat (map (\<lambda>x. ''/'' @ x) (r_segs r)) @ ''/'') w)), st)
      else if \<exists>rt \<in> set (routes opt). match_path (rt_path rt) (r_segs r) \<noteq> None
      then (False, http_error 405 ''Method Not Allowed'' w, st)
      else (False, http_error 404 ''404 page not found'' w, st))"

definition mux :: "Options \<Rightarrow> henv \<Rightarrow> api_handler" where
  "mux opt e r s =
     (case find_route opt r of
        None \<Rightarrow> no_route opt r s
      | Some rt \<Rightarrow>
         (let r' = r\<lparr>r_values := the (match_path (rt_path rt) (r_segs r))\<rparr>; h = serve opt e (rt_endpoint rt) in
          if rt_admin rt then admin opt h r' s else h r' s))"

definition defaultMaxBodyBytes :: nat where "defaultMaxBodyBytes = 1024 * 1024"

definition Handler :: "Options \<Rightarrow> henv \<Rightarrow> api_handler" where
  "Handler opt e = chain (mux opt e)
     [requestIDMiddleware (he_reqid_rand e), loggingMiddleware, recoveryMiddleware, corsMiddleware (CORSAllowedOrigins opt),
      maxBytesMiddleware defaultMaxBodyBytes]"

section \<open>Every request is answered once\<close>

lemma resp_simple:
  "responder (handleHealth e)" "responder (handleReady e)" "responder (handleOpenAPISpec opt)" "responder (handleDocs opt)"
  "responder (external_handler opt)" "responder (handleMonitor opt e)"
  by (unfold_locales, auto simp: handleHealth_def handleReady_def handleOpenAPISpec_def handleDocs_def external_handler_def handleMonitor_def Let_def
      split: if_splits intro!: answer_intros intro: answered_Write_fresh)+

lemma resp_status: "responder (handleMetricsSummary opt e)" "responder (handleWebhookStatus opt e)"
  by (unfold_locales, auto simp: handleMetricsSummary_def handleWebhookStatus_def Let_def
      split: if_splits sum.splits intro!: answer_intros)+

lemma resp_dlq: "responder (handleReplay opt e)" "responder (handleAckDLQ opt e)"
  by (unfold_locales, auto simp: handleReplay_def handleAckDLQ_def Let_def
      split: if_splits sum.splits prod.splits intro!: answer_intros)+

lemma resp_subs:
  "responder (handleListSubscriptions opt e)" "responder (handleGetSubscription opt e)" "responder (handleRotateSecret opt e)"
  "responder (handleDeleteSubscription opt e)" "responder (handleListAttempts opt e)"
  by (unfold_locales, auto simp: handleListSubscriptions_def handleGetSubscription_def handleRotateSecret_def handleDeleteSubscription_def
      handleListAttempts_def Let_def split: sum.splits prod.splits option.splits intro!: answer_intros)+

lemma resp_create: "responder (handleCreateSubscription opt e)"
proof
  fix i w r st p w' st'
  assume f: "fresh i w" and h: "handleCreateSubscription opt e r (w, st) = (p, w', st')"
  obtain res w1 where j: "readJSON (o_decode_create opt) r w = (res, w1)" by fastforce
  show "if p then fresh i w' else answered i w'"
    using h j readJSON_answers [OF j f] f
    by (auto simp: handleCreateSubscription_def Let_def split: sum.splits prod.splits option.splits intro!: answer_intros)
qed

lemma resp_update: "responder (handleUpdateSubscription opt e)"
proof
  fix i w r st p w' st'
  assume f: "fresh i w" and h: "handleUpdateSubscription opt e r (w, st) = (p, w', st')"
  obtain res w1 where j: "readJSON (o_decode_update opt) r w = (res, w1)" by fastforce
  show "if p then fresh i w' else answered i w'"
    using h j readJSON_answers [OF j f] f
    by (auto simp: handleUpdateSubscription_def Let_def split: sum.splits prod.splits option.splits intro!: answer_intros)
qed

lemma ingest_event_answers:
  "fresh i w \<Longrightarrow> ingest_event opt e sub key wid body et w st = (p, w', st') \<Longrightarrow> \<not> p \<and> answered i w'"
  by (auto simp: ingest_event_def Let_def split: sum.splits prod.splits if_splits intro!: answer_intros)

lemma ingest_admitted_answers:
  "fresh i w \<Longrightarrow> ingest_admitted opt e r sub key body w st = (p, w', st') \<Longrightarrow> \<not> p \<and> answered i w'"
  by (auto simp: ingest_admitted_def Let_def split: sum.splits prod.splits if_splits option.splits
      dest: ingest_event_answers intro!: answer_intros)

lemma resp_ingest: "responder (handleIngest opt e)"
proof
  fix i w r st p w' st'
  assume f: "fresh i w" and h: "handleIngest opt e r (w, st) = (p, w', st')"
  show "if p then fresh i w' else answered i w'"
    using h f
    by (auto simp: handleIngest_def Let_def split: sum.splits prod.splits if_splits option.splits read_end.splits
        dest: ingest_admitted_answers intro!: answer_intros)
qed

lemmas resp_all = resp_simple resp_status resp_dlq resp_subs resp_create resp_update resp_ingest

lemma resp_serve: "responder (serve opt e ep)"
  by (cases ep) (simp_all add: serve_def resp_all)

lemma resp_no_route: "responder (no_route opt)"
  by unfold_locales (auto simp: no_route_def http_error_def split: if_splits intro!: answer_intros)

lemma resp_mux: "responder (mux opt e)"
proof
  fix i w r st p w' st'
  assume f: "fresh i w" and h: "mux opt e r (w, st) = (p, w', st')"
  show "if p then fresh i w' else answered i w'"
  proof (cases "find_route opt r")
    case None
    then have "no_route opt r (w, st) = (p, w', st')" using h by (simp add: mux_def)
    from responder.responds [OF resp_no_route f this] show ?thesis .
  next
    case (Some rt)
    define r' where "r' = r\<lparr>r_values := the (match_path (rt_path rt) (r_segs r))\<rparr>"
    have m: "(if rt_admin rt then admin opt (serve opt e (rt_endpoint rt)) r' (w, st) else serve opt e (rt_endpoint rt) r' (w, st)) = (p, w', st')"
      using h Some by (cases "rt_admin rt") (simp_all add: mux_def Let_def r'_def)
    then show ?thesis
      using responder.adminAuth_responds [OF resp_serve f] responder.responds [OF resp_serve f]
      unfolding admin_def by (cases "rt_admin rt") auto
  qed
qed

interpretation mux: responder "mux opt e" for opt e
  by (rule resp_mux)

text \<open>C24. Every request is answered exactly once and logged as answered: for any request and any state behind it
  (given a source of request ids), the server does not crash even if a handler panics, sends one status line
  that carries the request id the client gave or a fresh UUID, and logs the status that was sent.\<close>

theorem handler_answers_once:
  assumes "HeaderGet r ''X-Request-Id'' \<noteq> [] \<or> he_reqid_rand e = Some bs" and "Handler opt e r (new_rw, st) = (p, w, st')"
  shows "\<not> p \<and> (\<exists>code hdr. rw_sent w = Some (code, hdr) \<and> rw_logged w = [code]
    \<and> get_first hdr ''X-Request-Id'' = (if HeaderGet r ''X-Request-Id'' \<noteq> [] then HeaderGet r ''X-Request-Id'' else NewUUIDv4 bs))"
proof -
  define i where "i = (if HeaderGet r ''X-Request-Id'' \<noteq> [] then HeaderGet r ''X-Request-Id'' else NewUUIDv4 bs)"
  define inner where "inner = corsMiddleware (CORSAllowedOrigins opt) (maxBytesMiddleware defaultMaxBodyBytes (mux opt e))"
  define w0 :: "api_view rw" where "w0 = (set_header ''X-Request-Id'' i new_rw)\<lparr>rw_rec := Some (200, False)\<rparr>"
  have resp: "responder inner"
    unfolding inner_def by (rule responder.cors_responder [OF mux.maxBytes_responder])
  have f: "fresh i w0" by (simp add: w0_def fresh_def set_header_def new_rw_def get_first_def)
  obtain q w1 st1 where rec: "recoveryMiddleware inner r (w0, st) = (q, w1, st1)" using prod_cases3 by blast
  note a = responder.recovery_answers [OF resp f rec]
  have "loggingMiddleware (recoveryMiddleware inner) r (set_header ''X-Request-Id'' i new_rw, st) = (p, w, st')"
    using assms unfolding Handler_def chain_def inner_def i_def
    by (auto simp: requestIDMiddleware_def MustUUIDv4_def Let_def split: if_splits)
  then have "(p, w, st') = (False, w1\<lparr>rw_rec := None, rw_logged := rw_logged w1 @ (case rw_rec w1 of None \<Rightarrow> [] | Some (s, _) \<Rightarrow> [s])\<rparr>, st1)"
    using rec a unfolding loggingMiddleware_def w0_def by (simp add: set_header_def new_rw_def)
  then show ?thesis using a unfolding i_def [symmetric] answered_def by auto
qed

section \<open>Who may change what\<close>

definition authorized :: "Options \<Rightarrow> hreq \<Rightarrow> bool" where
  "authorized opt r \<longleftrightarrow> AdminAPIKey opt \<noteq> [] \<and> HasPrefix (HeaderGet r ''Authorization'') ''Bearer ''
     \<and> o_sha256 opt (TrimPrefix (HeaderGet r ''Authorization'') ''Bearer '') = o_sha256 opt (AdminAPIKey opt)"

definition identified :: "henv \<Rightarrow> hreq \<Rightarrow> bool" where
  "identified e r \<longleftrightarrow> HeaderGet r ''X-Request-Id'' \<noteq> [] \<or> he_reqid_rand e \<noteq> None"

abbreviation limited :: "hreq \<Rightarrow> hreq" where
  "limited r \<equiv> r\<lparr>r_body := MaxBytesReader defaultMaxBodyBytes (r_body r)\<rparr>"

lemma find_route_limited [simp]: "find_route opt (limited r) = find_route opt r"
  by (simp add: find_route_def)

text \<open>What the middleware adds around the mux.\<close>

lemma Handler_mux:
  assumes "identified e r" and "r_method r \<noteq> ''OPTIONS''" and "Handler opt e r (new_rw, st) = (p, w, st')"
  obtains i w1 q w2 where "fresh i w1" "mux opt e (limited r) (w1, st) = (q, w2, st')"
    "rw_sent w = rw_sent (if q then writeError 500 ''internal server error'' w2 else w2)"
proof -
  obtain i where i: "loggingMiddleware (recoveryMiddleware (corsMiddleware (CORSAllowedOrigins opt) (maxBytesMiddleware defaultMaxBodyBytes (mux opt e))))
      r (set_header ''X-Request-Id'' i new_rw, st) = (p, w, st')"
    using assms(1,3) unfolding Handler_def chain_def identified_def
    by (auto simp: requestIDMiddleware_def MustUUIDv4_def Let_def split: if_splits)
  define w0 :: "api_view rw" where "w0 = (set_header ''X-Request-Id'' i new_rw)\<lparr>rw_rec := Some (200, False)\<rparr>"
  have f: "fresh i w0" by (simp add: w0_def fresh_def set_header_def new_rw_def get_first_def)
  define w1 where "w1 = (let x = HeaderGet r ''Origin'' in if x \<noteq> [] \<and> x \<in> set (CORSAllowedOrigins opt) then cors_headers x w0 else w0)"
  have "fresh i (cors_headers x w0)" for x
    unfolding cors_headers_def by (intro fresh_set_header fresh_add_header f) simp_all
  then have w1: "fresh i w1" "corsMiddleware (CORSAllowedOrigins opt) (maxBytesMiddleware defaultMaxBodyBytes (mux opt e)) r (w0, st)
      = mux opt e (limited r) (w1, st)"
    using f assms(2) unfolding corsMiddleware_def maxBytesMiddleware_def w1_def Let_def by simp_all
  obtain q w2 st2 where m: "mux opt e (limited r) (w1, st) = (q, w2, st2)" using prod_cases3 by blast
  have "st' = st2 \<and> rw_sent w = rw_sent (if q then writeError 500 ''internal server error'' w2 else w2)"
    using i w1(2) m unfolding loggingMiddleware_def recoveryMiddleware_def w0_def [symmetric] fst_conv snd_conv
    by (cases q) auto
  with that [OF w1(1)] m show thesis by blast
qed

lemma public_routes:
  "rt \<in> set (routes opt) \<Longrightarrow> \<not> rt_admin rt \<Longrightarrow> rt_endpoint rt \<in> {Health, Ready, OpenAPISpec, Docs, Ingest}"
  by (auto simp: routes_def public_route_def admin_route_def split: if_splits)

lemma find_routeD: "find_route opt r = Some rt \<Longrightarrow> rt \<in> set (routes opt) \<and> matches (r_method r) (r_segs r) rt"
  by (auto simp: find_route_def find_Some_iff)

lemma public_handlers_read_only:
  assumes "ep \<in> {Health, Ready, OpenAPISpec, Docs}"
  shows "snd (snd (serve opt e ep r s)) = snd s"
  using assms by (auto simp: serve_def handleHealth_def handleReady_def handleOpenAPISpec_def handleDocs_def Let_def split: prod.splits)

lemma mux_unauthorized:
  assumes "\<not> authorized opt r" and "mux opt e r (w, st) = (p, w', st')" and "fresh i w"
  shows "(st' \<noteq> st \<longrightarrow> (\<exists>rt. find_route opt r = Some rt \<and> rt_endpoint rt = Ingest))
    \<and> (\<forall>rt. find_route opt r = Some rt \<and> rt_admin rt \<longrightarrow> \<not> p \<and> st' = st \<and> (\<exists>hdr. rw_sent w' = Some (if AdminAPIKey opt = [] then 503 else 401, hdr)))"
proof (cases "find_route opt r")
  case None
  then show ?thesis using assms(2) by (auto simp: mux_def no_route_def split: if_splits)
next
  case (Some rt)
  define r' where "r' = r\<lparr>r_values := the (match_path (rt_path rt) (r_segs r))\<rparr>"
  have m: "(if rt_admin rt then admin opt (serve opt e (rt_endpoint rt)) r' (w, st) else serve opt e (rt_endpoint rt) r' (w, st)) = (p, w', st')"
    using assms(2) Some by (cases "rt_admin rt") (simp_all add: mux_def Let_def r'_def)
  show ?thesis
  proof (cases "rt_admin rt")
    case True
    have sent: "\<exists>hdr. rw_sent (writeError c m v) = Some (c, hdr)" if "fresh i v" for c m and v :: "api_view rw"
      using that by (auto simp: fresh_def writeError_def writeJSON_def set_header_def WriteHeader_def base_WriteHeader_def Write_def base_Write_def Let_def)
    have "\<not> p \<and> st' = st \<and> (\<exists>hdr. rw_sent w' = Some (if AdminAPIKey opt = [] then 503 else 401, hdr))"
      using m True assms(1) sent [OF assms(3)] sent [OF fresh_set_header [OF assms(3)], of "''WWW-Authenticate''"]
      by (auto simp: admin_def adminAuthMiddleware_def authorized_def secureCompare_def r'_def Let_def split: if_splits)
    then show ?thesis using Some by simp
  next
    case False
    have "rt_endpoint rt \<in> {Health, Ready, OpenAPISpec, Docs, Ingest}" using public_routes find_routeD [OF Some] False by blast
    moreover have "st' = st" if "rt_endpoint rt \<noteq> Ingest"
      using public_handlers_read_only [of "rt_endpoint rt" opt e r' "(w, st)"] m False that calculation by auto
    ultimately show ?thesis using Some False by auto
  qed
qed

text \<open>C11. Management fails closed: whatever the request, without the bearer token that hashes to the
  configured key no endpoint but ingestion changes anything in the service, a preflight request changes
  nothing, and every management route answers 503 while no key is configured and 401 otherwise. The routes
  outside the management group are health, readiness, the two documentation pages and ingestion.\<close>

theorem management_fails_closed:
  assumes "\<not> authorized opt r" and "identified e r" and "Handler opt e r (new_rw, st) = (p, w, st')"
  shows "(st' \<noteq> st \<longrightarrow> r_method r \<noteq> ''OPTIONS'' \<and> (\<exists>rt. find_route opt r = Some rt \<and> rt_endpoint rt = Ingest))
    \<and> (\<forall>rt. find_route opt r = Some rt \<and> r_method r \<noteq> ''OPTIONS'' \<longrightarrow>
        (if rt_admin rt then st' = st \<and> (\<exists>hdr. rw_sent w = Some (if AdminAPIKey opt = [] then 503 else 401, hdr))
         else rt_endpoint rt \<in> {Health, Ready, OpenAPISpec, Docs, Ingest}))"
proof (cases "r_method r = ''OPTIONS''")
  case True
  then have "st' = st"
    using assms(2,3) unfolding Handler_def chain_def identified_def
    by (auto simp: requestIDMiddleware_def MustUUIDv4_def loggingMiddleware_def recoveryMiddleware_def corsMiddleware_def Let_def split: if_splits)
  then show ?thesis using True by simp
next
  case False
  obtain i w1 q w2 where m: "fresh i w1" "mux opt e (limited r) (w1, st) = (q, w2, st')"
    "rw_sent w = rw_sent (if q then writeError 500 ''internal server error'' w2 else w2)"
    using Handler_mux [OF assms(2) False assms(3)] by metis
  have "\<not> authorized opt (limited r)" using assms(1) by (simp add: authorized_def)
  from mux_unauthorized [OF this m(2) m(1)] m(3) False show ?thesis
    using public_routes [of _ opt] find_routeD [of opt r] by (auto split: if_splits)
qed

section \<open>A concrete server\<close>

definition demo_opts :: "string \<Rightarrow> Options" where
  "demo_opts key = \<lparr>o_pg = plain_pg, o_dcfg = demo_dcfg, o_http = demo_http 200, o_json_valid = (\<lambda>_. True), o_url_parse = (\<lambda>_. Inl ''no''),
     o_sha256 = (\<lambda>s. s), o_decode_create = (\<lambda>_. Malformed), o_decode_update = (\<lambda>_. Value \<lparr>ur_TargetURL = None, ur_EventTypes = Some [], ur_IsActive = None\<rparr> []),
     o_lenient_time = (\<lambda>_. None), o_external = (\<lambda>_. []), o_openapi = [], o_docs = [], SyncDelivery = False, EnablePprof = False,
     AdminAPIKey = key, AllowHTTPURLs = False, CORSAllowedOrigins = [], SignatureDriftWindow = 300 * second, SecretGraceWindow = 0\<rparr>"

definition demo_henv :: "time \<Rightarrow> string \<Rightarrow> henv" where
  "demo_henv t u = (let c = ok_call t u; s = \<lparr>e_call = c, e_now = t, e_get = Done, e_set = Done, e_del = Done\<rparr> in
     \<lparr>he_get = s, he_between = (\<lambda>st. st), he_write = s, he_call = c, he_reload = c, he_lazy = False, he_now = t, he_grace_now = t,
      he_allow_now = t, he_rand = Some (replicate 16 (CHR ''r'')), he_reqid_rand = Some (replicate 16 (CHR ''i'')), he_process = demo_penv,
      he_enqueue = Done, he_remove = Done, he_depth = Done, he_dlq_depth = Done, he_ping_db = None, he_ping_redis = None,
      he_pool_running = True, he_monitor_now = t\<rparr>)"

definition demo_request :: "string \<Rightarrow> string list \<Rightarrow> (string \<times> string) list \<Rightarrow> string \<Rightarrow> hreq" where
  "demo_request m segs hs b = \<lparr>r_method = m, r_segs = [''api'', ''v1''] @ segs, r_query = [], r_header = hs, r_body = Body b False None, r_values = []\<rparr>"

theorem handler_answers_once_witness:
  "\<exists>code hdr w st'. Handler (demo_opts []) (demo_henv 6 ''c'') (demo_request ''GET'' [''nowhere''] [(''X-Request-Id'', ''abc'')] []) (new_rw, demo_world) = (False, w, st')
    \<and> rw_sent w = Some (code, hdr) \<and> get_first hdr ''X-Request-Id'' = ''abc''"
proof -
  let ?r = "demo_request ''GET'' [''nowhere''] [(''X-Request-Id'', ''abc'')] []"
  have i: "HeaderGet ?r ''X-Request-Id'' = ''abc''" by (simp add: demo_request_def get_first_def)
  obtain p w st' where h: "Handler (demo_opts []) (demo_henv 6 ''c'') ?r (new_rw, demo_world) = (p, w, st')" using prod_cases3 by blast
  from handler_answers_once [OF _ this] i show ?thesis using h by auto
qed

theorem management_fails_closed_witness:
  "\<exists>p w hdr. Handler (demo_opts ''k'') (demo_henv 6 ''c'') (demo_request ''DELETE'' [''subscriptions'', ''s''] [(''Authorization'', ''Bearer x'')] []) (new_rw, demo_world)
      = (p, w, demo_world) \<and> rw_sent w = Some (401, hdr)"
proof -
  let ?o = "demo_opts ''k''" and ?e = "demo_henv 6 ''c''" and ?r = "demo_request ''DELETE'' [''subscriptions'', ''s''] [(''Authorization'', ''Bearer x'')] []"
  have a: "\<not> authorized ?o ?r" by (simp add: authorized_def demo_opts_def demo_request_def get_first_def HasPrefix_def TrimPrefix_def)
  have i: "identified ?e ?r" by (simp add: identified_def demo_henv_def Let_def)
  have f: "find_route ?o ?r = Some (admin_route ''DELETE'' [Lit ''subscriptions'', Var ''id''] DeleteSubscription)"
    by (simp add: find_route_def routes_def demo_opts_def demo_request_def matches_def match_method_def public_route_def admin_route_def)
  obtain p w st' where h: "Handler ?o ?e ?r (new_rw, demo_world) = (p, w, st')" using prod_cases3 by blast
  from management_fails_closed [OF a i h] f show ?thesis
    using h by (auto simp: admin_route_def demo_request_def demo_opts_def)
qed

end
