(* ===== verification/Api_Ingest.thy ===== *)
theory Api_Ingest
  imports Api_Server
begin

text \<open>
  Ingestion end to end: what \<open>handleIngest\<close> demands of a request before it touches anything, what an
  acceptance guarantees, the exact timestamp window, and two places where the window and the stores
  disagree.
\<close>

section \<open>The timestamp window\<close>

lemma fl_minus: "fl (- x) = - fl x"
  by (auto simp: fl_def)

lemma fl_abs: "\<bar>fl x\<bar> = fl \<bar>x\<bar>"
  using fl_nonneg [of x] fl_nonneg [of "- x"] by (cases "0 \<le> x") (simp_all add: fl_minus abs_if)

lemma fl_0 [simp]: "fl 0 = 0"
  by (simp add: fl_def)

lemma fl_lower: "0 < x \<Longrightarrow> x * (1 - 1 / 2 ^ 53) \<le> fl x"
proof -
  assume "0 < x"
  then have "x - fl x \<le> x / 2 ^ 53" using fl_pos_err [of x] abs_ge_minus_self [of "fl x - x"] by linarith
  then show ?thesis by (simp add: algebra_simps)
qed

lemma Seconds_whole:
  assumes "0 \<le> k" and "k < 2 ^ 53"
  shows "Seconds (k * second) = of_int k"
proof -
  have "k * second div second = k" by simp
  then show ?thesis using assms by (simp add: Seconds_def fl_int)
qed

lemma fl_big:
  assumes "y \<le> 2 ^ 51" and "2 ^ 53 \<le> (x::rat)"
  shows "y < fl x"
proof -
  have "(0::rat) < 2 ^ 53" by simp
  then have "0 < x" using assms(2) by (rule less_le_trans)
  then have "x * (1 - 1 / 2 ^ 53) \<le> fl x" by (rule fl_lower)
  moreover have "2 ^ 53 * (1 - 1 / 2 ^ 53) \<le> x * (1 - 1 / 2 ^ 53)" using assms(2) by (rule mult_right_mono) simp
  ultimately have "2 ^ 53 * (1 - 1 / 2 ^ 53) \<le> fl x" by (rule order_trans [rotated])
  moreover have "(2 ^ 51 :: rat) < 2 ^ 53 * (1 - 1 / 2 ^ 53)" by simp
  ultimately show ?thesis using assms(1) by (metis le_less_trans less_le_trans)
qed

lemma fl_gt_int:
  assumes "0 \<le> k" and "k \<le> 2 ^ 51"
  shows "\<bar>fl (of_int n)\<bar> > of_int k \<longleftrightarrow> \<bar>n\<bar> > k"
proof (cases "\<bar>n\<bar> < 2 ^ 53")
  case True
  then show ?thesis by (simp add: fl_int flip: of_int_abs)
next
  case False
  have "of_int k \<le> (2 ^ 51 :: rat)" using assms(2) by (metis of_int_le_iff of_int_numeral of_int_power)
  moreover have "(2 ^ 53 :: rat) \<le> \<bar>of_int n\<bar>"
    using False by (metis linorder_not_less of_int_abs of_int_le_iff of_int_numeral of_int_power)
  ultimately have "of_int k < fl \<bar>of_int n :: rat\<bar>" by (rule fl_big)
  then show ?thesis using False assms by (simp add: fl_abs)
qed

lemma wrap64_far:
  assumes "0 \<le> now" and "now \<le> 2 ^ 62" and "in_int64 ts" and "0 \<le> k" and "k \<le> 2 ^ 51"
  shows "\<bar>wrap64 (now - ts)\<bar> > k \<longleftrightarrow> \<bar>now - ts\<bar> > k"
proof (cases "now - ts \<le> int64_max")
  case True
  moreover have "int64_min \<le> now - ts" using assms by (simp add: in_int64_def int64_min_def int64_max_def)
  ultimately show ?thesis by simp
next
  case False
  then have r: "2 ^ 63 \<le> now - ts" "now - ts \<le> 2 ^ 62 + 2 ^ 63" using assms by (simp_all add: in_int64_def int64_min_def int64_max_def)
  have "(now - ts + 2 ^ 63) mod 2 ^ 64 = now - ts + 2 ^ 63 - 2 ^ 64"
    using r by (intro int_mod_pos_eq [where q = 1]) simp_all
  then have "wrap64 (now - ts) = now - ts - 2 ^ 64" by (simp add: wrap64_def)
  then show ?thesis using r assms by simp
qed

lemma Verify_Sign: "Verify mac m secret sig \<longleftrightarrow> sig = Sign mac m secret"
  by (auto simp: Verify_def Sign_def dest: hex_encode_inj)

definition accepts_with :: "Options \<Rightarrow> henv \<Rightarrow> Subscription \<Rightarrow> string \<Rightarrow> bool" where
  "accepts_with opt e sub secret \<longleftrightarrow> secret = S_SecretKey sub
     \<or> secret = S_PreviousSecretKey sub \<and> secret \<noteq> [] \<and> (\<exists>t. S_SecretRotatedAt sub = Some t \<and> he_grace_now e - t < SecretGraceWindow opt)"

lemma verifyIngest_None:
  assumes "SignatureDriftWindow opt = k * second" and "0 \<le> k" and "k \<le> 2 ^ 51"
    and "0 \<le> he_now e" and "he_now e div second \<le> 2 ^ 62"
  shows "verifyIngest opt e sub body timestamp key sig = None \<longleftrightarrow>
    (\<exists>ts. ParseInt timestamp = Some ts \<and> \<bar>he_now e div second - ts\<bar> \<le> k)
    \<and> (\<exists>secret. accepts_with opt e sub secret \<and> sig = Sign (h_mac (o_http opt)) (BuildMessage timestamp key body) secret)"
proof (cases "ParseInt timestamp")
  case None
  then show ?thesis by (simp add: verifyIngest_def)
next
  case (Some ts)
  have nn: "0 \<le> he_now e div second" using assms(4) by (simp add: pos_imp_zdiv_nonneg_iff)
  have sec: "Seconds (SignatureDriftWindow opt) = of_int k"
    unfolding assms(1) by (rule Seconds_whole) (use assms(2,3) in simp_all)
  have w: "\<bar>fl (of_int (wrap64 (he_now e div second - ts)))\<bar> > Seconds (SignatureDriftWindow opt)
      \<longleftrightarrow> \<not> \<bar>he_now e div second - ts\<bar> \<le> k"
    unfolding sec fl_gt_int [OF assms(2,3)] wrap64_far [OF nn assms(5) ParseInt_range [OF Some] assms(2,3)] by (rule not_le [symmetric])
  show ?thesis
  proof (cases "\<bar>he_now e div second - ts\<bar> \<le> k")
    case True
    then have "verifyIngest opt e sub body timestamp key sig = None \<longleftrightarrow>
        (\<exists>secret. accepts_with opt e sub secret \<and> sig = Sign (h_mac (o_http opt)) (BuildMessage timestamp key body) secret)"
      unfolding verifyIngest_def Some option.case w Let_def Verify_Sign accepts_with_def
      by (cases "S_SecretRotatedAt sub") auto
    then show ?thesis using True Some by simp
  next
    case False
    then show ?thesis unfolding verifyIngest_def Some option.case w by auto
  qed
qed

text \<open>C12. Verification is exact: with a drift window of \<open>k\<close> whole seconds and a clock in range, a request passes
  exactly when its timestamp is a decimal int64 within \<open>k\<close> seconds of the server's clock, in either
  direction and inclusively, and its signature is the HMAC of timestamp, key and body under the current
  secret, or under the previous one while the grace period lasts. Neither the 64-bit subtraction nor the
  float64 comparison admits or refuses any other timestamp.\<close>

theorem verifyIngest_exact:
  assumes "SignatureDriftWindow opt = k * second" and "0 \<le> k" and "k \<le> 2 ^ 51"
    and "0 \<le> he_now e" and "he_now e div second \<le> 2 ^ 62"
  shows "verifyIngest opt e sub body timestamp key sig = None \<longleftrightarrow>
    (\<exists>ts. ParseInt timestamp = Some ts \<and> \<bar>he_now e div second - ts\<bar> \<le> k)
    \<and> (\<exists>secret. accepts_with opt e sub secret \<and> sig = Sign (h_mac (o_http opt)) (BuildMessage timestamp key body) secret)"
  using verifyIngest_None [OF assms] .

theorem verifyIngest_exact_witness:
  "verifyIngest (demo_opts []) (demo_henv (7 * second) ''c'') demo_sub ''{}'' ''300'' [] (Sign (\<lambda>k m. k @ m) (BuildMessage ''300'' [] ''{}'') ''k'') = None"
proof -
  have "ParseInt ''300'' = Some 300" by code_simp
  then show ?thesis
    by (subst verifyIngest_exact [where k = 300]) (auto simp: demo_opts_def demo_henv_def Let_def demo_http_def demo_sub_def accepts_with_def)
qed

section \<open>Only authenticated requests act\<close>

text \<open>The part of the service a request must not touch unauthenticated: everything but the cached copy of
  the subscription it names.\<close>

definition untouched :: "world \<Rightarrow> world \<Rightarrow> bool" where
  "untouched st st' \<longleftrightarrow> w_db st' = w_db st \<and> w_redis st' = w_redis st \<and> w_sent st' = w_sent st \<and> w_breakers st' = w_breakers st
     \<and> w_cbs st' = w_cbs st \<and> w_metrics st' = w_metrics st \<and> bucket_heap (w_sub st') = bucket_heap (w_sub st)
     \<and> ss_buckets (w_sub st') = ss_buckets (w_sub st) \<and> sem_heap (w_sub st') = sem_heap (w_sub st)
     \<and> ss_semaphores (w_sub st') = ss_semaphores (w_sub st)"

lemma StateGetByID_buckets:
  "StateGetByID pg cfg e d i s = (r, s') \<Longrightarrow> bucket_heap s' = bucket_heap s \<and> ss_buckets s' = ss_buckets s"
  by (auto simp: StateGetByID_def refreshSub_def isDirty_def cache_del_def cache_set_def clearDirty_def markDirty_def
      split: prod.splits sum.splits option.splits cache_read.splits if_splits bool.splits)

lemma untouched_get:
  "StateGetByID pg cfg e d i (w_sub st) = (r, s') \<Longrightarrow> untouched st (st\<lparr>w_sub := s'\<rparr>)"
  by (simp add: untouched_def StateGetByID_buckets StateGetByID_heap)

definition authentic :: "Options \<Rightarrow> henv \<Rightarrow> hreq \<Rightarrow> Subscription \<Rightarrow> string \<Rightarrow> bool" where
  "authentic opt e r sub body \<longleftrightarrow> S_IsActive sub
     \<and> ValidIdempotencyKey (HeaderGet r ''X-Idempotency-Key'')
     \<and> (\<exists>limit. r_body r = Body body False limit) \<and> length body \<le> defaultIngestMaxBytes
     \<and> verifyIngest opt e sub body (HeaderGet r ''Webhook-Timestamp'') (HeaderGet r ''X-Idempotency-Key'') (HeaderGet r ''X-Hub-Signature-256'') = None"

lemma read_stream_EOF:
  "read_stream (MaxBytesReader n b) = Some (s, EOF) \<Longrightarrow> (\<exists>limit. b = Body s False limit) \<and> length s \<le> n"
  by (cases b) (auto simp: MaxBytesReader_def split: option.splits if_splits)

lemma rw_out_WriteHeader [simp]: "rw_out (WriteHeader c w) = rw_out w"
  by (auto simp: WriteHeader_def base_WriteHeader_def split: option.splits prod.splits)

lemma rw_out_writeJSON [simp]: "rw_out (writeJSON c v w) = rw_out w @ [v]"
  by (auto simp: writeJSON_def Write_def base_Write_def base_WriteHeader_def set_header_def Let_def WriteHeader_def split: option.splits prod.splits)

lemma rw_out_writeError [simp]: "rw_out (writeError c m w) = rw_out w @ [ErrorBody m]"
  by (simp add: writeError_def)

lemma rw_out_writeDomainError: "\<exists>m. rw_out (writeDomainError err w) = rw_out w @ [ErrorBody m]"
  by (cases err) (simp_all add: writeDomainError_def)

lemma domain_error_no_view: "rw_out (writeDomainError err w) = rw_out w @ [JSON v] \<longleftrightarrow> False"
proof -
  obtain m where "rw_out (writeDomainError err w) = rw_out w @ [ErrorBody m]" using rw_out_writeDomainError by blast
  then show ?thesis by simp
qed

text \<open>The two ways through \<open>handleIngest\<close>: refused with nothing touched and an error answer, or admitted.\<close>

lemma handleIngest_cases:
  assumes "handleIngest opt e r (w, st) = (p, w', st')"
  obtains (refused) "untouched st st'" "\<And>v. rw_out w' \<noteq> rw_out w @ [JSON v]"
  | (admitted) sub s1 body where
      "StateGetByID (o_pg opt) (sub_cfg opt) (he_get e) (w_db st) (pathID r) (w_sub st) = (Inr sub, s1)"
      "authentic opt e r sub body"
      "ingest_admitted opt e r sub (HeaderGet r ''X-Idempotency-Key'') body w (st\<lparr>w_sub := s1\<rparr>) = (p, w', st')"
proof -
  let ?key = "HeaderGet r ''X-Idempotency-Key''"
  obtain res s1 where g: "StateGetByID (o_pg opt) (sub_cfg opt) (he_get e) (w_db st) (pathID r) (w_sub st) = (res, s1)" by fastforce
  note u = untouched_get [OF g]
  have "(untouched st st' \<and> (\<forall>v. rw_out w' \<noteq> rw_out w @ [JSON v])) \<or>
     (\<exists>sub body. res = Inr sub \<and> read_stream (MaxBytesReader defaultIngestMaxBytes (r_body r)) = Some (body, EOF)
      \<and> S_IsActive sub \<and> ValidIdempotencyKey ?key
      \<and> verifyIngest opt e sub body (HeaderGet r ''Webhook-Timestamp'') ?key (HeaderGet r ''X-Hub-Signature-256'') = None
      \<and> ingest_admitted opt e r sub ?key body w (st\<lparr>w_sub := s1\<rparr>) = (p, w', st'))"
    using assms g u
    by (auto simp: handleIngest_def Let_def domain_error_no_view split: sum.splits if_splits option.splits prod.splits read_end.splits)
  then show thesis
  proof (elim disjE exE conjE)
    fix sub body
    assume "res = Inr sub" "read_stream (MaxBytesReader defaultIngestMaxBytes (r_body r)) = Some (body, EOF)" "S_IsActive sub" "ValidIdempotencyKey ?key"
      "verifyIngest opt e sub body (HeaderGet r ''Webhook-Timestamp'') ?key (HeaderGet r ''X-Hub-Signature-256'') = None"
      "ingest_admitted opt e r sub ?key body w (st\<lparr>w_sub := s1\<rparr>) = (p, w', st')"
    then show thesis using admitted [of sub s1 body] g read_stream_EOF by (auto simp: authentic_def)
  qed (use refused in blast)
qed

text \<open>C10. Only the subscriber's sender can act through ingestion: if a request changes the database, the queues,
  a rate-limit bucket, a breaker or anything else but the cached copy of the subscription, then it names an
  active subscription, its complete body of at most 64 KiB and its idempotency key are what the sender
  signed with a secret the subscription accepts, at a time inside the drift window. In particular quota is
  charged only after authentication.\<close>

theorem ingest_authenticated:
  assumes "handleIngest opt e r (w, st) = (p, w', st')" and "\<not> untouched st st'"
    and "SignatureDriftWindow opt = k * second" and "0 \<le> k" and "k \<le> 2 ^ 51" and "0 \<le> he_now e" and "he_now e div second \<le> 2 ^ 62"
  shows "\<exists>sub body ts secret limit.
      fst (StateGetByID (o_pg opt) (sub_cfg opt) (he_get e) (w_db st) (pathID r) (w_sub st)) = Inr sub \<and> S_IsActive sub
    \<and> r_body r = Body body False limit \<and> length body \<le> 65536
    \<and> ParseInt (HeaderGet r ''Webhook-Timestamp'') = Some ts \<and> \<bar>he_now e div second - ts\<bar> \<le> k
    \<and> accepts_with opt e sub secret
    \<and> HeaderGet r ''X-Hub-Signature-256'' = Sign (h_mac (o_http opt))
        (BuildMessage (HeaderGet r ''Webhook-Timestamp'') (HeaderGet r ''X-Idempotency-Key'') body) secret"
  using assms(1)
proof (cases rule: handleIngest_cases)
  case (admitted sub s1 body)
  then have "verifyIngest opt e sub body (HeaderGet r ''Webhook-Timestamp'') (HeaderGet r ''X-Idempotency-Key'') (HeaderGet r ''X-Hub-Signature-256'') = None"
    by (simp add: authentic_def)
  then show ?thesis
    using admitted unfolding verifyIngest_None [OF assms(3-7)] by (auto simp: authentic_def defaultIngestMaxBytes_def)
qed (use assms(2) in blast)

section \<open>Acceptance is durable\<close>

text \<open>The row a new event gets.\<close>

lemma insert_tx_row:
  assumes "ingest_insert_tx pg c wid p t1 = (Inr x, t2)"
  shows "\<exists>w s. uuid_in pg wid = Some w \<and> uuid_in pg (P_SubscriptionID p) = Some s \<and> R_WebhookID x = wid \<and> R_DeliveryLogID x = c_uuid c
    \<and> delivery_logs (tx_db t2) = delivery_logs (tx_db t1)
        @ [pending_row c w s (P_TargetURL p) (jsonb_in pg (P_Payload p)) (nullStr (P_EventType p)) 1 0 (c_now c)]"
  using assms
  by (auto simp: ingest_insert_tx_def insert_pending_def insert_log_Inr sql_insert_def pending_row_def
      split: prod.splits sum.splits if_splits option.splits dest!: tx_run_Inr)

lemma ingest_row:
  assumes "IngestPending jv pg c d p = (Inr x, d')" and "\<not> R_Duplicate x"
  shows "\<exists>w s. uuid_in pg (R_WebhookID x) = Some w \<and> uuid_in pg (P_SubscriptionID p) = Some s \<and> R_DeliveryLogID x = c_uuid c
    \<and> delivery_logs d' = delivery_logs d
        @ [pending_row c w s (P_TargetURL p) (jsonb_in pg (P_Payload p)) (nullStr (P_EventType p)) 1 0 (c_now c)]"
proof -
  obtain t where t: "ingest_tx pg c p \<lparr>tx_db = d, tx_aborted = False\<rparr> = (Inr x, t)" "d' = tx_db t"
    using assms(1) by (auto simp: IngestPending_def split: if_splits sum.splits dest!: inTx_Inr)
  show ?thesis
  proof (cases "P_IdempotencyKey p = []")
    case True
    then show ?thesis using t insert_tx_row [of pg c "P_WebhookID p" p] by (fastforce simp: ingest_tx_def)
  next
    case False
    with t(1) assms(2) obtain w t1 where
      i: "tx_run c 0 (insert_idem pg c (P_SubscriptionID p) (P_IdempotencyKey p) (P_WebhookID p)) \<lparr>tx_db = d, tx_aborted = False\<rparr> = (Inr w, t1)"
        "ingest_insert_tx pg c w p t1 = (Inr x, t)"
      by (auto simp: ingest_tx_def split: prod.splits sum.splits if_splits)
    have "delivery_logs (tx_db t1) = delivery_logs d" using tx_run_Inr [OF i(1)] insert_idem_logs by fastforce
    with insert_tx_row [OF i(2)] t(2) show ?thesis by auto
  qed
qed

text \<open>The store call behind an ``accepted'' answer.\<close>

definition accepted_params :: "hreq \<Rightarrow> Subscription \<Rightarrow> string \<Rightarrow> string \<Rightarrow> IngestParams" where
  "accepted_params r sub body wid = \<lparr>P_SubscriptionID = S_ID sub, P_IdempotencyKey = HeaderGet r ''X-Idempotency-Key'', P_WebhookID = wid,
     P_TargetURL = S_TargetURL sub, P_Payload = body, P_EventType = QueryGet r ''event_type''\<rparr>"

lemma accepted_ingest:
  assumes "handleIngest opt e r (w, st) = (p, w', st')" and "\<not> SyncDelivery opt"
    and "rw_out w' = rw_out w @ [JSON (VIngest ir)]" and "ir_Status ir = ''accepted''"
  obtains sub body limit bs res where
    "fst (StateGetByID (o_pg opt) (sub_cfg opt) (he_get e) (w_db st) (pathID r) (w_sub st)) = Inr sub"
    "r_body r = Body body False limit" "he_rand e = Some bs"
    "IngestPending (o_json_valid opt) (o_pg opt) (he_call e) (w_db st) (accepted_params r sub body (NewUUIDv4 bs)) = (Inr res, w_db st')"
    "\<not> R_Duplicate res" "ir_WebhookID ir = R_WebhookID res" "ir_DeliveryID ir = R_DeliveryLogID res"
    "w_redis st' = snd (Enqueue (he_enqueue e) (R_DeliveryLogID res) (w_redis st))"
  using assms(1)
proof (cases rule: handleIngest_cases)
  case refused
  then show ?thesis using assms(3) by blast
next
  case (admitted sub s1 body)
  obtain ok s2 where a: "StateAllow (sub_cfg opt) (he_allow_now e) (S_ID sub) s1 = (ok, s2)" by fastforce
  have "\<exists>bs res. he_rand e = Some bs \<and> IngestPending (o_json_valid opt) (o_pg opt) (he_call e) (w_db st) (accepted_params r sub body (NewUUIDv4 bs)) = (Inr res, w_db st')
      \<and> \<not> R_Duplicate res \<and> ir_WebhookID ir = R_WebhookID res \<and> ir_DeliveryID ir = R_DeliveryLogID res
      \<and> w_redis st' = snd (Enqueue (he_enqueue e) (R_DeliveryLogID res) (w_redis st))"
    using admitted(3) assms(2-4) a
    by (auto simp: accepted_params_def ingest_admitted_def ingest_event_def Let_def domain_error_no_view split: sum.splits if_splits option.splits prod.splits)
  moreover have "\<exists>limit. r_body r = Body body False limit" using admitted(2) by (simp add: authentic_def)
  ultimately show ?thesis using that [of sub body] admitted(1) by auto
qed

text \<open>C13. An acknowledged event is stored: when the asynchronous endpoint answers ``accepted'', the database holds
  exactly one more attempt, committed, with the delivery id and webhook id of the answer, the payload, target
  and type of the request, pending and due at once, so that the recovery scan finds it even when the enqueue
  failed; and when the enqueue succeeded its id is on the work queue.\<close>

theorem accepted_is_durable:
  assumes "handleIngest opt e r (w, st) = (p, w', st')" and "\<not> SyncDelivery opt"
    and "rw_out w' = rw_out w @ [JSON (VIngest ir)]" and "ir_Status ir = ''accepted''"
  shows "\<exists>sub body limit row. fst (StateGetByID (o_pg opt) (sub_cfg opt) (he_get e) (w_db st) (pathID r) (w_sub st)) = Inr sub
    \<and> r_body r = Body body False limit \<and> delivery_logs (w_db st') = delivery_logs (w_db st) @ [row]
    \<and> d_id row = ir_DeliveryID ir \<and> uuid_in (o_pg opt) (ir_WebhookID ir) = Some (d_webhook_id row)
    \<and> uuid_in (o_pg opt) (S_ID sub) = Some (d_subscription_id row) \<and> d_target_url row = S_TargetURL sub
    \<and> d_payload row = jsonb_in (o_pg opt) body \<and> d_event_type row = nullStr (QueryGet r ''event_type'')
    \<and> is_pending row \<and> due (c_now (he_call e)) row \<and> d_attempt_number row = 1 \<and> d_replay_number row = 0
    \<and> (he_enqueue e = Done \<longrightarrow> work_queue (w_redis st') = ir_DeliveryID ir # work_queue (w_redis st))"
proof -
  from assms obtain sub body limit bs res where
    i: "fst (StateGetByID (o_pg opt) (sub_cfg opt) (he_get e) (w_db st) (pathID r) (w_sub st)) = Inr sub" "r_body r = Body body False limit"
      "IngestPending (o_json_valid opt) (o_pg opt) (he_call e) (w_db st) (accepted_params r sub body (NewUUIDv4 bs)) = (Inr res, w_db st')"
      "\<not> R_Duplicate res" "ir_WebhookID ir = R_WebhookID res" "ir_DeliveryID ir = R_DeliveryLogID res"
      "w_redis st' = snd (Enqueue (he_enqueue e) (R_DeliveryLogID res) (w_redis st))"
    by (rule accepted_ingest)
  from ingest_row [OF i(3,4)] i show ?thesis
    by (fastforce simp: accepted_params_def pending_row_def due_def Enqueue_def redis_do_def)
qed

section \<open>A signed request\<close>

definition demo_signed :: hreq where
  "demo_signed = (demo_request ''POST'' [''ingest'', ''s'']
     [(''X-Hub-Signature-256'', Sign (\<lambda>k m. k @ m) (BuildMessage ''0'' [] ''{}'') ''k''), (''Webhook-Timestamp'', ''0'')] ''{}'')\<lparr>r_values := [(''id'', ''s'')]\<rparr>"

definition demo_stored :: Subscription where
  "demo_stored = demo_sub\<lparr>S_ID := ''s'', S_CreatedAt := 1, S_UpdatedAt := 1\<rparr>"

definition demo_read :: "Subscription result \<times> SubState" where
  "demo_read = StateGetByID plain_pg (SubCfg demo_dcfg) (he_get (demo_henv 6 ''n'')) demo_db3 ''s'' (NewState (SubCfg demo_dcfg))"

lemma demo_read_sub: "fst demo_read = Inr demo_stored"
  by code_simp

lemma demo_verified: "verifyIngest (demo_opts []) (demo_henv 6 ''n'') demo_stored ''{}'' ''0'' []
    (Sign (\<lambda>k m. k @ m) (BuildMessage ''0'' [] ''{}'') ''k'') = None"
proof -
  have "ParseInt ''0'' = Some 0" by code_simp
  then show ?thesis
    by (subst verifyIngest_None [where k = 300])
      (auto simp: demo_opts_def demo_henv_def Let_def demo_http_def demo_sub_def demo_stored_def accepts_with_def)
qed

lemma demo_handle:
  "handleIngest (demo_opts []) (demo_henv 6 ''n'') demo_signed (new_rw, demo_world)
    = ingest_admitted (demo_opts []) (demo_henv 6 ''n'') demo_signed demo_stored [] ''{}'' new_rw (demo_world\<lparr>w_sub := snd demo_read\<rparr>)"
proof -
  have g: "StateGetByID (o_pg (demo_opts [])) (sub_cfg (demo_opts [])) (he_get (demo_henv 6 ''n'')) (w_db demo_world) (pathID demo_signed) (w_sub demo_world)
      = (Inr demo_stored, snd demo_read)"
    using demo_read_sub
    by (simp add: demo_read_def demo_opts_def demo_world_def pathID_def demo_signed_def get_first_def prod_eq_iff)
  have h: "HeaderGet demo_signed ''X-Hub-Signature-256'' = Sign (\<lambda>k m. k @ m) (BuildMessage ''0'' [] ''{}'') ''k''"
    "HeaderGet demo_signed ''Webhook-Timestamp'' = ''0''" "HeaderGet demo_signed ''X-Idempotency-Key'' = []"
    by (simp_all add: demo_signed_def demo_request_def get_first_def)
  have b: "read_stream (MaxBytesReader defaultIngestMaxBytes (r_body demo_signed)) = Some (''{}'', EOF)"
    by (simp add: demo_signed_def demo_request_def MaxBytesReader_def defaultIngestMaxBytes_def)
  have "S_IsActive demo_stored" "ValidIdempotencyKey []" "Sign (\<lambda>k m. k @ m) (BuildMessage ''0'' [] ''{}'') ''k'' \<noteq> []"
    by (simp_all add: demo_stored_def demo_sub_def ValidIdempotencyKey_def Sign_def sigPrefix_def)
  then show ?thesis
    unfolding handleIngest_def prod.case g sum.case Let_def h b option.case read_end.case demo_verified by simp
qed

lemma demo_admitted:
  "map_prod rw_out (\<lambda>st. length (delivery_logs (w_db st)))
     (snd (ingest_admitted (demo_opts []) (demo_henv 6 ''n'') demo_signed demo_stored [] ''{}'' new_rw (demo_world\<lparr>w_sub := snd demo_read\<rparr>)))
   = ([JSON (VIngest \<lparr>ir_WebhookID = NewUUIDv4 (replicate 16 (CHR ''r'')), ir_DeliveryID = ''n'', ir_Status = ''accepted'', ir_Duplicate = False\<rparr>)], 3)"
  by code_simp

text \<open>The run the two witnesses share.\<close>

lemma demo_accepted:
  obtains p w' st' where "handleIngest (demo_opts []) (demo_henv 6 ''n'') demo_signed (new_rw, demo_world) = (p, w', st')"
    and "rw_out w' = rw_out new_rw @ [JSON (VIngest \<lparr>ir_WebhookID = NewUUIDv4 (replicate 16 (CHR ''r'')), ir_DeliveryID = ''n'', ir_Status = ''accepted'', ir_Duplicate = False\<rparr>)]"
    and "length (delivery_logs (w_db st')) = 3"
  using demo_admitted unfolding demo_handle [symmetric]
  by (cases "handleIngest (demo_opts []) (demo_henv 6 ''n'') demo_signed (new_rw, demo_world)") (auto simp: new_rw_def)

lemma demo_world_logs: "length (delivery_logs (w_db demo_world)) = 2"
  by code_simp

theorem accepted_is_durable_witness:
  "\<exists>row. delivery_logs (w_db (snd (snd (handleIngest (demo_opts []) (demo_henv 6 ''n'') demo_signed (new_rw, demo_world)))))
      = delivery_logs (w_db demo_world) @ [row] \<and> d_id row = ''n'' \<and> is_pending row"
proof (rule demo_accepted)
  fix p w' st'
  assume a: "handleIngest (demo_opts []) (demo_henv 6 ''n'') demo_signed (new_rw, demo_world) = (p, w', st')"
    "rw_out w' = rw_out new_rw @ [JSON (VIngest \<lparr>ir_WebhookID = NewUUIDv4 (replicate 16 (CHR ''r'')), ir_DeliveryID = ''n'', ir_Status = ''accepted'', ir_Duplicate = False\<rparr>)]"
  have "\<not> SyncDelivery (demo_opts [])" by (simp add: demo_opts_def)
  from accepted_is_durable [OF a(1) this a(2)] a(1) show ?thesis by auto
qed

theorem ingest_authenticated_witness:
  "\<exists>sub secret. S_IsActive sub \<and> accepts_with (demo_opts []) (demo_henv 6 ''n'') sub secret
     \<and> HeaderGet demo_signed ''X-Hub-Signature-256'' = Sign (\<lambda>k m. k @ m) (BuildMessage ''0'' [] ''{}'') secret"
proof (rule demo_accepted)
  fix p w' st'
  assume a: "handleIngest (demo_opts []) (demo_henv 6 ''n'') demo_signed (new_rw, demo_world) = (p, w', st')"
    "length (delivery_logs (w_db st')) = 3"
  then have u: "\<not> untouched demo_world st'" using demo_world_logs by (auto simp: untouched_def)
  have h: "h_mac (o_http (demo_opts [])) = (\<lambda>k m. k @ m)" "HeaderGet demo_signed ''Webhook-Timestamp'' = ''0''"
    "HeaderGet demo_signed ''X-Idempotency-Key'' = []" "r_body demo_signed = Body ''{}'' False None"
    by (simp_all add: demo_signed_def demo_request_def get_first_def demo_opts_def demo_http_def)
  have "SignatureDriftWindow (demo_opts []) = 300 * second" "0 \<le> he_now (demo_henv 6 ''n'')" "he_now (demo_henv 6 ''n'') div second \<le> 2 ^ 62"
    by (simp_all add: demo_opts_def demo_henv_def Let_def)
  from ingest_authenticated [OF a(1) u this(1) _ _ this(2,3)] show ?thesis unfolding h by auto
qed

end
