(* ===== verification/Service.thy ===== *)
theory Service
  imports Wiring Api_Ingest
begin

text \<open>
  The service as \<^verbatim>\<open>cmd/server/main.go\<close> assembles it: the HTTP server on the options taken from the
  configuration, and the properties in which the API, the stores, the configuration and the background
  workers meet.
\<close>

section \<open>The assembled server\<close>

text \<open>\<open>ext\<close> carries the functions of code outside the repository.\<close>

definition server_options :: "Config \<Rightarrow> Options \<Rightarrow> Options" where
  "server_options c ext = ext\<lparr>o_dcfg := deliverer_config c, SyncDelivery := cSyncDelivery c, EnablePprof := cEnablePprof c,
     AdminAPIKey := cAdminAPIKey c, AllowHTTPURLs := cAllowHTTPURLs c, CORSAllowedOrigins := cCORSAllowedOrigins c,
     SignatureDriftWindow := cSignatureDriftWindow c, SecretGraceWindow := cSecretGraceWindow c\<rparr>"

definition service_http :: "Config \<Rightarrow> Options \<Rightarrow> henv \<Rightarrow> api_handler http_server" where
  "service_http c ext e = newHTTPServer (Addr c) (Handler (server_options c ext) e)"

section \<open>Replays of a signed request\<close>

lemma cleanup_keyed:
  assumes "keyed idem_key (ingest_idempotency d)"
  shows "keyed idem_key (ingest_idempotency (cleanup w c1 c2 d))"
proof -
  obtain res1 d1 where del: "DeleteExpired c1 d (cw_retention w) = (res1, d1)" by fastforce
  obtain res2 d2 where prune: "PruneIdempotency c2 d1 (cw_idempotencyTTL w) = (res2, d2)" by fastforce
  have "cleanup w c1 c2 d = d1 \<or> cleanup w c1 c2 d = d2" using del prune by (auto simp: cleanup_def split: sum.splits)
  with DeleteExpired_db [OF del] Prune_db [OF prune] assms show ?thesis by (auto intro: keyed_delete)
qed

lemma keyed_idem: "db_inv pg t d \<Longrightarrow> keyed idem_key (ingest_idempotency d)"
  by (simp add: db_inv_def core_inv_def)

text \<open>A request is accepted only near its timestamp, so two acceptances of one timestamp are close.\<close>

lemma acceptances_close:
  assumes "SignatureDriftWindow opt = k * second" and "0 \<le> k" and "k \<le> 2 ^ 51"
    and "0 \<le> he_now e1" and "he_now e1 div second \<le> 2 ^ 62" and "0 \<le> he_now e2" and "he_now e2 div second \<le> 2 ^ 62"
    and "verifyIngest opt e1 sub1 body1 timestamp key1 sig1 = None" and "verifyIngest opt e2 sub2 body2 timestamp key2 sig2 = None"
  shows "he_now e2 - he_now e1 < (2 * k + 1) * second"
proof -
  from assms(8) obtain ts where ts: "ParseInt timestamp = Some ts" "\<bar>he_now e1 div second - ts\<bar> \<le> k"
    unfolding verifyIngest_None [OF assms(1-5)] by blast
  from assms(9) ts(1) have ts2: "\<bar>he_now e2 div second - ts\<bar> \<le> k"
    unfolding verifyIngest_None [OF assms(1-3,6,7)] by auto
  define q1 q2 r1 r2 where d: "q1 = he_now e1 div second" "q2 = he_now e2 div second" "r1 = he_now e1 mod second" "r2 = he_now e2 mod second"
  have "he_now e1 = q1 * second + r1" "he_now e2 = q2 * second + r2" "0 \<le> r1" "r2 < second"
    unfolding d by simp_all
  moreover have "(q2 - q1) * second \<le> 2 * k * second" using ts(2) ts2 by (intro mult_right_mono) (auto simp: d)
  ultimately show ?thesis by (simp add: algebra_simps)
qed

lemma whole_seconds_kept:
  assumes "n * second \<le> ttl" and "0 \<le> n"
  shows "n * second \<le> pg_interval (secondsArg ttl)"
proof -
  have "n \<le> ttl div second" using zdiv_mono1 [OF assms(1), of second] by simp
  moreover have "0 \<le> ttl" using assms by (meson mult_nonneg_nonneg order_trans zero_le_numeral)
  ultimately show ?thesis by (simp add: pg_interval_def secondsArg_def Let_def)
qed

text \<open>C15. A signed request cannot be replayed while its key is remembered, and it is remembered for as long as
  it could be replayed: when idempotency records live at least one second longer than twice the signature
  drift window, a record written when a request was accepted survives every cleanup pass that runs before
  another request with the same timestamp is accepted, so the copy is acknowledged as a duplicate of the
  first webhook and inserts nothing.\<close>

theorem replay_deduplicated:
  assumes "SignatureDriftWindow (server_options c ext) = k * second" and "0 \<le> k" and "k \<le> 2 ^ 51"
    and "0 \<le> he_now e1" and "he_now e1 div second \<le> 2 ^ 62" and "0 \<le> he_now e2" and "he_now e2 div second \<le> 2 ^ 62"
    and "verifyIngest (server_options c ext) e1 sub1 body1 timestamp key1 sig1 = None"
    and "verifyIngest (server_options c ext) e2 sub2 body2 timestamp key2 sig2 = None"
    and "(2 * k + 1) * second \<le> cIdempotencyTTL c"
    and "db_inv pg t d" and "idem_by_key d (s, key2) = Some r" and "he_now e1 \<le> i_created_at r"
    and "c_now c2 \<le> he_now e2" and "d' = cleanup (cleanup_worker c) c1 c2 d"
    and "ingest_args_ok jv p" and "faultless c3" and "key2 \<noteq> []" and "P_IdempotencyKey p = key2"
    and "uuid_in pg (P_SubscriptionID p) = Some s" and "uuid_in pg (P_WebhookID p) \<noteq> None"
  shows "IngestPending jv pg c3 d' p = (Inr \<lparr>R_WebhookID = i_webhook_id r, R_DeliveryLogID = [], R_Duplicate = True\<rparr>, d')"
proof -
  have "he_now e2 - he_now e1 < (2 * k + 1) * second" by (rule acceptances_close [OF assms(1-9)])
  moreover have "(2 * k + 1) * second \<le> pg_interval (secondsArg (cIdempotencyTTL c))"
    using assms(10) by (rule whole_seconds_kept) (use assms(2) in simp)
  ultimately have young: "c_now c2 - pg_interval (secondsArg (cw_idempotencyTTL (cleanup_worker c))) \<le> i_created_at r"
    using assms(13,14) by (simp add: cleanup_worker_def)
  have r: "r \<in> set (ingest_idempotency d)" "idem_key r = (s, key2)" using assms(12) by (auto dest: lookup_row_SomeD)
  have "keyed idem_key (ingest_idempotency d')" using keyed_idem [OF assms(11)] unfolding assms(15) by (rule cleanup_keyed)
  moreover have "r \<in> set (ingest_idempotency d')" using cleanup_effect [OF assms(15)] r(1) young by blast
  ultimately have "idem_by_key d' (s, key2) = Some r" using r(2) by (simp add: lookup_row_eq)
  then show ?thesis using ingest_duplicate [OF assms(16,17) _ assms(20,21), of d' r] assms(18,19) by simp
qed

text \<open>A request stamped five minutes ahead, signed with the subscription's secret.\<close>

definition demo_sig :: string where
  "demo_sig = Sign (\<lambda>k m. k @ m) (BuildMessage ''300'' ''key'' ''{}'') ''k''"

lemma demo_window:
  assumes "cSignatureDriftWindow c = 300 * second" and "0 \<le> t" and "t \<le> 600 * second"
  shows "verifyIngest (server_options c (demo_opts [])) (demo_henv t u) demo_sub ''{}'' ''300'' ''key'' demo_sig = None"
proof -
  have p: "ParseInt ''300'' = Some 300" by code_simp
  have "t div second \<le> 600" "0 \<le> t div second" using zdiv_mono1 [OF assms(3), of second] assms(2) by (simp_all add: pos_imp_zdiv_nonneg_iff)
  then show ?thesis using assms p
    by (subst verifyIngest_None [where k = 300])
      (auto simp: server_options_def demo_opts_def demo_henv_def Let_def demo_http_def demo_sub_def accepts_with_def demo_sig_def)
qed

theorem replay_deduplicated_witness:
  "fst (IngestPending (\<lambda>_. True) plain_pg (ok_call (600 * second) ''z'')
      (cleanup \<lparr>cw_retention = hour, cw_idempotencyTTL = 601 * second\<rparr> (ok_call (600 * second) ''u'') (ok_call (600 * second) ''v'') demo_db3)
      (demo_params ''key'' ''other''))
    = Inr \<lparr>R_WebhookID = ''w'', R_DeliveryLogID = [], R_Duplicate = True\<rparr>"
proof -
  let ?c = "(read_config (demo_environ []))\<lparr>cIdempotencyTTL := 601 * second, cLogRetention := hour\<rparr>"
  let ?e1 = "demo_henv 2 ''a''" and ?e2 = "demo_henv (600 * second) ''z''"
  have dw: "cSignatureDriftWindow ?c = 300 * second" by (simp add: demo_eval)
  have clocks: "he_now ?e1 = 2" "he_now ?e2 = 600 * second" by (simp_all add: demo_henv_def Let_def)
  have v: "verifyIngest (server_options ?c (demo_opts [])) ?e1 demo_sub ''{}'' ''300'' ''key'' demo_sig = None"
    "verifyIngest (server_options ?c (demo_opts [])) ?e2 demo_sub ''{}'' ''300'' ''key'' demo_sig = None"
    using dw by (auto intro!: demo_window)
  have rec: "idem_by_key demo_db3 (''s'', ''key'') = Some (ingest_idempotency demo_db3 ! 0)"
    "i_created_at (ingest_idempotency demo_db3 ! 0) = 2" "i_webhook_id (ingest_idempotency demo_db3 ! 0) = ''w''"
    by (simp_all add: demo_db3_eq demo_db2_eq lookup_row_def idem_key_def)
  have args: "ingest_args_ok (\<lambda>_. True) (demo_params ''key'' ''other'')" by code_simp
  have w: "cleanup_worker ?c = \<lparr>cw_retention = hour, cw_idempotencyTTL = 601 * second\<rparr>" by (simp add: cleanup_worker_def)
  have so: "SignatureDriftWindow (server_options ?c (demo_opts [])) = 300 * second" using dw by (simp add: server_options_def)
  from replay_deduplicated [OF so _ _ _ _ _ _ v _ demo_inv rec(1), where ?c1.0 = "ok_call (600 * second) ''u''" and
      ?c2.0 = "ok_call (600 * second) ''v''" and jv = "\<lambda>_. True" and p = "demo_params ''key'' ''other''" and ?c3.0 = "ok_call (600 * second) ''z''", OF _ _ _ _ _ _ _ _ _ refl args]
  show ?thesis unfolding w using rec clocks by (simp add: demo_params_def plain_pg_def)
qed

text \<open>Validation asks only that records live as long as the drift window, which is also the default of five
  minutes for both. That is not enough: under the default configuration a request stamped five minutes
  ahead is accepted, its key is pruned after five minutes, and the same bytes are accepted again ten
  minutes after the first time, as a new event.\<close>

theorem default_ttl_admits_replay:
  "\<exists>c. Load (demo_environ []) = Inr c
    \<and> verifyIngest (server_options c (demo_opts [])) (demo_henv 2 ''a'') demo_sub ''{}'' ''300'' ''key'' demo_sig = None
    \<and> verifyIngest (server_options c (demo_opts [])) (demo_henv (600 * second) ''z'') demo_sub ''{}'' ''300'' ''key'' demo_sig = None
    \<and> (let d1 = snd (IngestPending (\<lambda>_. True) plain_pg (ok_call 2 ''a'') demo_db1 (demo_params ''key'' ''w''));
           d2 = cleanup (cleanup_worker c) (ok_call (500 * second) ''u'') (ok_call (500 * second) ''v'') d1
       in fst (IngestPending (\<lambda>_. True) plain_pg (ok_call (600 * second) ''z'') d2 (demo_params ''key'' ''w2''))
            = Inr \<lparr>R_WebhookID = ''w2'', R_DeliveryLogID = ''z'', R_Duplicate = False\<rparr>)"
proof -
  let ?c = "read_config (demo_environ [])"
  have w: "cleanup_worker ?c = \<lparr>cw_retention = 72 * hour, cw_idempotencyTTL = 300 * second\<rparr>"
    and dw: "cSignatureDriftWindow ?c = 300 * second" by (simp_all add: cleanup_worker_def demo_eval)
  have "fst (IngestPending (\<lambda>_. True) plain_pg (ok_call (600 * second) ''z'')
      (cleanup \<lparr>cw_retention = 72 * hour, cw_idempotencyTTL = 300 * second\<rparr> (ok_call (500 * second) ''u'') (ok_call (500 * second) ''v'')
        (snd (IngestPending (\<lambda>_. True) plain_pg (ok_call 2 ''a'') demo_db1 (demo_params ''key'' ''w''))))
      (demo_params ''key'' ''w2'')) = Inr \<lparr>R_WebhookID = ''w2'', R_DeliveryLogID = ''z'', R_Duplicate = False\<rparr>" by code_simp
  then show ?thesis using demo_load dw by (intro exI [of _ ?c] conjI) (auto simp: w intro!: demo_window)
qed

section \<open>Updates that undo other writers\<close>

text \<open>A partial update writes back what it read: when an attempt's final failure disables the subscription
  between the read and the write of an update that only sets the event types, the answer and the stored
  row say the subscription is active, and the disabling is lost.\<close>

definition disabled_between :: "world \<Rightarrow> world" where
  "disabled_between st = st\<lparr>w_db := snd (FinalizeFailure plain_pg (ok_call 6 ''u'') (w_db st) ''b'' ''s'' (Some 500) ''e'' 1)\<rparr>"

theorem update_undoes_disable:
  "map s_is_active (subscriptions (w_db (disabled_between demo_world))) = [False]
   \<and> (case handleUpdateSubscription (demo_opts []) ((demo_henv 7 ''n'')\<lparr>he_between := disabled_between\<rparr>)
         ((demo_request ''PUT'' [''subscriptions'', ''s''] [] ''{}'')\<lparr>r_values := [(''id'', ''s'')]\<rparr>) (new_rw, demo_world) of
       (p, w, st) \<Rightarrow> map_option fst (rw_sent w) = Some 200 \<and> map s_is_active (subscriptions (w_db st)) = [True])"
  by code_simp

section \<open>From the answer to the next attempt\<close>


text \<open>The configuration behind the demonstration options.\<close>

definition demo_conf :: Config where
  "demo_conf = (read_config (demo_environ []))\<lparr>cVisibilityTimeout := 30 * second, cMaxRetryAttempts := 2, cRetryBaseDelay := second,
     cRetryMaxDelay := 60 * second, cBreakerResetTimeout := 10 * second, cAutoDisableThreshold := 3, cBreakerThreshold := 2, cCacheTTL := 60,
     cRegistryIdleTTL := 100, cRateLimitPerSec := 1, cRateLimitBurst := 2, cPerSubConcurrency := 1, cSyncDelivery := False,
     cEnablePprof := False, cAdminAPIKey := [], cAllowHTTPURLs := False, cCORSAllowedOrigins := [], cSignatureDriftWindow := 300 * second,
     cSecretGraceWindow := 0\<rparr>"

lemma demo_conf_options: "server_options demo_conf (demo_opts []) = demo_opts []" and demo_conf_async: "\<not> cSyncDelivery demo_conf"
  by (simp_all add: server_options_def demo_conf_def demo_opts_def deliverer_config_def sub_config_def demo_dcfg_def)

lemma demo_fresh: "fresh_webhook plain_pg demo_db3 (NewUUIDv4 (replicate 16 (CHR ''r'')))"
  by code_simp


end
