(* ===== verification/System.thy ===== *)
theory System
  imports Service
begin

text \<open>
  The whole service as one transition system: requests, deliveries, recovery scans, retention,
  reconciliation, sweeps, restarts and anything that happens to Redis, in any order. Result: to the
  database every history of the service is a run of the store's relation \<open>db_step\<close>, so what holds along
  those runs holds of the service. A step is a whole operation, with the interference the operation's
  environment describes; a finer interleaving of the repository calls of several operations is a run of
  \<open>db_step\<close> as it stands, since that relation lets anyone call anything at any time;
  \<open>Interleavings\<close> shows it for the delivery goroutines.
\<close>

section \<open>Runs that end by a deadline\<close>

definition by_time :: "pgsql \<Rightarrow> (string \<Rightarrow> bool) \<Rightarrow> time \<times> db \<Rightarrow> time \<times> db \<Rightarrow> bool" where
  "by_time pg jv s s' \<longleftrightarrow> (\<exists>u \<le> fst s'. (db_step pg jv)\<^sup>*\<^sup>* s (u, snd s'))"

lemma call_ok_earlier: "call_ok pg t c \<Longrightarrow> t' \<le> t \<Longrightarrow> call_ok pg t' c"
  by (simp add: call_ok_def)

lemma db_step_earlier:
  assumes "db_step pg jv (t, d) s'" and "t' \<le> t"
  shows "db_step pg jv (t', d) s'"
  using assms by (elim db_stepE; hypsubst) (auto intro: db_step.intros call_ok_earlier)

lemma db_run_earlier:
  assumes "(db_step pg jv)\<^sup>*\<^sup>* (t2, d) (t3, d')" and "t1 \<le> t2"
  shows "\<exists>u \<le> t3. (db_step pg jv)\<^sup>*\<^sup>* (t1, d) (u, d')"
  using assms(1)
proof (cases rule: converse_rtranclpE)
  case base
  then show ?thesis using assms(2) by auto
next
  case (step y)
  then have "(db_step pg jv)\<^sup>*\<^sup>* (t1, d) (t3, d')"
    using db_step_earlier [OF step(1) assms(2)] by (meson converse_rtranclp_into_rtranclp)
  then show ?thesis by blast
qed

lemma by_time_refl: "t \<le> t' \<Longrightarrow> by_time pg jv (t, d) (t', d)"
  by (auto simp: by_time_def)

lemma by_time_step: "db_step pg jv (t, d) (c_now c, d') \<Longrightarrow> c_now c \<le> t' \<Longrightarrow> by_time pg jv (t, d) (t', d')"
  by (auto simp: by_time_def)

lemma by_time_trans:
  assumes "by_time pg jv (t, d) (t1, d1)" and "by_time pg jv (t1, d1) (t2, d2)"
  shows "by_time pg jv (t, d) (t2, d2)"
proof -
  from assms(1) obtain u where u: "u \<le> t1" "(db_step pg jv)\<^sup>*\<^sup>* (t, d) (u, d1)" by (auto simp: by_time_def)
  from assms(2) obtain v where v: "v \<le> t2" "(db_step pg jv)\<^sup>*\<^sup>* (t1, d1) (v, d2)" by (auto simp: by_time_def)
  from db_run_earlier [OF v(2) u(1)] v(1) u(2) show ?thesis
    unfolding by_time_def fst_conv snd_conv by (meson order_trans rtranclp_trans)
qed

lemma by_time_later: "by_time pg jv s (t1, d') \<Longrightarrow> t1 \<le> t2 \<Longrightarrow> by_time pg jv s (t2, d')"
  unfolding by_time_def fst_conv snd_conv by (meson order_trans)

lemmas by_time_call = by_time_step [OF db_step.create] by_time_step [OF db_step.update] by_time_step [OF db_step.rotate]
  by_time_step [OF db_step.delete] by_time_step [OF db_step.ack] by_time_step [OF db_step.replay]

section \<open>Deliveries\<close>

definition penv_by :: "pgsql \<Rightarrow> time \<Rightarrow> time \<Rightarrow> penv \<Rightarrow> bool" where
  "penv_by pg t t' e \<longleftrightarrow> penv_ok pg t e \<and> c_now (pe_claim e) \<le> t' \<and> c_now (pe_drop e) \<le> t' \<and> c_now (pe_resched e) \<le> t'
     \<and> c_now (pe_retry e) \<le> t' \<and> c_now (e_call (pe_finish e)) \<le> t'"

lemma penv_by_le: "penv_by pg t t' e \<Longrightarrow> t \<le> t'"
  by (auto simp: penv_by_def penv_ok_def call_ok_def)

lemma ends_by:
  assumes "ends pg e d d'" and "penv_by pg t t' e"
  shows "by_time pg jv (c_now (pe_claim e), d) (t', d')"
  using assms(1)
proof cases
  case none
  then show ?thesis using assms(2) by (auto simp: penv_by_def intro: by_time_refl)
qed (use assms(2) in \<open>auto simp: penv_by_def penv_ok_def intro: by_time_step [OF drop_row] by_time_step [OF reschedule]
  by_time_step [OF db_step.retry] by_time_step [OF db_step.success] by_time_step [OF finalize]\<close>)

lemma Process_by:
  assumes "penv_by pg t t' e"
  shows "by_time pg jv (t, w_db w) (t', w_db (snd (Process pg cfg h e lid w)))"
  using Process_ends [of pg cfg h e lid w]
proof (elim disjE exE)
  assume "w_db (snd (Process pg cfg h e lid w)) = w_db w"
  then show ?thesis using penv_by_le [OF assms] by (simp add: by_time_refl)
next
  fix i assume en: "ends pg e (snd (ClaimPending pg (pe_claim e) (w_db w) i (VisibilityTimeout cfg)))
          (w_db (snd (Process pg cfg h e lid w)))"
  have "by_time pg jv (t, w_db w) (c_now (pe_claim e), snd (ClaimPending pg (pe_claim e) (w_db w) i (VisibilityTimeout cfg)))"
    using assms by (intro by_time_step [OF claim]) (auto simp: penv_by_def penv_ok_def)
  from by_time_trans [OF this ends_by [OF en assms]] show ?thesis .
qed

section \<open>Requests\<close>

text \<open>The clocks of a request's calls do not run backwards, other writers work through the store between the
  read and the write of an update, and the random bytes give a webhook id the store has not seen.\<close>

definition henv_by :: "pgsql \<Rightarrow> (string \<Rightarrow> bool) \<Rightarrow> time \<Rightarrow> time \<Rightarrow> henv \<Rightarrow> db \<Rightarrow> bool" where
  "henv_by pg jv t t' e d \<longleftrightarrow>
     call_ok pg t (e_call (he_write e)) \<and> c_now (e_call (he_write e)) \<le> t'
     \<and> (\<forall>x. by_time pg jv (t, w_db x) (c_now (e_call (he_write e)), w_db (he_between e x)))
     \<and> call_ok pg t (he_call e) \<and> penv_by pg (c_now (he_call e)) t' (he_process e)
     \<and> (\<forall>bs. he_rand e = Some bs \<longrightarrow> fresh_webhook pg d (NewUUIDv4 bs))"

lemma henv_by_le: "henv_by pg jv t t' e d \<Longrightarrow> t \<le> t'"
  by (auto simp: henv_by_def call_ok_def)

abbreviation db_after :: "bool \<times> api_view rw \<times> world \<Rightarrow> db" where
  "db_after res \<equiv> w_db (snd (snd res))"

lemma State_db:
  "fst (snd (StateCreate cfg e d sub s)) = snd (CreateSub (e_call e) d sub)"
  "fst (snd (StateUpdate pg cfg e d sub s)) = snd (UpdateSub pg (e_call e) d sub)"
  "fst (snd (StateDelete pg cfg e d i s)) = snd (DeleteSub pg (e_call e) d i)"
  "fst (snd (StateRotateSecret pg cfg e d i k s)) = snd (RotateSecretSub pg (e_call e) d i k)"
  by (auto simp: StateCreate_def StateUpdate_def StateDelete_def StateRotateSecret_def split: prod.splits sum.splits)

lemma read_only_db:
  "db_after (handleListSubscriptions opt e r (w, st)) = w_db st" "db_after (handleGetSubscription opt e r (w, st)) = w_db st"
  "db_after (handleListAttempts opt e r (w, st)) = w_db st" "db_after (handleMetricsSummary opt e r (w, st)) = w_db st"
  "db_after (handleWebhookStatus opt e r (w, st)) = w_db st" "db_after (handleMonitor opt e r (w, st)) = w_db st"
  "db_after (external_handler opt r (w, st)) = w_db st" "db_after (no_route opt r (w, st)) = w_db st"
  by (auto simp: handleListSubscriptions_def handleGetSubscription_def handleListAttempts_def handleMetricsSummary_def
      handleWebhookStatus_def handleMonitor_def external_handler_def no_route_def Let_def
      split: prod.splits sum.splits option.splits if_splits)

lemma writing_db:
  "db_after (handleCreateSubscription opt e r (w, st)) = w_db st
     \<or> (\<exists>sub. db_after (handleCreateSubscription opt e r (w, st)) = snd (CreateSub (e_call (he_write e)) (w_db st) sub))"
  "db_after (handleRotateSecret opt e r (w, st)) = w_db st
     \<or> (\<exists>k. db_after (handleRotateSecret opt e r (w, st)) = snd (RotateSecretSub (o_pg opt) (e_call (he_write e)) (w_db st) (pathID r) k))"
  "db_after (handleDeleteSubscription opt e r (w, st)) = snd (DeleteSub (o_pg opt) (e_call (he_write e)) (w_db st) (pathID r))"
  "\<exists>k. db_after (handleReplay opt e r (w, st)) = snd (ReplayDLQ (o_pg opt) (he_call e) (w_db st) (pathID r) k)"
  "\<exists>k. db_after (handleAckDLQ opt e r (w, st)) = snd (AckDLQ (o_pg opt) (he_call e) (w_db st) (pathID r) k)"
proof -
  have c: "d = snd (CreateSub (e_call e') d0 sub)" if "StateCreate cfg e' d0 sub s = (res, d, s')" for cfg e' d0 sub s res d s'
    using State_db(1) [of cfg e' d0 sub s] that by simp
  have r: "d = snd (RotateSecretSub pg (e_call e') d0 i k)" if "StateRotateSecret pg cfg e' d0 i k s = (res, d, s')" for pg cfg e' d0 i k s res d s'
    using State_db(4) [of pg cfg e' d0 i k s] that by simp
  have x: "d = snd (DeleteSub pg (e_call e') d0 i)" if "StateDelete pg cfg e' d0 i s = (res, d, s')" for pg cfg e' d0 i s res d s'
    using State_db(3) [of pg cfg e' d0 i s] that by simp
  show "db_after (handleCreateSubscription opt e r (w, st)) = w_db st
     \<or> (\<exists>sub. db_after (handleCreateSubscription opt e r (w, st)) = snd (CreateSub (e_call (he_write e)) (w_db st) sub))"
    by (auto simp: handleCreateSubscription_def Let_def split: prod.splits sum.splits option.splits dest: c)
  show "db_after (handleRotateSecret opt e r (w, st)) = w_db st
     \<or> (\<exists>k. db_after (handleRotateSecret opt e r (w, st)) = snd (RotateSecretSub (o_pg opt) (e_call (he_write e)) (w_db st) (pathID r) k))"
    by (auto simp: handleRotateSecret_def Let_def split: prod.splits sum.splits option.splits dest: r)
  show "db_after (handleDeleteSubscription opt e r (w, st)) = snd (DeleteSub (o_pg opt) (e_call (he_write e)) (w_db st) (pathID r))"
    by (auto simp: handleDeleteSubscription_def split: prod.splits sum.splits dest: x)
  show "\<exists>k. db_after (handleReplay opt e r (w, st)) = snd (ReplayDLQ (o_pg opt) (he_call e) (w_db st) (pathID r) k)"
    by (intro exI [of _ "PathValue r ''webhook_id''"]) (auto simp: handleReplay_def Let_def split: prod.splits sum.splits if_splits)
  show "\<exists>k. db_after (handleAckDLQ opt e r (w, st)) = snd (AckDLQ (o_pg opt) (he_call e) (w_db st) (pathID r) k)"
    by (intro exI [of _ "PathValue r ''webhook_id''"]) (auto simp: handleAckDLQ_def Let_def split: prod.splits sum.splits if_splits)
qed

lemma update_by:
  assumes "henv_by (o_pg opt) jv t t' e (w_db st)"
  shows "by_time (o_pg opt) jv (t, w_db st) (t', db_after (handleUpdateSubscription opt e r (w, st)))"
proof -
  have u: "d = snd (UpdateSub pg (e_call e') d0 sub)" if "StateUpdate pg cfg e' d0 sub s = (res, d, s')" for pg cfg e' d0 sub s res d s'
    using State_db(2) [of pg cfg e' d0 sub s] that by simp
  obtain res s1 where g: "StateGetByID (o_pg opt) (sub_cfg opt) (he_get e) (w_db st) (pathID r) (w_sub st) = (res, s1)" by fastforce
  have "db_after (handleUpdateSubscription opt e r (w, st)) = w_db st
      \<or> (\<exists>sub. db_after (handleUpdateSubscription opt e r (w, st))
            = snd (UpdateSub (o_pg opt) (e_call (he_write e)) (w_db (he_between e (st\<lparr>w_sub := s1\<rparr>))) sub))"
    using g by (auto simp: handleUpdateSubscription_def Let_def split: prod.splits sum.splits option.splits dest!: u)
  then show ?thesis
  proof (elim disjE exE)
    fix sub
    let ?cw = "c_now (e_call (he_write e))" and ?x = "st\<lparr>w_sub := s1\<rparr>"
    assume x: "db_after (handleUpdateSubscription opt e r (w, st)) = snd (UpdateSub (o_pg opt) (e_call (he_write e)) (w_db (he_between e ?x)) sub)"
    have "by_time (o_pg opt) jv (t, w_db ?x) (?cw, w_db (he_between e ?x))" using assms unfolding henv_by_def by blast
    then have "by_time (o_pg opt) jv (t, w_db st) (?cw, w_db (he_between e ?x))" by simp
    moreover have "by_time (o_pg opt) jv (?cw, w_db (he_between e ?x)) (t', db_after (handleUpdateSubscription opt e r (w, st)))"
      unfolding x using assms by (intro by_time_call) (auto simp: henv_by_def call_ok_def)
    ultimately show ?thesis by (rule by_time_trans)
  qed (use henv_by_le [OF assms] in \<open>simp add: by_time_refl\<close>)
qed

lemma ingest_event_by:
  assumes "henv_by (o_pg opt) (o_json_valid opt) t t' e (w_db st)" and "he_rand e = Some bs"
  shows "by_time (o_pg opt) (o_json_valid opt) (t, w_db st) (t', db_after (ingest_event opt e sub key (NewUUIDv4 bs) body et w st))"
proof -
  let ?p = "\<lparr>P_SubscriptionID = S_ID sub, P_IdempotencyKey = key, P_WebhookID = NewUUIDv4 bs, P_TargetURL = S_TargetURL sub,
      P_Payload = body, P_EventType = et\<rparr>"
  let ?run = "by_time (o_pg opt) (o_json_valid opt)"
  obtain res d where i: "IngestPending (o_json_valid opt) (o_pg opt) (he_call e) (w_db st) ?p = (res, d)" by fastforce
  have pe: "penv_by (o_pg opt) (c_now (he_call e)) t' (he_process e)" using assms(1) by (simp add: henv_by_def)
  have "?run (t, w_db st) (c_now (he_call e), snd (IngestPending (o_json_valid opt) (o_pg opt) (he_call e) (w_db st) ?p))"
    using assms by (intro by_time_step [OF ingest]) (auto simp: henv_by_def)
  then have one: "?run (t, w_db st) (c_now (he_call e), d)" using i by simp
  have "db_after (ingest_event opt e sub key (NewUUIDv4 bs) body et w st) = d
      \<or> (\<exists>lid. db_after (ingest_event opt e sub key (NewUUIDv4 bs) body et w st)
            = w_db (snd (Process (o_pg opt) (o_dcfg opt) (o_http opt) (he_process e) lid (st\<lparr>w_db := d\<rparr>))))"
    using i by (auto simp: ingest_event_def Let_def split: sum.splits prod.splits if_splits) (metis snd_conv)+
  then show ?thesis
  proof (elim disjE exE)
    fix lid
    assume "db_after (ingest_event opt e sub key (NewUUIDv4 bs) body et w st)
        = w_db (snd (Process (o_pg opt) (o_dcfg opt) (o_http opt) (he_process e) lid (st\<lparr>w_db := d\<rparr>)))"
    then show ?thesis using by_time_trans [OF one] Process_by [OF pe, of "o_json_valid opt" "st\<lparr>w_db := d\<rparr>"] by simp
  qed (use by_time_later [OF one penv_by_le [OF pe]] in simp)
qed

lemma ingest_by:
  assumes "henv_by (o_pg opt) (o_json_valid opt) t t' e (w_db st)"
  shows "by_time (o_pg opt) (o_json_valid opt) (t, w_db st) (t', db_after (handleIngest opt e r (w, st)))"
proof -
  obtain p w' st' where h: "handleIngest opt e r (w, st) = (p, w', st')" using prod_cases3 by blast
  then have "w_db st' = w_db st \<or> (\<exists>bs sub key body et w1 s. he_rand e = Some bs
      \<and> w_db st' = db_after (ingest_event opt e sub key (NewUUIDv4 bs) body et w1 (st\<lparr>w_sub := s\<rparr>)))"
  proof (cases rule: handleIngest_cases)
    case (admitted sub s1 body)
    then show ?thesis
      by (auto simp: ingest_admitted_def Let_def split: sum.splits if_splits option.splits prod.splits) (metis snd_conv)+
  qed (simp add: untouched_def)
  then show ?thesis
  proof (elim disjE exE conjE)
    fix bs sub key body et w1 s
    assume a: "he_rand e = Some bs" "w_db st' = db_after (ingest_event opt e sub key (NewUUIDv4 bs) body et w1 (st\<lparr>w_sub := s\<rparr>))"
    then show ?thesis using ingest_event_by [of opt t t' e "st\<lparr>w_sub := s\<rparr>" bs] assms h by simp
  qed (use henv_by_le [OF assms] h in \<open>simp add: by_time_refl\<close>)
qed

lemma serve_by:
  assumes "henv_by (o_pg opt) (o_json_valid opt) t t' e (w_db st)"
  shows "by_time (o_pg opt) (o_json_valid opt) (t, w_db st) (t', db_after (serve opt e ep r (w, st)))"
proof -
  have le: "t \<le> t'" by (rule henv_by_le [OF assms])
  have ok: "call_ok (o_pg opt) t (e_call (he_write e))" "c_now (e_call (he_write e)) \<le> t'" "call_ok (o_pg opt) t (he_call e)" "c_now (he_call e) \<le> t'"
    using assms penv_by_le by (auto simp: henv_by_def)
  note calls = by_time_call [OF ok(1,2)] by_time_call [OF ok(3,4)]
  show ?thesis
  proof (cases ep)
    case CreateSubscription
    then show ?thesis using writing_db(1) [of opt e r w st] le calls by (auto simp: serve_def by_time_refl)
  next
    case RotateSecret
    then show ?thesis using writing_db(2) [of opt e r w st] le calls by (auto simp: serve_def by_time_refl)
  next
    case DeleteSubscription
    then show ?thesis using writing_db(3) [of opt e r w st] calls by (simp add: serve_def)
  next
    case Replay
    then show ?thesis using writing_db(4) [of opt e r w st] calls by (auto simp: serve_def)
  next
    case AckDLQEntry
    then show ?thesis using writing_db(5) [of opt e r w st] calls by (auto simp: serve_def)
  next
    case UpdateSubscription
    then show ?thesis using update_by [OF assms] by (simp add: serve_def)
  next
    case Ingest
    then show ?thesis using ingest_by [OF assms] by (simp add: serve_def)
  qed (use le public_handlers_read_only [of ep opt e r "(w, st)"] in \<open>simp_all add: serve_def read_only_db by_time_refl\<close>)
qed

text \<open>Around the handlers nothing touches the state.\<close>

lemma mux_serves:
  "db_after (mux opt e r (w, st)) = w_db st \<or> (\<exists>ep r' w'. db_after (mux opt e r (w, st)) = db_after (serve opt e ep r' (w', st)))"
proof (cases "find_route opt r")
  case (Some rt)
  then show ?thesis
    by (auto simp: mux_def Let_def admin_def adminAuthMiddleware_def split: if_splits)
qed (simp add: mux_def read_only_db)

definition passes :: "api_handler \<Rightarrow> api_handler \<Rightarrow> bool" where
  "passes h h' \<longleftrightarrow> (\<forall>r w st. db_after (h' r (w, st)) = w_db st \<or> (\<exists>r' w'. db_after (h' r (w, st)) = db_after (h r' (w', st))))"

lemma passes_trans: "passes h h1 \<Longrightarrow> passes h1 h2 \<Longrightarrow> passes h h2"
  unfolding passes_def by metis

lemma passes_request_id: "passes h (requestIDMiddleware rnd h)"
  by (auto simp: passes_def requestIDMiddleware_def Let_def split: option.splits)

lemma passes_cors: "passes h (corsMiddleware origins h)"
  by (auto simp: passes_def corsMiddleware_def Let_def)

lemma passes_max_bytes: "passes h (maxBytesMiddleware n h)"
  by (auto simp: passes_def maxBytesMiddleware_def)

lemma passes_logging: "passes h (loggingMiddleware h)"
  unfolding passes_def
proof (intro allI disjI2)
  fix r w st
  obtain p w2 st2 where h: "h r (w\<lparr>rw_rec := Some (200, False)\<rparr>, st) = (p, w2, st2)" using prod_cases3 by blast
  then have "db_after (loggingMiddleware h r (w, st)) = w_db st2" by (cases p) (simp_all add: loggingMiddleware_def)
  with h show "\<exists>r' w'. db_after (loggingMiddleware h r (w, st)) = db_after (h r' (w', st))" by (metis snd_conv)
qed

lemma passes_recovery: "passes h (recoveryMiddleware h)"
  unfolding passes_def
proof (intro allI disjI2)
  fix r w st
  obtain p w2 st2 where h: "h r (w, st) = (p, w2, st2)" using prod_cases3 by blast
  then have "db_after (recoveryMiddleware h r (w, st)) = w_db st2" by (cases p) (auto simp: recoveryMiddleware_def)
  with h show "\<exists>r' w'. db_after (recoveryMiddleware h r (w, st)) = db_after (h r' (w', st))" by (metis snd_conv)
qed

lemma Handler_passes: "passes (mux opt e) (Handler opt e)"
  unfolding Handler_def chain_def
  by (simp, intro passes_trans [OF _ passes_request_id] passes_trans [OF _ passes_logging] passes_trans [OF _ passes_recovery]
      passes_trans [OF _ passes_cors] passes_max_bytes)

lemma Handler_serves:
  "db_after (Handler opt e r (w, st)) = w_db st \<or> (\<exists>ep r' w'. db_after (Handler opt e r (w, st)) = db_after (serve opt e ep r' (w', st)))"
  using Handler_passes [of opt e] mux_serves unfolding passes_def by metis

lemma Handler_by:
  assumes "henv_by (o_pg opt) (o_json_valid opt) t t' e (w_db st)"
  shows "by_time (o_pg opt) (o_json_valid opt) (t, w_db st) (t', db_after (Handler opt e r (w, st)))"
  using Handler_serves [of opt e r w st] serve_by [OF assms] by_time_refl [OF henv_by_le [OF assms]] by metis

section \<open>Background workers\<close>

text \<open>\<open>T k\<close> is a time by which the writers that interfere with a scan have finished before its page \<open>k\<close>.\<close>

definition pages_by :: "pgsql \<Rightarrow> (string \<Rightarrow> bool) \<Rightarrow> (nat \<Rightarrow> time) \<Rightarrow> scan_env \<Rightarrow> bool" where
  "pages_by pg jv T e \<longleftrightarrow> (\<forall>k d. by_time pg jv (T k, d) (T (Suc k), sc_other e k d)) \<and> (\<forall>k. call_ok pg (T k) (sc_rearm e 0))"

definition rearms_by :: "pgsql \<Rightarrow> time \<Rightarrow> scan_env \<Rightarrow> bool" where
  "rearms_by pg t' e \<longleftrightarrow> (\<forall>k. call_ok pg (c_now (sc_rearm e k)) (sc_rearm e (Suc k)) \<and> c_now (sc_rearm e k) \<le> t')"

fun loop_db :: "(db \<times> nat \<times> redis) loop_end \<Rightarrow> db option" where
  "loop_db (Finished s) = Some (fst s)"
| "loop_db (Aborted s) = Some (fst s)"
| "loop_db Panicked = None"

lemma find_loop_by:
  assumes "find_loop w e k after d s = Some y"
  shows "pages_by pg jv T e \<longrightarrow> (\<forall>d'. loop_db y = Some d' \<longrightarrow> (\<exists>m. by_time pg jv (T k, d) (T m, d')))"
  apply (rule find_loop.raw_induct [where P = "\<lambda>w e k after d s y. pages_by pg jv T e \<longrightarrow>
    (\<forall>d'. loop_db y = Some d' \<longrightarrow> (\<exists>m. by_time pg jv (T k, d) (T m, d')))", OF _ assms], intro impI allI)
  subgoal premises prems for rec w e k after d s y d'
  proof -
    have one: "by_time pg jv (T k, d) (T (Suc k), sc_other e k d)" using prems(3) by (simp add: pages_by_def)
    have "y = Aborted (sc_other e k d, s) \<or> (\<exists>s'. y = Finished (sc_other e k d, s')) \<or> y = Panicked
        \<or> (\<exists>after' s'. rec w e (k + 1) after' (sc_other e k d) s' = Some y)"
      using prems(2) by (auto simp: Let_def simp del: split_paired_Ex split_paired_All split: sum.splits if_splits)
    then show ?thesis
    proof (elim disjE exE)
      fix after' s' assume "rec w e (k + 1) after' (sc_other e k d) s' = Some y"
      from prems(1) [OF this] prems(3,4) obtain m where "by_time pg jv (T (k + 1), sc_other e k d) (T m, d')" by blast
      then show ?thesis using by_time_trans [OF one] by auto
    qed (use one prems(4) in auto)
  qed
  done

lemma rearm_loop_by:
  assumes "rearm_loop w e k d s = Some y"
  shows "rearms_by pg t' e \<longrightarrow> (\<forall>d' u. loop_db y = Some d' \<longrightarrow> call_ok pg u (sc_rearm e k) \<longrightarrow> by_time pg jv (u, d) (t', d'))"
  apply (rule rearm_loop.raw_induct [where P = "\<lambda>w e k d s y. rearms_by pg t' e \<longrightarrow>
    (\<forall>d' u. loop_db y = Some d' \<longrightarrow> call_ok pg u (sc_rearm e k) \<longrightarrow> by_time pg jv (u, d) (t', d'))", OF _ assms], intro impI allI)
  subgoal premises prems for rec w e k d s y d' u
  proof -
    let ?c = "sc_rearm e k"
    obtain res d1 where r: "RearmLeaseLessPending ?c (sc_locked e k) d (rw_batch w) (rw_orphanThreshold w) = (res, d1)" by fastforce
    have le: "c_now ?c \<le> t'" and next_ok: "call_ok pg (c_now ?c) (sc_rearm e (Suc k))" using prems(3) by (simp_all add: rearms_by_def)
    have "by_time pg jv (u, d) (c_now ?c, snd (RearmLeaseLessPending ?c (sc_locked e k) d (rw_batch w) (rw_orphanThreshold w)))"
      using prems(5) by (intro by_time_step [OF rearm]) simp_all
    then have one: "by_time pg jv (u, d) (c_now ?c, d1)" using r by simp
    have "loop_db y = Some d1 \<or> (\<exists>s'. rec w e (Suc k) d1 s' = Some y)"
      using prems(2) r by (auto simp: Let_def simp del: split_paired_Ex split_paired_All split: sum.splits if_splits)
    then show ?thesis
    proof (elim disjE exE)
      fix s' assume "rec w e (Suc k) d1 s' = Some y"
      from prems(1) [OF this] prems(3,4) next_ok have "by_time pg jv (c_now ?c, d1) (t', d')" by blast
      then show ?thesis by (rule by_time_trans [OF one])
    qed (use by_time_later [OF one le] prems(4) in simp)
  qed
  done

definition scan_by :: "pgsql \<Rightarrow> (string \<Rightarrow> bool) \<Rightarrow> time \<Rightarrow> time \<Rightarrow> scan_env \<Rightarrow> bool" where
  "scan_by pg jv t t' e \<longleftrightarrow> (\<exists>T. T 0 = t \<and> pages_by pg jv T e) \<and> rearms_by pg t' e"

lemma scan_tick_by:
  assumes "scan_by pg jv t t' e" and "scan_tick w e (Some (d, r)) = Some (d', r')"
  shows "by_time pg jv (t, d) (t', d')"
proof -
  obtain T where T: "T 0 = t" "pages_by pg jv T e" and re: "rearms_by pg t' e" using assms(1) by (auto simp: scan_by_def)
  from assms(2) obtain y where y: "scan w e d r = Some y" "loop_db y = Some d'"
    by (auto simp: scan_tick_def split: option.splits loop_end.splits)
  then obtain x where x: "find_loop w e 0 None d (0, r) = Some x" by (auto simp: scan_def split: option.splits)
  have last: "by_time pg jv (T m, d1) (t', d1)" for m d1
    using T(2) re by (intro by_time_refl) (auto simp: pages_by_def rearms_by_def call_ok_def intro: order_trans)
  have "(\<exists>d1 s1. x = Finished (d1, s1) \<and> rearm_loop w e 0 d1 s1 = Some y) \<or> y = x"
    using x y by (auto simp: scan_def split: loop_end.splits)
  then show ?thesis
  proof (elim disjE exE conjE)
    fix d1 s1 assume a: "x = Finished (d1, s1)" "rearm_loop w e 0 d1 s1 = Some y"
    from find_loop_by [OF x, of pg jv T] a T obtain m where m: "by_time pg jv (t, d) (T m, d1)" by auto
    have "by_time pg jv (T m, d1) (t', d')"
      using rearm_loop_by [OF a(2), of pg t' jv] re y(2) T(2) by (simp add: pages_by_def)
    then show ?thesis by (rule by_time_trans [OF m])
  next
    assume "y = x"
    with find_loop_by [OF x, of pg jv T] y(2) T obtain m where "by_time pg jv (t, d) (T m, d')" by auto
    then show ?thesis using last by (rule by_time_trans)
  qed
qed

lemma cleanup_by:
  assumes "call_ok pg t c1" and "call_ok pg (c_now c1) c2" and "c_now c2 \<le> t'"
  shows "by_time pg jv (t, d) (t', cleanup w c1 c2 d)"
proof -
  let ?d1 = "snd (DeleteExpired c1 d (cw_retention w))"
  have one: "by_time pg jv (t, d) (c_now c1, ?d1)" using assms(1) by (intro by_time_step [OF expire]) simp_all
  have "by_time pg jv (c_now c1, ?d1) (t', snd (PruneIdempotency c2 ?d1 (cw_idempotencyTTL w)))"
    using assms(2,3) by (intro by_time_step [OF prune])
  with one have "by_time pg jv (t, d) (t', snd (PruneIdempotency c2 ?d1 (cw_idempotencyTTL w)))" by (rule by_time_trans)
  moreover have "by_time pg jv (t, d) (t', ?d1)" using one assms(2,3) by (auto simp: call_ok_def intro: by_time_later)
  moreover have "cleanup w c1 c2 d = ?d1 \<or> cleanup w c1 c2 d = snd (PruneIdempotency c2 ?d1 (cw_idempotencyTTL w))"
    by (auto simp: cleanup_def split: prod.splits sum.splits)
  ultimately show ?thesis by auto
qed

lemma reconcile_by:
  assumes "call_ok pg t (re_force e)" and "\<And>d. by_time pg jv (c_now (re_force e), d) (t', re_other e d)" and "c_now (re_force e) \<le> t'"
    and "reconcile pg maxAge e d r = (d', r')"
  shows "by_time pg jv (t, d) (t', d')"
proof -
  let ?d1 = "snd (ForceAckOldDLQ (re_force e) d maxAge)"
  have one: "by_time pg jv (t, d) (c_now (re_force e), ?d1)" using assms(1) by (intro by_time_step [OF force_ack]) simp_all
  have "d' = ?d1 \<or> d' = re_other e ?d1"
    using assms(4) by (auto simp: reconcile_def Let_def split: prod.splits sum.splits)
  then show ?thesis using by_time_later [OF one assms(3)] by_time_trans [OF one assms(2)] by auto
qed

section \<open>The service\<close>

text \<open>\<open>lost\<close> covers the poller, the consumers of the queue, and any loss or corruption of what Redis holds.\<close>

inductive service_step :: "Config \<Rightarrow> Options \<Rightarrow> time \<times> world \<Rightarrow> time \<times> world \<Rightarrow> bool" for c ext where
  request: "henv_by (o_pg ext) (o_json_valid ext) t t' e (w_db st) \<Longrightarrow>
    service_step c ext (t, st) (t', snd (snd (Handler (server_options c ext) e r (new_rw, st))))"
| task: "penv_by (o_pg ext) t t' pe \<Longrightarrow>
    service_step c ext (t, st) (t', snd (Process (o_pg ext) (deliverer_config c) (o_http ext) pe lid st))"
| recover: "scan_by (o_pg ext) (o_json_valid ext) t t' sc \<Longrightarrow>
    scan_tick (recovery_worker c) sc (Some (w_db st, w_redis st)) = Some (d', red) \<Longrightarrow>
    service_step c ext (t, st) (t', st\<lparr>w_db := d', w_redis := red\<rparr>)"
| clean: "call_ok (o_pg ext) t c1 \<Longrightarrow> call_ok (o_pg ext) (c_now c1) c2 \<Longrightarrow> c_now c2 \<le> t' \<Longrightarrow>
    service_step c ext (t, st) (t', st\<lparr>w_db := cleanup (cleanup_worker c) c1 c2 (w_db st)\<rparr>)"
| reconciled: "call_ok (o_pg ext) t (re_force re) \<Longrightarrow> (\<And>d. by_time (o_pg ext) (o_json_valid ext) (c_now (re_force re), d) (t', re_other re d)) \<Longrightarrow>
    c_now (re_force re) \<le> t' \<Longrightarrow> reconcile (o_pg ext) (cDLQMaxAge c) re (w_db st) (w_redis st) = (d', red) \<Longrightarrow>
    service_step c ext (t, st) (t', st\<lparr>w_db := d', w_redis := red\<rparr>)"
| lost: "t \<le> t' \<Longrightarrow> service_step c ext (t, st) (t', st\<lparr>w_redis := red\<rparr>)"
| swept: "t \<le> t' \<Longrightarrow> sweep_tick now (w_sub st, w_breakers st) = (s, b) \<Longrightarrow>
    service_step c ext (t, st) (t', st\<lparr>w_sub := s, w_breakers := b\<rparr>)"
| restart: "t \<le> t' \<Longrightarrow> service_step c ext (t, st) (t', boot_world c now (w_db st) red)"

lemma service_step_by:
  assumes "service_step c ext (t, st) (t', st')"
  shows "by_time (o_pg ext) (o_json_valid ext) (t, w_db st) (t', w_db st')"
  using assms
proof cases
  case (request e r)
  then show ?thesis
    using Handler_by [of "server_options c ext" t t' e st r new_rw] by (simp add: server_options_def)
next
  case (recover sc d' red)
  then show ?thesis using scan_tick_by by simp
next
  case (reconciled re d' red)
  then show ?thesis using reconcile_by [OF reconciled(2-5)] by simp
next
  case (clean c1 c2)
  then show ?thesis using cleanup_by by simp
qed (simp_all add: Process_by by_time_refl boot_world_def)

lemma service_run_by:
  assumes "(service_step c ext)\<^sup>*\<^sup>* s s'"
  shows "by_time (o_pg ext) (o_json_valid ext) (fst s, w_db (snd s)) (fst s', w_db (snd s'))"
  using assms
proof induction
  case base
  then show ?case by (simp add: by_time_refl)
next
  case (step y z)
  then have "by_time (o_pg ext) (o_json_valid ext) (fst y, w_db (snd y)) (fst z, w_db (snd z))"
    using service_step_by [of c ext "fst y" "snd y" "fst z" "snd z"] by simp
  with step.IH show ?case by (rule by_time_trans)
qed

lemma by_time_inv:
  assumes "by_time pg jv (t, d) (t', d')" and "pg_ok pg" and "db_inv pg t d"
  shows "db_inv pg t' d'"
proof -
  from assms(1) obtain u where u: "u \<le> t'" "(db_step pg jv)\<^sup>*\<^sup>* (t, d) (u, d')" by (auto simp: by_time_def)
  have "db_inv pg u d'" using store.run_pres [OF u(2)] assms(2,3) by (simp add: store_inv_def)
  then show ?thesis using u(1) by (rule db_inv_mono)
qed

text \<open>C7. The service is a user of the store: for every history of requests, deliveries, scans, retention,
  reconciliation, sweeps and restarts, with every fault their environments allow and whatever happens to
  Redis, the database moves by repository calls only. So the invariant of the store holds throughout, and
  the last attempt of every event is pending, delivered or a final failure.\<close>

theorem service_is_store_run:
  assumes "(service_step c ext)\<^sup>*\<^sup>* (t0, st0) (t, st)"
  shows "(\<exists>u \<le> t. (db_step (o_pg ext) (o_json_valid ext))\<^sup>*\<^sup>* (t0, w_db st0) (u, w_db st))
    \<and> (pg_ok (o_pg ext) \<and> db_inv (o_pg ext) t0 (w_db st0) \<longrightarrow> db_inv (o_pg ext) t (w_db st)
        \<and> (\<forall>r \<in> set (delivery_logs (w_db st)). \<exists>l \<in> set (delivery_logs (w_db st)). d_webhook_id l = d_webhook_id r
             \<and> d_status l \<noteq> StatusFailedAttempt
             \<and> (\<forall>r' \<in> set (delivery_logs (w_db st)). d_webhook_id r' = d_webhook_id r \<longrightarrow> pos r' \<le> pos l)))"
proof -
  have b: "by_time (o_pg ext) (o_json_valid ext) (t0, w_db st0) (t, w_db st)" using service_run_by [OF assms] by simp
  then show ?thesis using by_time_inv [OF b] last_not_failed by (auto simp: by_time_def)
qed

lemma demo_penv_by: "penv_by plain_pg 3 6 demo_penv"
  using demo_penv_ok by (simp add: penv_by_def demo_penv_def Let_def)

theorem service_is_store_run_witness:
  "db_inv plain_pg 9 (w_db (boot_world demo_conf 9
      (w_db (snd (Process plain_pg (deliverer_config demo_conf) (o_http (demo_opts [])) demo_penv ''b'' demo_world))) empty_redis))"
proof -
  let ?e = "demo_opts []"
  let ?st = "snd (Process plain_pg (deliverer_config demo_conf) (o_http ?e) demo_penv ''b'' demo_world)"
  have o: "o_pg ?e = plain_pg" by (simp add: demo_opts_def)
  have "service_step demo_conf ?e (3, demo_world) (6, ?st)"
    using task [of ?e 3 6 demo_penv demo_conf demo_world "''b''"] demo_penv_by by (simp add: o)
  moreover have "service_step demo_conf ?e (6, ?st) (9, boot_world demo_conf 9 (w_db ?st) empty_redis)" by (rule restart) simp
  ultimately have "(service_step demo_conf ?e)\<^sup>*\<^sup>* (3, demo_world) (9, boot_world demo_conf 9 (w_db ?st) empty_redis)" by simp
  from service_is_store_run [OF this] show ?thesis using plain_pg_ok demo_inv by (simp add: o demo_world_def)
qed

end
