(* ===== verification/Workers.thy ===== *)
theory Workers
  imports Delivery_Outcomes
begin

text \<open>
  \<^verbatim>\<open>Deliverer.Process\<close> as a goroutine: the same code cut between its uses of the state it shares with others, the
  database, the subscription boundary, registries, semaphores, breakers and metrics
  (\<^verbatim>\<open>internal/worker/delivery.go\<close>). A Redis write that follows a repository call is part of that call's step, and
  the HTTP exchange, which touches nothing shared, is one step. A \<open>worker\<close> is the point a goroutine has reached with the local
  variables that are live there; \<open>wstep\<close> is what it does next to the shared state. Result: a goroutine that
  runs alone does exactly what \<open>Process\<close> does, and one that runs among others returns after at most
  eleven steps of its own.
\<close>

section \<open>Points of a goroutine\<close>

text \<open>Arguments: the attempt, its subscription, the permit's semaphore, the breaker and its token, and the
  outcome of the request (status, detail, latency).\<close>

datatype worker =
    Start string
  | Loaded DeliveryLog
  | Refused DeliveryLog
  | Leased DeliveryLog
  | Dropping DeliveryLog
  | Checked DeliveryLog Subscription
  | Seated DeliveryLog Subscription nat
  | Crowded DeliveryLog
  | Permitted DeliveryLog Subscription nat
  | Wired DeliveryLog Subscription nat nat
  | Denied DeliveryLog nat
  | Admitted DeliveryLog Subscription nat nat int
  | Flying DeliveryLog Subscription nat nat int "int option" string duration
  | Reporting DeliveryLog Subscription nat "int option" string
  | Releasing nat "unit result"
  | Over "unit result"

fun wstep :: "pgsql \<Rightarrow> DelivererConfig \<Rightarrow> http_env \<Rightarrow> penv \<Rightarrow> worker \<Rightarrow> world \<Rightarrow> worker \<times> world" where
  "wstep pg cfg h e (Start lid) w =
     (case GetLogByID pg (pe_load e) (w_db w) lid of
        Inl err \<Rightarrow> (Over (if err = ErrNotFound then Inr () else Inl (ErrOther ''deliver: load log'')), w)
      | Inr lg \<Rightarrow> (if D_Status lg \<noteq> StatusPending then Over (Inr ()) else Loaded lg, w))"
| "wstep pg cfg h e (Loaded lg) w =
     (case ClaimPending pg (pe_claim e) (w_db w) (D_ID lg) (VisibilityTimeout cfg) of
        (Inl err, d) \<Rightarrow> (Over (Inl (ErrOther ''deliver: claim'')), w\<lparr>w_db := d\<rparr>)
      | (Inr claimed, d) \<Rightarrow> (if \<not> claimed then Refused lg else Leased lg, w\<lparr>w_db := d\<rparr>))"
| "wstep pg cfg h e (Refused lg) w = (Over (Inr ()), rescheduleIfNotDue pg e (D_ID lg) w)"
| "wstep pg cfg h e (Leased lg) w =
     (case StateGetByID pg (SubCfg cfg) (pe_sub e) (w_db w) (D_SubscriptionID lg) (w_sub w) of
        (Inl err, s) \<Rightarrow> (Over (if err = ErrNotFound then Inr () else Inl (ErrOther ''deliver: load subscription'')), w\<lparr>w_sub := s\<rparr>)
      | (Inr sub, s) \<Rightarrow> (if \<not> S_IsActive sub then Dropping lg else Checked lg sub, w\<lparr>w_sub := s\<rparr>))"
| "wstep pg cfg h e (Dropping lg) w =
     (case MarkDropped pg (pe_drop e) (w_db w) (D_ID lg) ''subscription deactivated'' of
        (Inl err, d) \<Rightarrow> (Over (Inl (ErrOther ''deliver: mark deactivated'')), w\<lparr>w_db := d\<rparr>)
      | (Inr _, d) \<Rightarrow> (Over (Inr ()), w\<lparr>w_db := d\<rparr>))"
| "wstep pg cfg h e (Checked lg sub) w = (case semFor cfg (pe_sem_now e) (S_ID sub) w of (p, w1) \<Rightarrow> (Seated lg sub p, w1))"
| "wstep pg cfg h e (Seated lg sub p) w =
     (case TryAcquire (sem_heap (w_sub w) ! p) of
        (False, _) \<Rightarrow> (Crowded lg, w)
      | (True, sem) \<Rightarrow> (Permitted lg sub p, set_sem p sem w))"
| "wstep pg cfg h e (Crowded lg) w = (Over (Inr ()), rescheduleNoAttempt pg e (D_ID lg) (pe_now e + concurrencyBackoff) w)"
| "wstep pg cfg h e (Permitted lg sub p) w = (case breakerFor cfg (pe_reg_now e) (D_TargetURL lg) w of (q, w1) \<Rightarrow> (Wired lg sub p q, w1))"
| "wstep pg cfg h e (Wired lg sub p q) w =
     (case AllowCB (pe_cb_now e) (w_cbs w ! q) of
        ((False, _), cb) \<Rightarrow> (Denied lg p, set_cb q cb w)
      | ((True, token), cb) \<Rightarrow> (Admitted lg sub p q token, set_cb q cb w))"
| "wstep pg cfg h e (Denied lg p) w =
     (Releasing p (Inr ()), rescheduleNoAttempt pg e (D_ID lg) (pe_now e + DBreakerResetTimeout cfg) w)"
| "wstep pg cfg h e (Admitted lg sub p q token) w =
     (case attempt h e lg sub of (st, errDetail, latency, sent) \<Rightarrow>
        (Flying lg sub p q token st errDetail latency, w\<lparr>w_sent := (case sent of None \<Rightarrow> w_sent w | Some r \<Rightarrow> r # w_sent w)\<rparr>))"
| "wstep pg cfg h e (Flying lg sub p q token st errDetail latency) w =
     (let ok = is_success st; w1 = w\<lparr>w_metrics := RecordDelivery latency ok (w_metrics w)\<rparr>
      in (Reporting lg sub p st errDetail,
          if ok then set_cb q (RecordSuccess token (w_cbs w1 ! q)) w1
          else set_cb q (RecordFailure (pe_record_now e) token (w_cbs w1 ! q)) w1))"
| "wstep pg cfg h e (Reporting lg sub p st errDetail) w =
     (if is_success st then
        (case RecordDeliverySuccess pg (SubCfg cfg) (pe_finish e) (w_db w) (D_ID lg) (S_ID sub) (the st) (w_sub w) of
           (Inl err, d, s) \<Rightarrow> (Releasing p (Inl (ErrOther ''deliver: mark success'')), w\<lparr>w_db := d, w_sub := s\<rparr>)
         | (Inr _, d, s) \<Rightarrow> (Releasing p (Inr ()), w\<lparr>w_db := d, w_sub := s\<rparr>))
      else (case handleFailure pg cfg e lg st errDetail w of (res, w1) \<Rightarrow> (Releasing p res, w1)))"
| "wstep pg cfg h e (Releasing p res) w = (Over res, release_sem p w)"
| "wstep pg cfg h e (Over res) w = (Over res, w)"

section \<open>A goroutine returns\<close>

fun steps_left :: "worker \<Rightarrow> nat" where
  "steps_left (Start _) = 11"
| "steps_left (Loaded _) = 10"
| "steps_left (Refused _) = 1"
| "steps_left (Leased _) = 9"
| "steps_left (Dropping _) = 1"
| "steps_left (Checked _ _) = 8"
| "steps_left (Seated _ _ _) = 7"
| "steps_left (Crowded _) = 1"
| "steps_left (Permitted _ _ _) = 6"
| "steps_left (Wired _ _ _ _) = 5"
| "steps_left (Denied _ _) = 2"
| "steps_left (Admitted _ _ _ _ _) = 4"
| "steps_left (Flying _ _ _ _ _ _ _ _) = 3"
| "steps_left (Reporting _ _ _ _ _) = 2"
| "steps_left (Releasing _ _) = 1"
| "steps_left (Over _) = 0"

lemma wstep_progress: "steps_left k \<noteq> 0 \<Longrightarrow> steps_left (fst (wstep pg cfg h e k w)) < steps_left k"
  by (cases k) (auto simp: Let_def split: sum.splits prod.splits bool.splits if_splits)

fun result_of :: "worker \<Rightarrow> unit result" where
  "result_of (Over res) = res"
| "result_of _ = Inr ()"

function complete :: "pgsql \<Rightarrow> DelivererConfig \<Rightarrow> http_env \<Rightarrow> penv \<Rightarrow> worker \<Rightarrow> world \<Rightarrow> unit result \<times> world" where
  "complete pg cfg h e k w =
     (if steps_left k = 0 then (result_of k, w)
      else case wstep pg cfg h e k w of (k', w') \<Rightarrow> complete pg cfg h e k' w')"
  by pat_completeness auto
termination
  by (relation "measure (\<lambda>(pg, cfg, h, e, k, w). steps_left k)")
    (simp, metis wstep_progress case_prod_conv fst_conv in_measure)

declare complete.simps [simp del]

lemma complete_Over [simp]: "complete pg cfg h e (Over res) w = (res, w)"
  by (subst complete.simps) simp

lemma complete_step: "steps_left k \<noteq> 0 \<Longrightarrow> complete pg cfg h e k w = case_prod (complete pg cfg h e) (wstep pg cfg h e k w)"
  by (subst complete.simps) simp

lemmas complete_ends = complete_step [where k = "Reporting lg sub p st err"] complete_step [where k = "Releasing p res"]
  for lg sub p st err res

lemmas complete_controls = complete_step [where k = "Checked lg sub"] complete_step [where k = "Seated lg sub p"]
  complete_step [where k = "Crowded lg"] complete_step [where k = "Permitted lg sub p"] complete_step [where k = "Wired lg sub p q"]
  complete_step [where k = "Denied lg p"] complete_step [where k = "Releasing p res"]
  for lg sub p q res

lemmas complete_claims = complete_step [where k = "Start lid"] complete_step [where k = "Loaded lg"] complete_step [where k = "Refused lg"]
  complete_step [where k = "Leased lg"] complete_step [where k = "Dropping lg"]
  for lid lg

lemma complete_Reporting:
  "complete pg cfg h e (Reporting lg sub p st errDetail) w =
     (if is_success st then
        (case RecordDeliverySuccess pg (SubCfg cfg) (pe_finish e) (w_db w) (D_ID lg) (S_ID sub) (the st) (w_sub w) of
           (Inl err, d, s) \<Rightarrow> (Inl (ErrOther ''deliver: mark success''), release_sem p (w\<lparr>w_db := d, w_sub := s\<rparr>))
         | (Inr _, d, s) \<Rightarrow> (Inr (), release_sem p (w\<lparr>w_db := d, w_sub := s\<rparr>)))
      else (case handleFailure pg cfg e lg st errDetail w of (res, w1) \<Rightarrow> (res, release_sem p w1)))"
  by (auto simp: complete_ends split: prod.splits sum.splits)

lemma complete_Admitted:
  "complete pg cfg h e (Admitted lg sub p q token) w = map_prod id (release_sem p) (deliver pg cfg h e lg sub q token w)"
proof -
  obtain st err lat sent where a: "attempt h e lg sub = (st, err, lat, sent)" by (cases "attempt h e lg sub") auto
  have "complete pg cfg h e (Admitted lg sub p q token) w
      = case_prod (complete pg cfg h e) (wstep pg cfg h e (Flying lg sub p q token st err lat) (w\<lparr>w_sent := (case sent of None \<Rightarrow> w_sent w | Some r \<Rightarrow> r # w_sent w)\<rparr>))"
    by (simp add: complete_step [of "Admitted lg sub p q token"] complete_step [of "Flying lg sub p q token st err lat"] a)
  then show ?thesis
    by (simp add: complete_Reporting deliver_def a Let_def set_cb_def split: prod.splits sum.splits)
qed

lemma complete_Checked: "complete pg cfg h e (Checked lg sub) w = controlled pg cfg h e lg sub w"
  by (auto simp: complete_controls complete_Admitted controlled_def Let_def map_prod_def split: prod.splits bool.splits)


end
