(* ===== verification/Leases.thy ===== *)
theory Leases
  imports Prelude
begin

text \<open>
  Mutual exclusion by leases, as the delivery engine uses it: a table says when each open item is due, a
  worker claims an item that is due by moving its due time to the end of a lease, and gives it up by
  closing it or by choosing a new due time. Nothing here knows of deliveries or SQL; \<open>Crew\<close> shows that the
  goroutines of the service over the real tables follow this protocol. Result: as long as workers are done
  before their leases run out, no item has two holders.
\<close>

section \<open>The protocol\<close>

text \<open>\<open>due\<close> gives the due time of an open item (\<open>None\<close>: closed or absent), \<open>held\<close> what a worker holds and until when.\<close>

type_synonym ('i, 'w) lease_state = "time \<times> ('i \<Rightarrow> time option) \<times> ('w \<Rightarrow> ('i \<times> time) option)"

definition timely :: "time \<Rightarrow> ('w \<Rightarrow> ('i \<times> time) option) \<Rightarrow> bool" where
  "timely t held \<longleftrightarrow> (\<forall>w i u. held w = Some (i, u) \<longrightarrow> t < u)"

definition holds :: "('w \<Rightarrow> ('i \<times> time) option) \<Rightarrow> 'i \<Rightarrow> bool" where
  "holds held i \<longleftrightarrow> (\<exists>w u. held w = Some (i, u))"

text \<open>\<open>lost_claim\<close> is a claim whose answer was lost, so that nobody knows he holds the item; \<open>other\<close> is any change that leaves the open items
  alone, closes some, or opens new ones.\<close>

inductive lease_step :: "('i, 'w) lease_state \<Rightarrow> ('i, 'w) lease_state \<Rightarrow> bool" where
  claim: "now \<le> t \<Longrightarrow> timely t held \<Longrightarrow> due i = Some s \<Longrightarrow> s \<le> t \<Longrightarrow> held w = None \<Longrightarrow>
    lease_step (now, due, held) (t, due(i \<mapsto> u), held(w \<mapsto> (i, u)))"
| lost_claim: "now \<le> t \<Longrightarrow> timely t held \<Longrightarrow> due i = Some s \<Longrightarrow> s \<le> t \<Longrightarrow>
    lease_step (now, due, held) (t, due(i \<mapsto> u), held)"
| give_up: "now \<le> t \<Longrightarrow> timely t held \<Longrightarrow> held w = Some (i, u) \<Longrightarrow>
    (\<And>j. j \<noteq> i \<Longrightarrow> due' j = due j \<or> due j = None \<and> \<not> holds held j) \<Longrightarrow>
    lease_step (now, due, held) (t, due', held(w := None))"
| other: "now \<le> t \<Longrightarrow> timely t held \<Longrightarrow> (\<And>j. due' j = due j \<or> due' j = None \<or> due j = None \<and> \<not> holds held j) \<Longrightarrow>
    lease_step (now, due, held) (t, due', held)"

section \<open>Mutual exclusion\<close>

text \<open>That no item has two holders is not kept by every step on its own; that the table knows each holder's
  lease is.\<close>

definition lease_inv :: "('i, 'w) lease_state \<Rightarrow> bool" where
  "lease_inv s \<longleftrightarrow> (case s of (now, due, held) \<Rightarrow>
     (\<forall>w i u. held w = Some (i, u) \<longrightarrow> due i = Some u \<or> due i = None)
     \<and> (\<forall>w w' i u u'. held w = Some (i, u) \<longrightarrow> held w' = Some (i, u') \<longrightarrow> w = w'))"

lemma due_not_held:
  assumes "lease_inv (now, due, held)" and "timely t held" and "due i = Some s" and "s \<le> t"
  shows "\<not> holds held i"
  using assms by (fastforce simp: lease_inv_def timely_def holds_def)

lemma lease_inv_step: "lease_step s s' \<Longrightarrow> lease_inv s \<Longrightarrow> lease_inv s'"
proof (induction rule: lease_step.induct)
  case (claim now t held due i s w u)
  then have "\<not> holds held i" by (intro due_not_held)
  with claim show ?case by (auto simp: lease_inv_def holds_def)
next
  case (lost_claim now t held due i s u)
  then have "\<not> holds held i" by (intro due_not_held)
  with lost_claim show ?case by (auto simp: lease_inv_def holds_def)
next
  case (give_up now t held w i u due' due)
  have "due' j = Some v \<or> due' j = None" if "held w' = Some (j, v)" "w' \<noteq> w" for w' j v
  proof -
    have "j \<noteq> i" using give_up.prems give_up.hyps(3) that by (auto simp: lease_inv_def)
    moreover have "holds held j" using that(1) by (auto simp: holds_def)
    ultimately have "due' j = due j" using give_up.hyps(4) by blast
    then show ?thesis using give_up.prems that(1) by (auto simp: lease_inv_def)
  qed
  then show ?case using give_up.prems by (auto simp: lease_inv_def)
next
  case (other now t held due' due)
  have "due' j = Some v \<or> due' j = None" if "held w = Some (j, v)" for w j v
  proof -
    have "holds held j" using that by (auto simp: holds_def)
    with other.hyps(3) [of j] other.prems that show ?thesis by (fastforce simp: lease_inv_def)
  qed
  then show ?case using other.prems by (auto simp: lease_inv_def)
qed

interpretation leases: step_invariant lease_step lease_inv
  by unfold_locales (blast intro: lease_inv_step)

end
