(* ===== verification/Lease_Store.thy ===== *)
theory Lease_Store
  imports Workers Leases
begin

text \<open>
  The delivery-log table read as the table of a lease protocol: the due time of a pending attempt, and what
  every repository call does to it. A claim moves one due time from the past to the end of a lease, a call
  that reports on an attempt changes that attempt and at most adds one with a new id, and every other call of
  the service leaves due times alone, closes attempts or adds one.
\<close>

section \<open>Due times\<close>

definition due_at :: "dl_row list \<Rightarrow> string \<Rightarrow> time option" where
  "due_at t i = (case lookup_row d_id i t of None \<Rightarrow> None | Some r \<Rightarrow> if is_pending r then d_next_retry_at r else None)"

abbreviation due_in :: "db \<Rightarrow> string \<Rightarrow> time option" where
  "due_in d \<equiv> due_at (delivery_logs d)"

text \<open>Only \<open>i\<close> changed, or \<open>u\<close> is new.\<close>

definition touches :: "string \<Rightarrow> string \<Rightarrow> db \<Rightarrow> db \<Rightarrow> bool" where
  "touches i u d d' \<longleftrightarrow> (\<forall>j. j \<noteq> i \<longrightarrow> due_in d' j = due_in d j \<or> due_in d j = None \<and> j = u)"

text \<open>Nothing changed except that attempts were closed, or \<open>u\<close> is new.\<close>

definition spares :: "string \<Rightarrow> db \<Rightarrow> db \<Rightarrow> bool" where
  "spares u d d' \<longleftrightarrow> (\<forall>j. due_in d' j = due_in d j \<or> due_in d' j = None \<or> due_in d j = None \<and> j = u)"

lemma due_at_update_key:
  assumes "\<And>r. d_id (f r) = d_id r" and "j \<noteq> i"
  shows "due_at (sql_update (\<lambda>r. d_id r = i \<and> P r) f t) j = due_at t j"
proof (cases "lookup_row d_id j t")
  case (Some r)
  then have "d_id r \<noteq> i" using lookup_row_SomeD [OF Some] assms(2) by simp
  then show ?thesis using Some assms(1) by (simp add: due_at_def lookup_row_update)
qed (use assms(1) in \<open>simp add: due_at_def lookup_row_update\<close>)

lemma due_at_acked: "due_at (sql_update P (acked_row c) t) = due_at t"
proof (rule ext)
  show "due_at (sql_update P (acked_row c) t) j = due_at t j" for j
    by (cases "lookup_row d_id j t") (simp_all add: due_at_def lookup_row_update acked_row_def)
qed

lemma due_at_insert: "j \<noteq> d_id n \<Longrightarrow> due_at (sql_insert n t) j = due_at t j"
  by (simp add: due_at_def lookup_row_insert split: option.splits)

lemma due_at_delete:
  assumes "keyed d_id t"
  shows "due_at (sql_delete P t) j = due_at t j \<or> due_at (sql_delete P t) j = None"
proof (cases "lookup_row d_id j (sql_delete P t)")
  case (Some r)
  then have "lookup_row d_id j t = Some r"
    using lookup_row_SomeD [OF Some] assms by (auto simp: lookup_row_eq set_sql_delete)
  then show ?thesis using Some by (simp add: due_at_def)
qed (simp add: due_at_def)

lemma absent_not_due: "lookup_row d_id j t = None \<Longrightarrow> due_at t j = None"
  by (simp add: due_at_def)

lemma touches_same: "delivery_logs d' = delivery_logs d \<Longrightarrow> touches i u d d'"
  by (simp add: touches_def)

lemma spares_same: "delivery_logs d' = delivery_logs d \<Longrightarrow> spares u d d'"
  by (simp add: spares_def)

lemma touches_update:
  "delivery_logs d' = sql_update (\<lambda>r. d_id r = i \<and> P r) f (delivery_logs d) \<Longrightarrow> (\<And>r. d_id (f r) = d_id r) \<Longrightarrow> touches i u d d'"
  by (simp add: touches_def due_at_update_key)

lemma touches_insert:
  assumes "touches i u d d1" and "insert_log n d1 = (Inr y, d')" and "d_id n = u"
  shows "touches i u d d'"
proof -
  have d': "delivery_logs d' = sql_insert n (delivery_logs d1)" and "due_in d1 u = None"
    using assms by (auto simp: insert_log_Inr absent_not_due)
  then show ?thesis using assms(1,3) due_at_insert [of _ n "delivery_logs d1"] unfolding touches_def by metis
qed

lemma spares_insert:
  assumes "due_in d1 = due_in d" and "insert_log n d1 = (Inr y, d')" and "d_id n = u"
  shows "spares u d d'"
proof -
  have d': "delivery_logs d' = sql_insert n (delivery_logs d1)" and "due_in d1 u = None"
    using assms(2,3) by (auto simp: insert_log_Inr absent_not_due)
  then show ?thesis using assms(1,3) due_at_insert [of _ n "delivery_logs d1"] unfolding spares_def by metis
qed

section \<open>Claims\<close>

text \<open>A claim that took effect found the attempt due and leased it; the caller knows of it only when it was
  told so.\<close>

lemma claim_due:
  assumes i: "uuid_in pg i = Some i" and key: "keyed d_id (delivery_logs d)" and run: "ClaimPending pg c d i lease = (res, d')"
  shows "due_in d' = due_in d \<and> res \<noteq> Inr True
    \<or> (\<exists>s. due_in d i = Some s \<and> s \<le> c_now c \<and> due_in d' = (due_in d)(i \<mapsto> c_now c + pg_interval (secondsArg lease)))"
proof -
  let ?P = "\<lambda>r. is_pending r \<and> due (c_now c) r" and ?t = "delivery_logs d"
  let ?t' = "sql_update (\<lambda>r. d_id r = i \<and> ?P r) (lease_row c lease) ?t"
  have eff: "due_in d' = due_in d \<and> res \<noteq> Inr True \<or> delivery_logs d' = ?t' \<and> (res = Inr True \<longrightarrow> rows_affected (\<lambda>r. d_id r = i \<and> ?P r) ?t = 1)"
    using run i by (cases "c_commit c") (auto simp: ClaimPending_def pool_run_def update_log_def isInvalidUUID_def split: if_splits)
  show ?thesis
  proof (cases "\<exists>r. lookup_row d_id i ?t = Some r \<and> ?P r")
    case True
    then obtain r where r: "lookup_row d_id i ?t = Some r" "?P r" by blast
    have ir: "d_id r = i" using lookup_row_SomeD [OF r(1)] ..
    from r obtain s where s: "due_in d i = Some s" "s \<le> c_now c" by (auto simp: due_at_def due_def split: option.splits)
    have "due_at ?t' = (due_in d)(i \<mapsto> c_now c + pg_interval (secondsArg lease))"
    proof (rule ext)
      show "due_at ?t' j = ((due_in d)(i \<mapsto> c_now c + pg_interval (secondsArg lease))) j" for j
        using r ir lookup_row_update [of d_id "lease_row c lease" j "\<lambda>r. d_id r = i \<and> ?P r" ?t]
        by (cases "j = i") (auto simp: due_at_update_key due_at_def [of _ i] lease_row_def)
    qed
    with eff s show ?thesis by auto
  next
    case False
    then have none: "rows_affected (\<lambda>r. d_id r = i \<and> ?P r) ?t = 0"
      using key by (auto simp: rows_affected_0 lookup_row_eq)
    then have "?t' = ?t" by (simp add: sql_update_none rows_affected_0)
    with eff none show ?thesis by auto
  qed
qed

section \<open>Reports on an attempt\<close>

lemma touches_pool:
  assumes "uuid_in pg i = Some i" and "\<And>r. d_id (f r) = d_id r"
  shows "touches i u d (snd (pool_run c (update_log pg i P f) d))"
proof (rule pool_run_pres)
  fix x d' assume "update_log pg i P f d = (Inr x, d')"
  with assms(1) have "delivery_logs d' = sql_update (\<lambda>r. d_id r = i \<and> P r) f (delivery_logs d)" by (auto simp: update_log_Inr)
  then show "touches i u d d'" using assms(2) by (rule touches_update)
qed (simp add: touches_same)

lemma report_touches:
  assumes i: "uuid_in pg i = Some i"
  shows "touches i u d (snd (MarkDropped pg c d i err))"
    and "touches i u d (snd (RescheduleSamePending pg c d i nx))"
    and "touches i u d (snd (MarkSuccess pg c d i sid st))"
    and "touches i u d (snd (FinalizeFailure pg c d i sid st' err th))"
    and "touches i (c_uuid c) d (snd (FailAndScheduleRetry pg c d i st' err nx))"
proof -
  show "touches i u d (snd (MarkDropped pg c d i err))" "touches i u d (snd (RescheduleSamePending pg c d i nx))"
    unfolding store_op_db using i by (simp_all add: touches_pool)
  show "touches i u d (snd (MarkSuccess pg c d i sid st))"
    unfolding MarkSuccess_def
  proof (rule inTx_pres)
    fix x t' assume "mark_success_tx pg c i sid st \<lparr>tx_db = d, tx_aborted = False\<rparr> = (Inr x, t')"
    with i have "delivery_logs (tx_db t') = sql_update (\<lambda>r. d_id r = i \<and> is_pending r) (success_row c st) (delivery_logs d)"
      by (auto simp: mark_success_tx_def stmt_invs split: prod.splits sum.splits if_splits dest!: tx_run_Inr)
    then show "touches i u d (tx_db t')" by (rule touches_update) simp
  qed (simp add: touches_same)
  show "touches i u d (snd (FinalizeFailure pg c d i sid st' err th))"
    unfolding FinalizeFailure_def
  proof (rule inTx_pres)
    fix x t' assume "finalize_tx pg c i sid st' err th \<lparr>tx_db = d, tx_aborted = False\<rparr> = (Inr x, t')" "\<not> tx_aborted t'"
    with i have "delivery_logs (tx_db t') = sql_update (\<lambda>r. d_id r = i \<and> is_pending r) (final_row c st' err) (delivery_logs d)"
      by (fastforce simp: finalize_tx_def stmt_invs split: prod.splits sum.splits if_splits dest!: tx_run_Inr tx_run_Inl_ok)
    then show "touches i u d (tx_db t')" by (rule touches_update) simp
  qed (simp add: touches_same)
  show "touches i (c_uuid c) d (snd (FailAndScheduleRetry pg c d i st' err nx))"
    unfolding FailAndScheduleRetry_def
  proof (rule inTx_pres)
    fix x t' assume "fail_retry_tx pg c i st' err nx \<lparr>tx_db = d, tx_aborted = False\<rparr> = (Inr x, t')"
    note logs = fail_retry_tx_logs [OF this i]
    let ?d1 = "d\<lparr>delivery_logs := sql_update (\<lambda>r. d_id r = i \<and> is_pending r) (failed_row c st' err) (delivery_logs d)\<rparr>"
    have "touches i (c_uuid c) d ?d1"
      by (rule touches_update [where f = "failed_row c st' err" and P = is_pending]) simp_all
    with logs show "touches i (c_uuid c) d (tx_db t')"
      by (auto elim: touches_insert simp: successor_row_def pending_row_def)
  qed (simp add: touches_same)
qed

section \<open>Every other call\<close>

text \<open>The repository calls of the HTTP handlers and of the maintenance loops, with their faults.\<close>

inductive other_call :: "pgsql \<Rightarrow> (string \<Rightarrow> bool) \<Rightarrow> call \<Rightarrow> db \<Rightarrow> db \<Rightarrow> bool" for pg jv c where
  no_call: "other_call pg jv c d d"
| ingest_call: "fresh_webhook pg d (P_WebhookID p) \<Longrightarrow> other_call pg jv c d (snd (IngestPending jv pg c d p))"
| ack_call: "other_call pg jv c d (snd (AckDLQ pg c d sid wid))"
| replay_call: "other_call pg jv c d (snd (ReplayDLQ pg c d sid wid))"
| rearm_call: "other_call pg jv c d (snd (RearmLeaseLessPending c locked d limit orphan))"
| expire_call: "other_call pg jv c d (snd (DeleteExpired c d retention))"
| prune_call: "other_call pg jv c d (snd (PruneIdempotency c d ttl))"
| force_ack_call: "other_call pg jv c d (snd (ForceAckOldDLQ c d maxAge))"
| create_call: "other_call pg jv c d (snd (CreateSub c d s))"
| update_call: "other_call pg jv c d (snd (UpdateSub pg c d s))"
| rotate_call: "other_call pg jv c d (snd (RotateSecretSub pg c d sid k))"
| delete_call: "other_call pg jv c d (snd (DeleteSub pg c d sid))"

lemma other_call_step:
  assumes "other_call pg jv c d d'" and "call_ok pg t c"
  shows "d' = d \<or> db_step pg jv (t, d) (c_now c, d')"
  using assms by (induction rule: other_call.induct) (auto intro: db_step.intros)

lemma spares_ingest: "spares (c_uuid c) d (snd (IngestPending jv pg c d p))"
proof -
  have "spares (c_uuid c) d (snd (inTx c ''ingest'' (ingest_tx pg c p) d))"
  proof (rule inTx_pres)
    fix x t' assume "ingest_tx pg c p \<lparr>tx_db = d, tx_aborted = False\<rparr> = (Inr x, t')"
    from ingest_tx_logs [OF this] show "spares (c_uuid c) d (tx_db t')" by (auto intro: spares_same spares_insert [rotated])
  qed (simp add: spares_same)
  then show ?thesis by (auto simp: IngestPending_def spares_same split: sum.splits)
qed

lemma spares_replay: "spares (c_uuid c) d (snd (ReplayDLQ pg c d sid wid))"
  unfolding ReplayDLQ_def
proof (rule inTx_pres)
  fix x t' assume "replay_tx pg c sid wid \<lparr>tx_db = d, tx_aborted = False\<rparr> = (Inr x, t')" "\<not> tx_aborted t'"
  from replay_tx_logs [OF this] show "spares (c_uuid c) d (tx_db t')"
    by (auto intro: spares_insert [rotated] simp: spares_same due_at_acked replay_row_def pending_row_def)
qed (simp add: spares_same)

lemma spares_pool: "(\<And>x d'. st d = (Inr x, d') \<Longrightarrow> spares u d d') \<Longrightarrow> spares u d (snd (pool_run c st d))"
  by (rule pool_run_pres) (simp_all add: spares_same)

lemma spares_other:
  assumes inv: "db_inv pg t d"
  shows "spares u d (snd (AckDLQ pg c d sid wid))" and "spares u d (snd (ForceAckOldDLQ c d maxAge))"
    and "spares u d (snd (DeleteExpired c d ret))" and "spares u d (snd (PruneIdempotency c d ttl))"
    and "spares u d (snd (RearmLeaseLessPending c locked d limit orphan))" and "spares u d (snd (CreateSub c d s))"
    and "spares u d (snd (UpdateSub pg c d s))" and "spares u d (snd (RotateSecretSub pg c d sid k))"
    and "spares u d (snd (DeleteSub pg c d sid))"
proof -
  have del: "spares u d d'" if "delivery_logs d' = sql_delete P (delivery_logs d)" for d' P
    using due_at_delete [OF db_inv_key [OF inv]] by (metis spares_def that)
  show "spares u d (snd (AckDLQ pg c d sid wid))" "spares u d (snd (ForceAckOldDLQ c d maxAge))"
    unfolding store_op_db
    by (rule spares_pool; auto simp: spares_def due_at_acked force_ack_stmt_def dest!: claim_dlq_Inr)+
  show "spares u d (snd (DeleteExpired c d ret))" "spares u d (snd (DeleteSub pg c d sid))"
    unfolding store_op_db
    by (rule spares_pool; fastforce simp: delete_expired_stmt_def delete_sub_stmt_def split: option.splits intro: del)+
  show "spares u d (snd (PruneIdempotency c d ttl))" "spares u d (snd (RearmLeaseLessPending c locked d limit orphan))"
    "spares u d (snd (CreateSub c d s))" "spares u d (snd (UpdateSub pg c d s))" "spares u d (snd (RotateSecretSub pg c d sid k))"
    unfolding store_op_db
    by (rule spares_pool, rule spares_same; auto simp: prune_stmt_def rearm_stmt_idle [OF inv] insert_sub_def
        update_sub_returning_Inr Let_def split: if_splits)+
qed

lemma other_call_spares: "other_call pg jv c d d' \<Longrightarrow> db_inv pg t d \<Longrightarrow> spares (c_uuid c) d d'"
  by (induction rule: other_call.induct) (simp_all add: spares_same spares_ingest spares_replay spares_other)

end
