(* ===== verification/Crew.thy ===== *)
theory Crew
  imports Lease_Store
begin

text \<open>
  Many delivery goroutines at once (\<^verbatim>\<open>internal/worker/pool.go\<close>, \<^verbatim>\<open>delivery.go\<close>, and the handler that delivers
  at ingest), over one database, one Redis and the process's shared registries, interleaved with each other
  between any two steps and with the calls of the handlers and maintenance loops. Results: two goroutines never work on
  the same attempt, and a subscription's semaphore lets through no more requests than its limit.
\<close>

section \<open>What a goroutine holds\<close>

fun log_of :: "worker \<Rightarrow> DeliveryLog option" where
  "log_of (Start _) = None"
| "log_of (Loaded lg) = Some lg"
| "log_of (Refused lg) = Some lg"
| "log_of (Leased lg) = Some lg"
| "log_of (Dropping lg) = Some lg"
| "log_of (Checked lg _) = Some lg"
| "log_of (Seated lg _ _) = Some lg"
| "log_of (Crowded lg) = Some lg"
| "log_of (Permitted lg _ _) = Some lg"
| "log_of (Wired lg _ _ _) = Some lg"
| "log_of (Denied lg _) = Some lg"
| "log_of (Admitted lg _ _ _ _) = Some lg"
| "log_of (Flying lg _ _ _ _ _ _ _) = Some lg"
| "log_of (Reporting lg _ _ _ _) = Some lg"
| "log_of (Releasing _ _) = None"
| "log_of (Over _) = None"

text \<open>The attempt a goroutine has claimed and not yet reported on.\<close>

fun lease_of :: "worker \<Rightarrow> string option" where
  "lease_of (Loaded _) = None"
| "lease_of (Refused _) = None"
| "lease_of k = map_option D_ID (log_of k)"

text \<open>The semaphore a goroutine has a permit of.\<close>

fun permit_of :: "worker \<Rightarrow> nat option" where
  "permit_of (Permitted _ _ p) = Some p"
| "permit_of (Wired _ _ p _) = Some p"
| "permit_of (Denied _ p) = Some p"
| "permit_of (Admitted _ _ p _ _) = Some p"
| "permit_of (Flying _ _ p _ _ _ _ _) = Some p"
| "permit_of (Reporting _ _ p _ _) = Some p"
| "permit_of (Releasing p _) = Some p"
| "permit_of _ = None"

section \<open>The crew\<close>

text \<open>\<open>cr_until\<close> is when the lease a goroutine took last runs out.\<close>

record crew =
  cr_now :: time
  cr_world :: world
  cr_workers :: "worker list"
  cr_until :: "nat \<Rightarrow> time"

definition lease_end :: "DelivererConfig \<Rightarrow> time \<Rightarrow> time" where
  "lease_end cfg t = t + pg_interval (secondsArg (VisibilityTimeout cfg))"

definition work :: "pgsql \<Rightarrow> DelivererConfig \<Rightarrow> http_env \<Rightarrow> penv \<Rightarrow> time \<Rightarrow> nat \<Rightarrow> crew \<Rightarrow> crew" where
  "work pg cfg h e t k s =
     (case wstep pg cfg h e (cr_workers s ! k) (cr_world s) of (x, w) \<Rightarrow>
        s\<lparr>cr_now := t, cr_world := w, cr_workers := (cr_workers s)[k := x],
          cr_until := (case cr_workers s ! k of Loaded _ \<Rightarrow> (cr_until s)(k := lease_end cfg t) | _ \<Rightarrow> cr_until s)\<rparr>)"

definition spawn :: "string \<Rightarrow> time \<Rightarrow> crew \<Rightarrow> crew" where
  "spawn lid t s = s\<lparr>cr_now := t, cr_workers := cr_workers s @ [Start lid]\<rparr>"

definition held :: "crew \<Rightarrow> nat \<Rightarrow> (string \<times> time) option" where
  "held s k = (if k < length (cr_workers s) then map_option (\<lambda>i. (i, cr_until s k)) (lease_of (cr_workers s ! k)) else None)"

text \<open>A step makes at most one repository call; it runs at \<open>t\<close>.\<close>

definition writes_at :: "pgsql \<Rightarrow> time \<Rightarrow> penv \<Rightarrow> bool" where
  "writes_at pg t e \<longleftrightarrow> (\<forall>c \<in> {pe_claim e, pe_drop e, pe_resched e, pe_retry e, e_call (pe_finish e)}. call_ok pg t c \<and> c_now c = t)"

text \<open>The rest of the process only drops semaphores from the registry (the sweep, a deactivated or deleted
  subscription); it neither takes nor gives permits.\<close>

definition keeps_permits :: "world \<Rightarrow> world \<Rightarrow> bool" where
  "keeps_permits w w' \<longleftrightarrow> sem_heap (w_sub w') = sem_heap (w_sub w)
     \<and> set (items (ss_semaphores (w_sub w'))) \<subseteq> set (items (ss_semaphores (w_sub w)))"

text \<open>Nor does it use breakers; it only drops idle ones.\<close>

definition keeps_breakers :: "world \<Rightarrow> world \<Rightarrow> bool" where
  "keeps_breakers w w' \<longleftrightarrow> w_cbs w' = w_cbs w \<and> set (items (w_breakers w')) \<subseteq> set (items (w_breakers w))"

text \<open>Breaker generations are int64 and are taken below their end.\<close>

definition tokens_left :: "world \<Rightarrow> bool" where
  "tokens_left w \<longleftrightarrow> (\<forall>cb \<in> set (w_cbs w). generation cb + 1 < int64_max)"

text \<open>A goroutine starts, any goroutine does its next step, or anyone else calls the store. Two things are
  relied on: nothing outlives its lease, and \<^verbatim>\<open>gen_random_uuid()\<close> does not return an id that a goroutine has in
  hand.\<close>

inductive crew_step :: "pgsql \<Rightarrow> (string \<Rightarrow> bool) \<Rightarrow> DelivererConfig \<Rightarrow> crew \<Rightarrow> crew \<Rightarrow> bool" for pg jv cfg where
  begins: "cr_now s \<le> t \<Longrightarrow> timely t (held s) \<Longrightarrow> crew_step pg jv cfg s (spawn lid t s)"
| works: "cr_now s \<le> t \<Longrightarrow> timely t (held s) \<Longrightarrow> k < length (cr_workers s) \<Longrightarrow> writes_at pg t e \<Longrightarrow>
    \<not> holds (held s) (c_uuid (pe_retry e)) \<Longrightarrow> tokens_left (cr_world s) \<Longrightarrow> crew_step pg jv cfg s (work pg cfg h e t k s)"
| others: "cr_now s \<le> c_now c \<Longrightarrow> timely (c_now c) (held s) \<Longrightarrow> call_ok pg (cr_now s) c \<Longrightarrow> \<not> holds (held s) (c_uuid c) \<Longrightarrow>
    other_call pg jv c (w_db (cr_world s)) (w_db w') \<Longrightarrow> keeps_permits (cr_world s) w' \<Longrightarrow> keeps_breakers (cr_world s) w' \<Longrightarrow>
    crew_step pg jv cfg s (s\<lparr>cr_now := c_now c, cr_world := w'\<rparr>)"

inductive_cases crew_stepE: "crew_step pg jv cfg s s'"

section \<open>One step of a goroutine\<close>

lemma handleFailure_db:
  "w_db (snd (handleFailure pg cfg e lg st err w)) =
     (if D_AttemptNumber lg < MaxRetryAttempts cfg
      then snd (FailAndScheduleRetry pg (pe_retry e) (w_db w) (D_ID lg) st err
             (pe_done_now e + retryDelay (pe_rnd e) (D_AttemptNumber lg) (RetryBaseDelay cfg) (RetryMaxDelay cfg)))
      else snd (FinalizeFailure pg (e_call (pe_finish e)) (w_db w) (D_ID lg) (D_SubscriptionID lg) st err (AutoDisableThreshold cfg)))"
proof -
  have "fst (snd (RecordFinalFailure pg (SubCfg cfg) (pe_finish e) (w_db w) (D_ID lg) (D_SubscriptionID lg) st err
      (AutoDisableThreshold cfg) (w_sub w)))
    = snd (FinalizeFailure pg (e_call (pe_finish e)) (w_db w) (D_ID lg) (D_SubscriptionID lg) st err (AutoDisableThreshold cfg))"
    by (rule Record_db)
  then show ?thesis by (auto simp: handleFailure_def Let_def split: prod.splits sum.splits)
qed

text \<open>The repository call of each step.\<close>

lemma wstep_db:
  "w_db (snd (wstep pg cfg h e k w)) = (case k of
      Loaded lg \<Rightarrow> snd (ClaimPending pg (pe_claim e) (w_db w) (D_ID lg) (VisibilityTimeout cfg))
    | Dropping lg \<Rightarrow> snd (MarkDropped pg (pe_drop e) (w_db w) (D_ID lg) ''subscription deactivated'')
    | Crowded lg \<Rightarrow> snd (RescheduleSamePending pg (pe_resched e) (w_db w) (D_ID lg) (pe_now e + concurrencyBackoff))
    | Denied lg p \<Rightarrow> snd (RescheduleSamePending pg (pe_resched e) (w_db w) (D_ID lg) (pe_now e + DBreakerResetTimeout cfg))
    | Reporting lg sub p st err \<Rightarrow>
        (if is_success st then snd (MarkSuccess pg (e_call (pe_finish e)) (w_db w) (D_ID lg) (S_ID sub) (the st))
         else w_db (snd (handleFailure pg cfg e lg st err w)))
    | _ \<Rightarrow> w_db w)"
proof (cases k)
  case (Checked lg sub)
  then show ?thesis using control_db(4) [of cfg "pe_sem_now e" "S_ID sub" w] by (auto simp del: control_db split: prod.splits)
next
  case (Permitted lg sub p)
  then show ?thesis using control_db(5) [of cfg "pe_reg_now e" "D_TargetURL lg" w] by (auto simp del: control_db split: prod.splits)
next
  case (Reporting lg sub p st err)
  then show ?thesis using Record_db(1) [of pg "SubCfg cfg" "pe_finish e" "w_db w" "D_ID lg" "S_ID sub" "the st" "w_sub w"]
    by (auto split: prod.splits sum.splits)
qed (auto simp: Let_def split: prod.splits sum.splits bool.splits)

lemma wstep_step:
  assumes "writes_at pg t' e" and "t \<le> t'"
  shows "w_db (snd (wstep pg cfg h e k w)) = w_db w \<or> db_step pg jv (t, w_db w) (t', w_db (snd (wstep pg cfg h e k w)))"
proof -
  have ok: "call_ok pg t c \<and> c_now c = t'" if "c \<in> {pe_claim e, pe_drop e, pe_resched e, pe_retry e, e_call (pe_finish e)}" for c
    using assms that by (auto simp: writes_at_def call_ok_def)
  have "db_step pg jv (t, w_db w) (t', d)" if "c \<in> {pe_claim e, pe_drop e, pe_resched e, pe_retry e, e_call (pe_finish e)}"
    "call_ok pg t c \<Longrightarrow> db_step pg jv (t, w_db w) (c_now c, d)" for c d
    using ok [OF that(1)] that(2) by auto
  note go = this [OF _ db_step.claim] this [OF _ drop_row] this [OF _ reschedule] this [OF _ db_step.success] this [OF _ db_step.retry] this [OF _ finalize]
  show ?thesis unfolding wstep_db by (cases k) (auto simp: handleFailure_db intro: go)
qed

text \<open>An attempt a goroutine has loaded has the canonical id of its row.\<close>

definition worker_ok :: "pgsql \<Rightarrow> worker \<Rightarrow> bool" where
  "worker_ok pg k \<longleftrightarrow> (\<forall>lg. log_of k = Some lg \<longrightarrow> uuid_in pg (D_ID lg) = Some (D_ID lg))"

lemma loaded_id:
  assumes "GetLogByID pg c d lid = Inr lg" and "db_inv pg t d"
  shows "uuid_in pg (D_ID lg) = Some (D_ID lg)"
  using assms
  by (auto simp: GetLogByID_def read_run_def select_log_def db_inv_def core_inv_def
      split: sum.splits if_splits option.splits dest!: lookup_row_SomeD)

lemma wstep_worker_ok:
  assumes "worker_ok pg k" and "db_inv pg t (w_db w)"
  shows "worker_ok pg (fst (wstep pg cfg h e k w))"
proof -
  have "log_of (fst (wstep pg cfg h e k w)) = log_of k \<or> log_of (fst (wstep pg cfg h e k w)) = None
    \<or> (\<exists>lid lg. GetLogByID pg (pe_load e) (w_db w) lid = Inr lg \<and> log_of (fst (wstep pg cfg h e k w)) = Some lg)"
    by (cases k) (auto simp: Let_def split: prod.splits sum.splits bool.splits)
  then show ?thesis using assms by (auto simp: worker_ok_def dest: loaded_id)
qed

text \<open>Outside the claim a step leaves every due time alone, or it gives its own attempt up.\<close>

lemma wstep_lease:
  assumes "worker_ok pg k" and "\<And>lg. k \<noteq> Loaded lg"
  shows "lease_of (fst (wstep pg cfg h e k w)) = lease_of k \<and> due_in (w_db (snd (wstep pg cfg h e k w))) = due_in (w_db w)
    \<or> (\<exists>i. lease_of k = Some i \<and> lease_of (fst (wstep pg cfg h e k w)) = None
         \<and> touches i (c_uuid (pe_retry e)) (w_db w) (w_db (snd (wstep pg cfg h e k w))))"
proof -
  have id: "uuid_in pg (D_ID lg) = Some (D_ID lg)" if "log_of k = Some lg" for lg
    using assms(1) that by (simp add: worker_ok_def)
  show ?thesis
    using assms(2) id unfolding wstep_db
    by (cases k) (auto simp: handleFailure_db report_touches touches_same Let_def split: prod.splits sum.splits bool.splits)
qed

section \<open>The crew follows the lease protocol\<close>

definition crew_inv :: "pgsql \<Rightarrow> crew \<Rightarrow> bool" where
  "crew_inv pg s \<longleftrightarrow> pg_ok pg \<and> db_inv pg (cr_now s) (w_db (cr_world s)) \<and> (\<forall>x \<in> set (cr_workers s). worker_ok pg x)"

definition leases_of :: "crew \<Rightarrow> (string, nat) lease_state" where
  "leases_of s = (cr_now s, due_in (w_db (cr_world s)), held s)"

lemma work_sel [simp]:
  "cr_now (work pg cfg h e t k s) = t"
  "cr_world (work pg cfg h e t k s) = snd (wstep pg cfg h e (cr_workers s ! k) (cr_world s))"
  "cr_workers (work pg cfg h e t k s) = (cr_workers s)[k := fst (wstep pg cfg h e (cr_workers s ! k) (cr_world s))]"
  by (simp_all add: work_def split: prod.splits)

lemma held_work:
  assumes "k < length (cr_workers s)"
  shows "held (work pg cfg h e t k s) = (held s)(k :=
    map_option (\<lambda>i. (i, case cr_workers s ! k of Loaded _ \<Rightarrow> lease_end cfg t | _ \<Rightarrow> cr_until s k))
      (lease_of (fst (wstep pg cfg h e (cr_workers s ! k) (cr_world s)))))"
  using assms by (auto simp: held_def fun_eq_iff nth_list_update work_def split: prod.splits worker.splits)

lemma held_spawn: "held (spawn lid t s) = held s"
  by (auto simp: held_def spawn_def fun_eq_iff nth_append less_Suc_eq)

lemma held_other [simp]: "held (s\<lparr>cr_now := t, cr_world := w\<rparr>) = held s"
  by (simp add: held_def fun_eq_iff)

lemma crew_inv_step:
  assumes "crew_inv pg s" and "crew_step pg jv cfg s s'"
  shows "crew_inv pg s'"
  using assms(2)
proof cases
  case (begins t lid)
  then show ?thesis using assms(1) by (auto simp: crew_inv_def spawn_def worker_ok_def intro: db_inv_mono)
next
  case (works t k e h)
  let ?r = "wstep pg cfg h e (cr_workers s ! k) (cr_world s)"
  have inv: "db_inv pg t (w_db (cr_world s))" using assms(1) works by (auto simp: crew_inv_def intro: db_inv_mono)
  have "db_inv pg t (w_db (snd ?r))"
    using wstep_step [OF works(5,2), of cfg h "cr_workers s ! k" "cr_world s" jv] inv assms(1) db_step_inv
    by (fastforce simp: crew_inv_def)
  moreover have "worker_ok pg (fst ?r)"
    using assms(1) works(4) inv by (intro wstep_worker_ok [OF _ inv]) (simp add: crew_inv_def)
  ultimately show ?thesis
    using assms(1) by (auto simp: works(1) crew_inv_def dest: set_update_subset_insert [THEN subsetD])
next
  case (others c w')
  then show ?thesis using assms(1) other_call_step [OF others(6,4)] db_step_inv
    by (fastforce simp: crew_inv_def call_ok_def intro: db_inv_mono)
qed

lemma work_sim:
  assumes inv: "crew_inv pg s" and now: "cr_now s \<le> t" "timely t (held s)" and k: "k < length (cr_workers s)"
    and e: "writes_at pg t e" "\<not> holds (held s) (c_uuid (pe_retry e))"
  shows "lease_step (leases_of s) (leases_of (work pg cfg h e t k s))"
proof -
  let ?x = "cr_workers s ! k" and ?w = "cr_world s"
  let ?r = "wstep pg cfg h e ?x ?w"
  have ok: "worker_ok pg ?x" using inv k by (simp add: crew_inv_def)
  have hk: "held s k = map_option (\<lambda>i. (i, cr_until s k)) (lease_of ?x)" using k by (simp add: held_def)
  show ?thesis
  proof (cases "\<exists>lg. ?x = Loaded lg")
    case True
    then obtain lg where x: "?x = Loaded lg" by blast
    obtain res d where c: "ClaimPending pg (pe_claim e) (w_db ?w) (D_ID lg) (VisibilityTimeout cfg) = (res, d)" by fastforce
    have id: "uuid_in pg (D_ID lg) = Some (D_ID lg)" using ok x by (simp add: worker_ok_def)
    have key: "keyed d_id (delivery_logs (w_db ?w))" using inv by (simp add: crew_inv_def db_inv_def core_inv_def)
    have at: "c_now (pe_claim e) = t" using e(1) by (simp add: writes_at_def)
    have l: "lease_of (fst ?r) = (if res = Inr True then Some (D_ID lg) else None)" and d: "w_db (snd ?r) = d"
      using c x by (auto split: sum.splits)
    have none: "held s k = None" using hk x by simp
    have same: "held (work pg cfg h e t k s) = held s" if "res \<noteq> Inr True"
      using held_work [OF k, of pg cfg h e t] l that none by auto
    have gets: "held (work pg cfg h e t k s) = (held s)(k \<mapsto> (D_ID lg, lease_end cfg t))" if "res = Inr True"
      using held_work [OF k, of pg cfg h e t] l that x by simp
    from claim_due [OF id key c] show ?thesis
      unfolding leases_of_def at lease_end_def [symmetric] work_sel d
      using same gets none now by (cases "res = Inr True") (auto intro: lease_step.other lease_step.claim lease_step.lost_claim)
  next
    case False
    have same: "held (work pg cfg h e t k s) = (held s)(k := map_option (\<lambda>i. (i, cr_until s k)) (lease_of (fst ?r)))"
      using held_work [OF k, of pg cfg h e t] False by (cases ?x) auto
    have "\<And>lg. ?x \<noteq> Loaded lg" using False by blast
    from wstep_lease [OF ok this, of cfg h e ?w] show ?thesis
    proof (elim disjE conjE exE)
      fix i assume i: "lease_of ?x = Some i" "lease_of (fst ?r) = None" "touches i (c_uuid (pe_retry e)) (w_db ?w) (w_db (snd ?r))"
      then show ?thesis
        unfolding leases_of_def work_sel same using now hk e(2)
        by (auto simp: touches_def intro!: lease_step.give_up)
    qed (use now hk same in \<open>auto simp: leases_of_def fun_upd_idem intro!: lease_step.other\<close>)
  qed
qed

lemma crew_sim:
  assumes "crew_inv pg s" and "crew_step pg jv cfg s s'"
  shows "lease_step (leases_of s) (leases_of s')"
  using assms(2)
proof cases
  case (begins t lid)
  then show ?thesis unfolding leases_of_def begins(1) held_spawn by (auto simp: spawn_def intro: lease_step.other)
next
  case (works t k e h)
  then show ?thesis using work_sim [OF assms(1)] by simp
next
  case (others c w')
  have "spares (c_uuid c) (w_db (cr_world s)) (w_db w')"
    using assms(1) others(6) by (auto simp: crew_inv_def intro: other_call_spares)
  then show ?thesis using others by (auto simp: leases_of_def spares_def intro!: lease_step.other)
qed

interpretation crews: simulation "crew_step pg jv cfg" "crew_inv pg" lease_step leases_of for pg jv cfg
  by unfold_locales (auto intro: crew_inv_step crew_sim)

text \<open>The protocol's invariant, in the words of the crew.\<close>

definition idle_crew :: "crew \<Rightarrow> bool" where
  "idle_crew s \<longleftrightarrow> (\<forall>x \<in> set (cr_workers s). lease_of x = None)"

lemma idle_no_leases: "idle_crew s \<Longrightarrow> lease_inv (leases_of s)"
  by (auto simp: idle_crew_def lease_inv_def leases_of_def held_def split: if_splits)

lemma crew_leases:
  assumes "(crew_step pg jv cfg)\<^sup>*\<^sup>* s s'" and "crew_inv pg s" and "idle_crew s"
  shows "lease_inv (leases_of s')"
  using leases.run_pres [OF crews.run_sim [OF assms(1,2)] idle_no_leases [OF assms(3)]] .

text \<open>C3. Two goroutines never work on the same attempt at the same time. Take any interleaving, step by step, of any
  number of deliveries with each other and with the calls of the handlers and maintenance loops, with database
  faults, lost commits and restarts of Redis, in which no delivery outlasts its lease: an attempt that one
  goroutine has claimed and not yet reported on is claimed by no other, and its row still carries that
  goroutine's lease, unless it was closed under it (its subscription was deleted).\<close>

theorem one_goroutine_per_attempt:
  assumes "(crew_step pg jv cfg)\<^sup>*\<^sup>* s s'" and "crew_inv pg s" and "idle_crew s"
    and "k < length (cr_workers s')" and "lease_of (cr_workers s' ! k) = Some i"
  shows "(\<forall>k' < length (cr_workers s'). lease_of (cr_workers s' ! k') = Some i \<longrightarrow> k' = k)
    \<and> due_in (w_db (cr_world s')) i \<in> {Some (cr_until s' k), None}"
proof -
  note inv = crew_leases [OF assms(1-3), unfolded leases_of_def lease_inv_def prod.case]
  have h: "held s' j = Some (i, cr_until s' j)" if "j < length (cr_workers s')" "lease_of (cr_workers s' ! j) = Some i" for j
    using that by (simp add: held_def)
  show ?thesis using inv h assms(4,5) by blast
qed

section \<open>An interleaving\<close>

lemma timely_held:
  "timely t (held s) \<longleftrightarrow> (\<forall>k < length (cr_workers s). lease_of (cr_workers s ! k) \<noteq> None \<longrightarrow> t < cr_until s k)"
  by (auto simp: timely_def held_def)

lemma holds_held: "holds (held s) i \<longleftrightarrow> (\<exists>x \<in> set (cr_workers s). lease_of x = Some i)"
  by (fastforce simp: holds_def held_def in_set_conv_nth split: if_splits)

text \<open>A schedule at one instant: which goroutine moves next.\<close>

fun turns_ok :: "pgsql \<Rightarrow> DelivererConfig \<Rightarrow> http_env \<Rightarrow> penv \<Rightarrow> time \<Rightarrow> nat list \<Rightarrow> crew \<Rightarrow> bool" where
  "turns_ok pg cfg h e t [] s = True"
| "turns_ok pg cfg h e t (k # ks) s = (cr_now s \<le> t \<and> k < length (cr_workers s)
     \<and> (\<forall>j < length (cr_workers s). lease_of (cr_workers s ! j) \<noteq> None \<longrightarrow> t < cr_until s j)
     \<and> (\<forall>x \<in> set (cr_workers s). lease_of x \<noteq> Some (c_uuid (pe_retry e))) \<and> tokens_left (cr_world s)
     \<and> turns_ok pg cfg h e t ks (work pg cfg h e t k s))"

lemma turns_run:
  assumes "writes_at pg t e" and "turns_ok pg cfg h e t ks s"
  shows "(crew_step pg jv cfg)\<^sup>*\<^sup>* s (fold (work pg cfg h e t) ks s)"
  using assms(2)
proof (induction ks arbitrary: s)
  case (Cons k ks)
  have "crew_step pg jv cfg s (work pg cfg h e t k s)"
    using Cons.prems assms(1) by (intro works) (auto simp: timely_held holds_held)
  then show ?case using Cons by (auto intro: converse_rtranclp_into_rtranclp)
qed simp

text \<open>Two goroutines are handed the same attempt; both load it, then both claim it.\<close>

definition demo_crew :: crew where
  "demo_crew = \<lparr>cr_now = 3, cr_world = demo_world, cr_workers = [Start ''b'', Start ''b''], cr_until = (\<lambda>_. 0)\<rparr>"

definition demo_race :: crew where
  "demo_race = fold (work plain_pg demo_dcfg (demo_http 503) demo_penv 6) [0, 1, 0, 1, 0] demo_crew"

lemma demo_crew_inv: "crew_inv plain_pg demo_crew" "idle_crew demo_crew"
  using plain_pg_ok demo_inv by (simp_all add: crew_inv_def idle_crew_def demo_crew_def demo_world_def worker_ok_def)

lemma demo_writes: "writes_at plain_pg 6 demo_penv"
  by (simp add: writes_at_def demo_penv_def Let_def demo_call_ok)

lemma demo_race_run: "(crew_step plain_pg jv demo_dcfg)\<^sup>*\<^sup>* demo_crew demo_race"
  unfolding demo_race_def by (rule turns_run [OF demo_writes]) code_simp

theorem one_goroutine_per_attempt_witness:
  "lease_of (cr_workers demo_race ! 0) = Some ''b'' \<and> lease_of (cr_workers demo_race ! 1) \<noteq> Some ''b''"
proof -
  have c: "length (cr_workers demo_race) = 2" "lease_of (cr_workers demo_race ! 0) = Some ''b''" by code_simp+
  from one_goroutine_per_attempt [OF demo_race_run demo_crew_inv, of 0 "''b''"] c
  have "\<forall>k' < 2. lease_of (cr_workers demo_race ! k') = Some ''b'' \<longrightarrow> k' = 0" by simp
  then have "lease_of (cr_workers demo_race ! 1) \<noteq> Some ''b''" by (metis one_less_numeral_iff semiring_norm(76) zero_neq_one)
  with c show ?thesis by blast
qed

end
