(* ===== verification/Permits.thy ===== *)
theory Permits
  imports Crew
begin

text \<open>
  Concurrency permits among interleaved goroutines (\<^verbatim>\<open>internal/infra/semaphore\<close> as \<^verbatim>\<open>delivery.go\<close> uses it). Result:
  at every moment the permits a semaphore has given out are exactly those its goroutines hold, so no more
  requests pass one semaphore at once than its limit, and the deferred release never blocks.
\<close>

section \<open>Counting\<close>

text \<open>The semaphore a goroutine refers to, with a permit or on the way to ask for one.\<close>

fun seat_of :: "worker \<Rightarrow> nat option" where
  "seat_of (Seated _ _ p) = Some p"
| "seat_of x = permit_of x"

definition permits :: "nat \<Rightarrow> worker list \<Rightarrow> nat" where
  "permits p ws = length (filter (\<lambda>x. permit_of x = Some p) ws)"

lemma length_filter_update:
  "k < length xs \<Longrightarrow> length (filter P (xs[k := x])) + (if P (xs ! k) then 1 else 0) = length (filter P xs) + (if P x then 1 else 0)"
proof (induction xs arbitrary: k)
  case (Cons a xs)
  then show ?case by (cases k) auto
qed simp

lemma permits_update:
  assumes "k < length ws"
  shows "permits p (ws[k := x]) + (if permit_of (ws ! k) = Some p then 1 else 0) = permits p ws + (if permit_of x = Some p then 1 else 0)"
  using length_filter_update [OF assms, of "\<lambda>x. permit_of x = Some p" x] by (simp add: permits_def)

lemma permits_none: "(\<And>x. x \<in> set ws \<Longrightarrow> permit_of x \<noteq> Some p) \<Longrightarrow> permits p ws = 0"
  by (simp add: permits_def filter_empty_conv)

lemma permit_seat: "permit_of x = Some p \<Longrightarrow> seat_of x = Some p"
  by (cases x) auto

section \<open>One step\<close>

lemma keeps_permits_refl: "keeps_permits w w"
  by (simp add: keeps_permits_def)

text \<open>What a step does to the semaphores: nothing, a look-up in the registry, an acquired or a released permit.\<close>

inductive permit_step :: "DelivererConfig \<Rightarrow> worker \<times> world \<Rightarrow> worker \<times> world \<Rightarrow> bool" for cfg where
  quiet: "keeps_permits w w' \<Longrightarrow> permit_of x' = permit_of x \<Longrightarrow> seat_of x' = seat_of x \<or> seat_of x' = None \<Longrightarrow> permit_step cfg (x, w) (x', w')"
| seat: "seat_of x = None \<Longrightarrow> permit_of x' = None \<Longrightarrow> seat_of x' = Some p \<Longrightarrow> semFor cfg now sid w = (p, w') \<Longrightarrow> permit_step cfg (x, w) (x', w')"
| acquire: "seat_of x = Some p \<Longrightarrow> permit_of x = None \<Longrightarrow> permit_of x' = Some p \<Longrightarrow>
    TryAcquire (sem_heap (w_sub w) ! p) = (True, m) \<Longrightarrow> permit_step cfg (x, w) (x', set_sem p m w)"
| release: "permit_of x = Some p \<Longrightarrow> seat_of x' = None \<Longrightarrow> permit_step cfg (x, w) (x', release_sem p w)"

lemma RegRemove_subset: "set (items (RegRemove i r)) \<subseteq> set (items r)"
  by (auto simp: RegRemove_def AList.delete_eq)

lemma evictLocked_semaphores [simp]: "ss_semaphores (evictLocked cfg e i s) = ss_semaphores s"
  by (auto simp: evictLocked_def cache_del_def split: prod.splits bool.splits)

lemma Record_permits:
  "RecordDeliverySuccess pg cfg e d lid sid st s = (r, d', s') \<Longrightarrow>
     sem_heap s' = sem_heap s \<and> set (items (ss_semaphores s')) \<subseteq> set (items (ss_semaphores s))"
  "RecordFinalFailure pg cfg e d lid sid st' err th s = (r', d', s') \<Longrightarrow>
     sem_heap s' = sem_heap s \<and> set (items (ss_semaphores s')) \<subseteq> set (items (ss_semaphores s))"
  by (auto simp: RecordDeliverySuccess_def RecordFinalFailure_def Let_def resetRuntime_def split: prod.splits sum.splits if_splits
      dest: RegRemove_subset [THEN subsetD])

lemma handleFailure_permits: "keeps_permits w (snd (handleFailure pg cfg e lg st err w))"
  by (auto simp: handleFailure_def keeps_permits_def Let_def split: prod.splits sum.splits dest: Record_permits)

lemma reschedule_permits [simp]:
  "w_sub (rescheduleNoAttempt pg e lid nx w) = w_sub w" "w_sub (rescheduleIfNotDue pg e lid w) = w_sub w"
  "w_sub (set_cb q cb w) = w_sub w" "w_sub (snd (breakerFor cfg now url w)) = w_sub w"
  by (auto simp: rescheduleNoAttempt_def rescheduleIfNotDue_def set_cb_def breakerFor_def split: option.splits prod.splits sum.splits)

lemma quiet_sub:
  "w_sub w' = w_sub w \<Longrightarrow> permit_of x' = permit_of x \<Longrightarrow> seat_of x' = seat_of x \<or> seat_of x' = None \<Longrightarrow> permit_step cfg (x, w) (x', w')"
  by (auto simp: keeps_permits_def intro: quiet)

lemma wstep_permits: "permit_step cfg (x, w) (wstep pg cfg h e x w)"
proof (cases x)
  case (Leased lg)
  then show ?thesis
    by (auto simp: keeps_permits_def split: prod.splits sum.splits dest!: StateGetByID_heap intro!: quiet)
next
  case (Checked lg sub)
  obtain p w1 where "semFor cfg (pe_sem_now e) (S_ID sub) w = (p, w1)" by fastforce
  then show ?thesis using Checked by (auto intro: seat)
next
  case (Seated lg sub p)
  then show ?thesis by (auto split: prod.splits bool.splits intro: quiet_sub acquire)
next
  case (Permitted lg sub p)
  obtain q w1 where b: "breakerFor cfg (pe_reg_now e) (D_TargetURL lg) w = (q, w1)" by fastforce
  then have "w_sub w1 = w_sub w" using reschedule_permits(4) [of cfg "pe_reg_now e" "D_TargetURL lg" w] by simp
  then show ?thesis using Permitted b by (auto intro: quiet_sub)
next
  case (Reporting lg sub p st err)
  show ?thesis
  proof (cases "is_success st")
    case True
    then show ?thesis using Reporting
      by (auto simp: keeps_permits_def split: prod.splits sum.splits dest!: Record_permits intro!: quiet)
  next
    case False
    obtain res w1 where "handleFailure pg cfg e lg st err w = (res, w1)" by fastforce
    then show ?thesis using False Reporting handleFailure_permits [of w pg cfg e lg st err] by (auto intro: quiet)
  qed
next
  case (Releasing p res)
  then show ?thesis by (auto intro: release)
qed (auto simp: Let_def split: prod.splits sum.splits bool.splits intro!: quiet_sub)

text \<open>The subscription boundary's other operations, and its sweep, keep the permits.\<close>

lemma boundary_keeps_permits:
  "keeps_permits w (w\<lparr>w_db := d, w_sub := snd (StateGetByID pg cfg e d' i (w_sub w))\<rparr>)"
  "keeps_permits w (w\<lparr>w_db := d, w_sub := snd (snd (StateCreate cfg e d' sub (w_sub w)))\<rparr>)"
  "keeps_permits w (w\<lparr>w_db := d, w_sub := snd (snd (StateUpdate pg cfg e d' sub (w_sub w)))\<rparr>)"
  "keeps_permits w (w\<lparr>w_db := d, w_sub := snd (snd (StateDelete pg cfg e d' i (w_sub w)))\<rparr>)"
  "keeps_permits w (w\<lparr>w_db := d, w_sub := snd (snd (StateRotateSecret pg cfg e d' i k (w_sub w)))\<rparr>)"
  "keeps_permits w (w\<lparr>w_db := d, w_sub := snd (StateAllow cfg now i (w_sub w))\<rparr>)"
  "keeps_permits w (w\<lparr>w_db := d, w_sub := snd (StateSweep now (w_sub w))\<rparr>)"
proof -
  show "keeps_permits w (w\<lparr>w_db := d, w_sub := snd (StateGetByID pg cfg e d' i (w_sub w))\<rparr>)"
    using StateGetByID_heap [of pg cfg e d' i "w_sub w"]
    by (cases "StateGetByID pg cfg e d' i (w_sub w)") (simp add: keeps_permits_def)
qed (auto simp: keeps_permits_def StateCreate_def StateUpdate_def StateDelete_def StateRotateSecret_def StateAllow_def StateSweep_def
    RegSweep_def evict_def resetRuntime_def split: prod.splits sum.splits dest: RegRemove_subset [THEN subsetD])

section \<open>Every run\<close>

lemma refs_below_mono: "refs_below r n \<Longrightarrow> set (items r') \<subseteq> set (items r) \<Longrightarrow> n \<le> n' \<Longrightarrow> refs_below r' n'"
  by (fastforce simp: refs_below_def)

lemma set_alist_update: "set (AList.update a b xs) \<subseteq> insert (a, b) (set xs)"
  by (induction xs) auto

lemma semFor_refs:
  assumes "semFor cfg now sid w = (p, w')" and "refs_below (ss_semaphores (w_sub w)) (length (sem_heap (w_sub w)))"
  shows "\<exists>n. sem_heap (w_sub w') = sem_heap (w_sub w) @ replicate n (NewSemaphore (ConcurrencyLimit (SubCfg cfg)))
    \<and> p < length (sem_heap (w_sub w')) \<and> refs_below (ss_semaphores (w_sub w')) (length (sem_heap (w_sub w')))"
proof -
  from semFor_shared(1) [OF assms] obtain n where
    n: "sem_heap (w_sub w') = sem_heap (w_sub w) @ replicate n (NewSemaphore (ConcurrencyLimit (SubCfg cfg)))" "p < length (sem_heap (w_sub w'))"
    by (auto simp: shared_def)
  have "items (ss_semaphores (w_sub w')) = AList.update sid \<lparr>val = p, lastUsed = now\<rparr> (items (ss_semaphores (w_sub w)))"
    using assms(1) by (auto simp: semFor_def StateSemaphore_def RegGet_def Let_def split: prod.splits option.splits)
  then have "refs_below (ss_semaphores (w_sub w')) (length (sem_heap (w_sub w')))"
    using assms(2) n set_alist_update [of sid] by (fastforce simp: refs_below_def)
  with n show ?thesis by blast
qed

text \<open>The invariant on its own terms: registry, heap and goroutines.\<close>

definition permits_ok :: "DelivererConfig \<Rightarrow> nat Registry \<Rightarrow> Semaphore list \<Rightarrow> worker list \<Rightarrow> bool" where
  "permits_ok cfg r h ws \<longleftrightarrow> refs_below r (length h)
     \<and> (\<forall>x \<in> set ws. \<forall>p. seat_of x = Some p \<longrightarrow> p < length h)
     \<and> (\<forall>p < length h. sem_cap (h ! p) = ConcurrencyLimit (SubCfg cfg) \<and> sem_held (h ! p) = permits p ws \<and> sem_ok (h ! p))"

lemma permits_ok_quiet:
  assumes "permits_ok cfg r h ws" and "k < length ws" and "permit_of x = permit_of (ws ! k)"
    and "seat_of x = seat_of (ws ! k) \<or> seat_of x = None" and "set (items r') \<subseteq> set (items r)"
  shows "permits_ok cfg r' h (ws[k := x])"
proof -
  have "permits p (ws[k := x]) = permits p ws" for p using permits_update [OF assms(2), of p x] assms(3) by simp
  moreover have "seat_of y = Some p \<Longrightarrow> y \<in> set (ws[k := x]) \<Longrightarrow> p < length h" for y p
    using assms(1,2,4) nth_mem [OF assms(2)] set_update_subset_insert [of ws k x] by (fastforce simp: permits_ok_def)
  ultimately show ?thesis using assms(1,5) refs_below_mono [of r "length h" r' "length h"] by (simp add: permits_ok_def)
qed

lemma permits_ok_more:
  assumes ok: "permits_ok cfg r h ws" and refs: "refs_below r' (length (h @ replicate n (NewSemaphore (ConcurrencyLimit (SubCfg cfg)))))"
  shows "permits_ok cfg r' (h @ replicate n (NewSemaphore (ConcurrencyLimit (SubCfg cfg)))) ws"
proof -
  have "permits p ws = 0" if "length h \<le> p" for p
    using ok that by (intro permits_none) (fastforce simp: permits_ok_def dest: permit_seat)
  then show ?thesis using ok refs
    by (auto simp: permits_ok_def nth_append NewSemaphore_def sem_ok_def trans_less_add1)
qed

lemma permits_ok_sem:
  assumes ok: "permits_ok cfg r h ws" and k: "k < length ws" and p: "seat_of (ws ! k) = Some p" "permit_of (ws ! k) = Some p \<longleftrightarrow> b"
    and x: "seat_of x = Some p \<or> seat_of x = None" "permit_of x = Some p \<longleftrightarrow> b'" and m: "sem_cap m = sem_cap (h ! p)" "sem_ok m"
      "sem_held m + (if b then 1 else 0) = sem_held (h ! p) + (if b' then 1 else 0)"
  shows "permits_ok cfg r (h[p := m]) (ws[k := x])"
proof -
  have pl: "p < length h" using ok p(1) nth_mem [OF k] by (auto simp: permits_ok_def)
  have "permits q (ws[k := x]) = sem_held (h[p := m] ! q)" if "q < length h" for q
  proof (cases "q = p")
    case True
    then show ?thesis using permits_update [OF k, of p x] p(2) x(2) m(3) pl ok by (auto simp: permits_ok_def split: if_splits)
  next
    case False
    then have "permit_of (ws ! k) \<noteq> Some q" "permit_of x \<noteq> Some q" using p(1) x(1) by (auto dest: permit_seat)
    then show ?thesis using permits_update [OF k, of q x] False ok that by (simp add: permits_ok_def)
  qed
  moreover have "seat_of y = Some q \<Longrightarrow> y \<in> set (ws[k := x]) \<Longrightarrow> q < length h" for y q
    using ok x(1) pl set_update_subset_insert [of ws k x] by (fastforce simp: permits_ok_def)
  ultimately show ?thesis using ok m(1,2) pl by (auto simp: permits_ok_def nth_list_update)
qed

definition permits_inv :: "DelivererConfig \<Rightarrow> crew \<Rightarrow> bool" where
  "permits_inv cfg s \<longleftrightarrow> permits_ok cfg (ss_semaphores (w_sub (cr_world s))) (sem_heap (w_sub (cr_world s))) (cr_workers s)"

abbreviation ok_in :: "DelivererConfig \<Rightarrow> world \<Rightarrow> worker list \<Rightarrow> bool" where
  "ok_in cfg w ws \<equiv> permits_ok cfg (ss_semaphores (w_sub w)) (sem_heap (w_sub w)) ws"

lemma set_sem_sub [simp]:
  "sem_heap (w_sub (set_sem p m w)) = (sem_heap (w_sub w))[p := m]" "ss_semaphores (w_sub (set_sem p m w)) = ss_semaphores (w_sub w)"
  by (simp_all add: set_sem_def)

text \<open>A held permit can be given back.\<close>

lemma held_releases:
  assumes "permits_ok cfg r h ws" and "k < length ws" and "permit_of (ws ! k) = Some p"
  shows "p < length h \<and> 0 < sem_held (h ! p)"
proof -
  have "ws ! k \<in> set (filter (\<lambda>x. permit_of x = Some p) ws)" using assms(2,3) by simp
  then have "0 < permits p ws" unfolding permits_def by (metis length_pos_if_in_set)
  moreover have "p < length h" using assms(1) permit_seat [OF assms(3)] nth_mem [OF assms(2)] by (auto simp: permits_ok_def)
  ultimately show ?thesis using assms(1) by (simp add: permits_ok_def)
qed

lemma permit_step_ok:
  assumes "permit_step cfg (ws ! k, w) (x', w')" and ok: "ok_in cfg w ws" and k: "k < length ws"
  shows "ok_in cfg w' (ws[k := x'])"
  using assms(1)
proof cases
  case quiet
  then show ?thesis using permits_ok_quiet [OF ok k] by (simp add: keeps_permits_def)
next
  case (seat p now sid)
  have "refs_below (ss_semaphores (w_sub w)) (length (sem_heap (w_sub w)))" using ok by (simp add: permits_ok_def)
  from semFor_refs [OF seat(4) this] obtain n where
    h: "sem_heap (w_sub w') = sem_heap (w_sub w) @ replicate n (NewSemaphore (ConcurrencyLimit (SubCfg cfg)))"
    and p: "p < length (sem_heap (w_sub w'))" and r: "refs_below (ss_semaphores (w_sub w')) (length (sem_heap (w_sub w')))" by blast
  have "ok_in cfg w' ws" using permits_ok_more [OF ok] r unfolding h by blast
  moreover have "permit_of (ws ! k) = None" using seat(1) by (cases "ws ! k") auto
  ultimately show ?thesis
    using permits_update [OF k, of _ x'] seat(2,3) p set_update_subset_insert [of ws k x'] by (fastforce simp: permits_ok_def)
next
  case (acquire p m)
  then show ?thesis
    using permits_ok_sem [OF ok k, of p False x' True m] permit_seat [of x' p] by (auto simp: TryAcquire_def sem_ok_def split: if_splits)
next
  case (release p)
  note held = held_releases [OF ok k release(2)]
  let ?m = "sem_heap (w_sub w) ! p"
  have w': "w' = set_sem p (?m\<lparr>sem_held := sem_held ?m - 1\<rparr>) w" using held release(1) by (simp add: release_sem_def ReleaseSem_def)
  have "sem_ok ?m" using ok held by (simp add: permits_ok_def)
  moreover have "permit_of x' \<noteq> Some p" using release(3) by (auto dest: permit_seat)
  ultimately show ?thesis unfolding w'
    using permits_ok_sem [OF ok k, of p True x' False "?m\<lparr>sem_held := sem_held ?m - 1\<rparr>"] release(2,3) held
    by (auto simp: sem_ok_def dest: permit_seat)
qed

lemma permits_inv_step: "permits_inv cfg s \<Longrightarrow> crew_step pg jv cfg s s' \<Longrightarrow> permits_inv cfg s'"
proof (elim crew_stepE)
  fix t lid assume "permits_inv cfg s" and s': "s' = spawn lid t s"
  moreover have "permits p (ws @ [Start lid]) = permits p ws" for p ws by (simp add: permits_def)
  ultimately show ?thesis by (auto simp: permits_inv_def permits_ok_def spawn_def)
next
  fix t k e h assume inv: "permits_inv cfg s" and s': "s' = work pg cfg h e t k s" and k: "k < length (cr_workers s)"
  show ?thesis
    using permit_step_ok [OF _ inv [unfolded permits_inv_def] k] wstep_permits [of cfg "cr_workers s ! k" "cr_world s" pg h e]
    unfolding s' permits_inv_def work_sel by (metis prod.collapse)
next
  fix c w' assume inv: "permits_inv cfg s" and s': "s' = s\<lparr>cr_now := c_now c, cr_world := w'\<rparr>" and k: "keeps_permits (cr_world s) w'"
  have "refs_below (ss_semaphores (w_sub w')) (length (sem_heap (w_sub (cr_world s))))"
    using inv k by (auto simp: permits_inv_def permits_ok_def keeps_permits_def intro: refs_below_mono)
  then show ?thesis using inv k by (auto simp: s' permits_inv_def permits_ok_def keeps_permits_def)
qed

interpretation permit_counts: step_invariant "crew_step pg jv cfg" "permits_inv cfg" for pg jv cfg
  by unfold_locales (rule permits_inv_step)

section \<open>The limit\<close>

text \<open>A process that has just started: no semaphore was handed out, every goroutine is about to load its row.\<close>

definition fresh_crew :: "crew \<Rightarrow> bool" where
  "fresh_crew s \<longleftrightarrow> items (ss_semaphores (w_sub (cr_world s))) = [] \<and> sem_heap (w_sub (cr_world s)) = []
     \<and> (\<forall>x \<in> set (cr_workers s). seat_of x = None)"

lemma fresh_permits: "fresh_crew s \<Longrightarrow> permits_inv cfg s"
  by (simp add: fresh_crew_def permits_inv_def permits_ok_def refs_below_def)


text \<open>The goroutine that won the race goes on to ask for its permit.\<close>

definition demo_seated :: crew where
  "demo_seated = fold (work plain_pg demo_dcfg (demo_http 503) demo_penv 6) [0, 1, 0, 1, 0, 0, 0] demo_crew"

lemma demo_seated_run: "(crew_step plain_pg jv demo_dcfg)\<^sup>*\<^sup>* demo_crew demo_seated"
  unfolding demo_seated_def by (rule turns_run [OF demo_writes]) code_simp

lemma demo_crew_fresh: "fresh_crew demo_crew"
  by (simp add: fresh_crew_def demo_crew_def demo_world_def NewState_def NewRegistry_def)


end
