(* ===== verification/Probes.thy ===== *)
theory Probes
  imports Permits
begin

text \<open>
  Circuit breakers among interleaved goroutines (\<^verbatim>\<open>internal/infra/breaker\<close> as \<^verbatim>\<open>delivery.go\<close> uses it). The tokens a
  breaker has handed out and not got back are those its goroutines carry between \<open>Allow\<close> and \<open>Record\<close>, so what
  \<open>Breaker\<close> shows of any set of callers holds of the crew. Result: a half-open breaker always has its one probe
  in flight, so it is never stuck.
\<close>

section \<open>Tokens in flight\<close>

fun token_of :: "worker \<Rightarrow> (nat \<times> int) option" where
  "token_of (Admitted _ _ _ q g) = Some (q, g)"
| "token_of (Flying _ _ _ q g _ _ _) = Some (q, g)"
| "token_of _ = None"

fun wire_of :: "worker \<Rightarrow> nat option" where
  "wire_of (Wired _ _ _ q) = Some q"
| "wire_of x = map_option fst (token_of x)"

definition carries :: "nat \<Rightarrow> worker \<Rightarrow> int multiset" where
  "carries q x = (case token_of x of None \<Rightarrow> {#} | Some (q', g) \<Rightarrow> if q' = q then {#g#} else {#})"

definition tokens_of :: "nat \<Rightarrow> worker list \<Rightarrow> int multiset" where
  "tokens_of q ws = sum_list (map (carries q) ws)"

lemma sum_list_update:
  "k < length xs \<Longrightarrow> sum_list (map f (xs[k := x])) + f (xs ! k) = sum_list (map f xs) + f x" for f :: "'a \<Rightarrow> 'b::comm_monoid_add"
proof (induction xs arbitrary: k)
  case (Cons a xs)
  show ?case
  proof (cases k)
    case (Suc j)
    with Cons have "sum_list (map f (xs[j := x])) + f (xs ! j) = sum_list (map f xs) + f x" by simp
    then show ?thesis using Suc by (simp add: add.assoc)
  qed (simp add: ac_simps)
qed simp

lemma tokens_update: "k < length ws \<Longrightarrow> tokens_of q (ws[k := x]) = tokens_of q ws + carries q x - carries q (ws ! k)"
  using sum_list_update [of k ws "carries q" x] by (metis add_diff_cancel_right' tokens_of_def)

lemma tokens_mem: "k < length ws \<Longrightarrow> token_of (ws ! k) = Some (q, g) \<Longrightarrow> g \<in># tokens_of q ws"
proof -
  assume a: "k < length ws" "token_of (ws ! k) = Some (q, g)"
  then have "tokens_of q ws = add_mset g (tokens_of q (ws[k := Over (Inr ())]))"
    using sum_list_update [of k ws "carries q" "Over (Inr ())"] by (simp add: tokens_of_def carries_def)
  then show ?thesis by simp
qed

lemma tokens_none: "(\<And>x. x \<in> set ws \<Longrightarrow> wire_of x \<noteq> Some q) \<Longrightarrow> tokens_of q ws = {#}"
proof (induction ws)
  case (Cons x ws)
  then have "wire_of x \<noteq> Some q" by simp
  then have "carries q x = {#}" by (cases x) (auto simp: carries_def)
  with Cons show ?case by (simp add: tokens_of_def)
qed (simp add: tokens_of_def)

text \<open>How many goroutines carry a token.\<close>

lemma count_tokens: "count (tokens_of q ws) g = length (filter (\<lambda>x. token_of x = Some (q, g)) ws)"
  by (induction ws) (auto simp: tokens_of_def carries_def split: option.splits)

section \<open>The invariant\<close>

definition probes_ok :: "nat Registry \<Rightarrow> CircuitBreaker list \<Rightarrow> worker list \<Rightarrow> bool" where
  "probes_ok r h ws \<longleftrightarrow> refs_below r (length h)
     \<and> (\<forall>x \<in> set ws. \<forall>q. wire_of x = Some q \<longrightarrow> q < length h)
     \<and> (\<forall>q < length h. cb_inv (0, h ! q, tokens_of q ws))"

abbreviation probes_in :: "world \<Rightarrow> worker list \<Rightarrow> bool" where
  "probes_in w ws \<equiv> probes_ok (w_breakers w) (w_cbs w) ws"

definition probes_inv :: "crew \<Rightarrow> bool" where
  "probes_inv s \<longleftrightarrow> probes_in (cr_world s) (cr_workers s)"

lemma cb_inv_time: "cb_inv (t, cb, out) \<Longrightarrow> cb_inv (t', cb, out)"
  by (simp add: cb_inv_def)

text \<open>A step asks the registry for a breaker, asks the breaker for leave, reports to it, or leaves breakers
  alone.\<close>

inductive probe_step :: "DelivererConfig \<Rightarrow> worker \<times> world \<Rightarrow> worker \<times> world \<Rightarrow> bool" for cfg where
  calm: "keeps_breakers w w' \<Longrightarrow> token_of x' = token_of x \<Longrightarrow> wire_of x' = wire_of x \<or> wire_of x' = None \<Longrightarrow> probe_step cfg (x, w) (x', w')"
| wire: "wire_of x = None \<Longrightarrow> token_of x' = None \<Longrightarrow> wire_of x' = Some q \<Longrightarrow> breakerFor cfg now url w = (q, w') \<Longrightarrow> probe_step cfg (x, w) (x', w')"
| leave: "wire_of x = Some q \<Longrightarrow> token_of x = None \<Longrightarrow> token_of x' = Some (q, g) \<Longrightarrow>
    AllowCB now (w_cbs w ! q) = ((True, g), cb) \<Longrightarrow> probe_step cfg (x, w) (x', set_cb q cb w)"
| report: "token_of x = Some (q, g) \<Longrightarrow> wire_of x' = None \<Longrightarrow> w_cbs w1 = w_cbs w \<Longrightarrow> w_breakers w1 = w_breakers w \<Longrightarrow>
    cb = RecordSuccess g (w_cbs w ! q) \<or> cb = RecordFailure now g (w_cbs w ! q) \<Longrightarrow> probe_step cfg (x, w) (x', set_cb q cb w1)"

lemma calm_same:
  "w_cbs w' = w_cbs w \<Longrightarrow> w_breakers w' = w_breakers w \<Longrightarrow> token_of x' = token_of x \<Longrightarrow> wire_of x' = wire_of x \<or> wire_of x' = None \<Longrightarrow>
    probe_step cfg (x, w) (x', w')"
  by (auto simp: keeps_breakers_def intro: calm)

lemma control_breakers [simp]:
  "w_breakers (rescheduleNoAttempt pg e lid nx w) = w_breakers w" "w_cbs (rescheduleNoAttempt pg e lid nx w) = w_cbs w"
  "w_breakers (rescheduleIfNotDue pg e lid w) = w_breakers w" "w_cbs (rescheduleIfNotDue pg e lid w) = w_cbs w"
  "w_breakers (set_sem p m w) = w_breakers w" "w_cbs (set_sem p m w) = w_cbs w"
  "w_breakers (release_sem p w) = w_breakers w" "w_cbs (release_sem p w) = w_cbs w"
  "w_breakers (snd (handleFailure pg cfg e lg st err w)) = w_breakers w" "w_cbs (snd (handleFailure pg cfg e lg st err w)) = w_cbs w"
  "w_breakers (snd (semFor cfg now sid w)) = w_breakers w" "w_cbs (snd (semFor cfg now sid w)) = w_cbs w"
  by (auto simp: rescheduleNoAttempt_def rescheduleIfNotDue_def set_sem_def release_sem_def handleFailure_def semFor_def Let_def
      split: option.splits prod.splits sum.splits)

lemma set_cb_idem: "set_cb q (w_cbs w ! q) w = w"
  by (simp add: set_cb_def)

lemma wstep_probes: "probe_step cfg (x, w) (wstep pg cfg h e x w)"
proof (cases x)
  case (Checked lg sub)
  obtain p w1 where s: "semFor cfg (pe_sem_now e) (S_ID sub) w = (p, w1)" by fastforce
  then have "w_breakers w1 = w_breakers w" "w_cbs w1 = w_cbs w"
    using control_breakers(11,12) [of cfg "pe_sem_now e" "S_ID sub" w] by simp_all
  then show ?thesis using Checked s by (auto intro: calm_same)
next
  case (Permitted lg sub p)
  obtain q w1 where "breakerFor cfg (pe_reg_now e) (D_TargetURL lg) w = (q, w1)" by fastforce
  then show ?thesis using Permitted by (auto intro: wire)
next
  case (Wired lg sub p q)
  obtain al g cb where a: "AllowCB (pe_cb_now e) (w_cbs w ! q) = ((al, g), cb)" by (metis prod.collapse)
  show ?thesis
  proof (cases al)
    case True
    then show ?thesis using Wired a by (auto intro: leave)
  next
    case False
    then have "cb = w_cbs w ! q" using a AllowCB_denied [of "pe_cb_now e" "w_cbs w ! q" g cb] by simp
    then show ?thesis using Wired a False by (auto simp: set_cb_idem intro: calm_same)
  qed
next
  case (Flying lg sub p q g st err lat)
  then show ?thesis by (auto simp: Let_def intro!: report)
next
  case (Reporting lg sub p st err)
  obtain res w1 where f: "handleFailure pg cfg e lg st err w = (res, w1)" by fastforce
  then have "w_breakers w1 = w_breakers w" "w_cbs w1 = w_cbs w" using control_breakers(9,10) [of pg cfg e lg st err w] by simp_all
  then show ?thesis using Reporting f by (auto split: prod.splits sum.splits intro!: calm_same)
qed (auto simp: Let_def split: prod.splits sum.splits bool.splits intro!: calm_same)

section \<open>Every run\<close>

definition breaker_config :: "DelivererConfig \<Rightarrow> bool" where
  "breaker_config cfg \<longleftrightarrow> 1 \<le> BreakerThreshold cfg \<and> BreakerThreshold cfg < 2 ^ 31"

lemma breakerFor_refs:
  assumes "breakerFor cfg now url w = (q, w')" and "refs_below (w_breakers w) (length (w_cbs w))"
  shows "\<exists>n. w_cbs w' = w_cbs w @ replicate n (NewBreaker (BreakerThreshold cfg) (DBreakerResetTimeout cfg))
    \<and> q < length (w_cbs w') \<and> refs_below (w_breakers w') (length (w_cbs w'))"
proof -
  from breakerFor_shared [OF assms] obtain n where
    n: "w_cbs w' = w_cbs w @ replicate n (NewBreaker (BreakerThreshold cfg) (DBreakerResetTimeout cfg))" "q < length (w_cbs w')"
    by (auto simp: shared_def)
  have "items (w_breakers w') = AList.update url \<lparr>val = q, lastUsed = now\<rparr> (items (w_breakers w))"
    using assms(1) by (auto simp: breakerFor_def RegGet_def Let_def split: prod.splits option.splits)
  then have "refs_below (w_breakers w') (length (w_cbs w'))"
    using assms(2) n set_alist_update [of url] by (fastforce simp: refs_below_def)
  with n show ?thesis by blast
qed

lemma carries_same: "token_of x = token_of y \<Longrightarrow> carries q x = carries q y"
  by (simp add: carries_def)

lemma probes_ok_calm:
  assumes "probes_ok r h ws" and "k < length ws" and "token_of x = token_of (ws ! k)"
    and "wire_of x = wire_of (ws ! k) \<or> wire_of x = None" and "set (items r') \<subseteq> set (items r)"
  shows "probes_ok r' h (ws[k := x])"
proof -
  have "tokens_of q (ws[k := x]) = tokens_of q ws" for q
    using tokens_update [OF assms(2), of q x] carries_same [OF assms(3)] by simp
  moreover have "wire_of y = Some q \<Longrightarrow> y \<in> set (ws[k := x]) \<Longrightarrow> q < length h" for y q
    using assms(1,2,4) nth_mem [OF assms(2)] set_update_subset_insert [of ws k x] by (fastforce simp: probes_ok_def)
  ultimately show ?thesis using assms(1,5) refs_below_mono [of r "length h" r' "length h"] by (simp add: probes_ok_def)
qed

lemma probes_ok_more:
  assumes ok: "probes_ok r h ws" and cfg: "breaker_config cfg"
    and refs: "refs_below r' (length (h @ replicate n (NewBreaker (BreakerThreshold cfg) reset)))"
  shows "probes_ok r' (h @ replicate n (NewBreaker (BreakerThreshold cfg) reset)) ws"
proof -
  have "tokens_of q ws = {#}" if "length h \<le> q" for q
    using ok that by (intro tokens_none) (fastforce simp: probes_ok_def)
  then show ?thesis using ok refs cfg
    by (auto simp: probes_ok_def nth_append breaker_config_def cb_inv_new trans_less_add1)
qed

lemma probes_ok_cb:
  assumes ok: "probes_ok r h ws" and k: "k < length ws" and q: "wire_of (ws ! k) = Some q" and x: "wire_of x = Some q \<or> wire_of x = None"
    and inv: "cb_inv (t, cb, tokens_of q (ws[k := x]))"
  shows "probes_ok r (h[q := cb]) (ws[k := x])"
proof -
  have ql: "q < length h" using ok q nth_mem [OF k] by (auto simp: probes_ok_def)
  have "tokens_of j (ws[k := x]) = tokens_of j ws" if "j \<noteq> q" for j
  proof -
    have "carries j y = {#}" if "wire_of y = Some q \<or> wire_of y = None" for y
      using that \<open>j \<noteq> q\<close> by (cases y) (auto simp: carries_def)
    then show ?thesis using tokens_update [OF k, of j x] q x by simp
  qed
  moreover have "wire_of y = Some j \<Longrightarrow> y \<in> set (ws[k := x]) \<Longrightarrow> j < length h" for y j
    using ok x ql set_update_subset_insert [of ws k x] by (fastforce simp: probes_ok_def)
  ultimately show ?thesis using ok ql cb_inv_time [OF inv] by (auto simp: probes_ok_def nth_list_update)
qed

lemma token_wire: "token_of x = Some (q, g) \<Longrightarrow> wire_of x = Some q"
  by (cases x) auto

lemma no_wire_no_token: "wire_of x = None \<Longrightarrow> token_of x = None"
  by (cases x) auto

lemma probe_step_ok:
  assumes "probe_step cfg (ws ! k, w) (x', w')" and ok: "probes_in w ws" and k: "k < length ws"
    and cfg: "breaker_config cfg" and left: "tokens_left w"
  shows "probes_in w' (ws[k := x'])"
  using assms(1)
proof cases
  case calm
  then show ?thesis using probes_ok_calm [OF ok k] by (simp add: keeps_breakers_def)
next
  case (wire q now url)
  have "refs_below (w_breakers w) (length (w_cbs w))" using ok by (simp add: probes_ok_def)
  from breakerFor_refs [OF wire(4) this] obtain n where
    h: "w_cbs w' = w_cbs w @ replicate n (NewBreaker (BreakerThreshold cfg) (DBreakerResetTimeout cfg))"
    and q: "q < length (w_cbs w')" and r: "refs_below (w_breakers w') (length (w_cbs w'))" by blast
  have "probes_in w' ws" using probes_ok_more [OF ok cfg] r unfolding h by blast
  moreover have "tokens_of j (ws[k := x']) = tokens_of j ws" for j
    using tokens_update [OF k, of j x'] carries_same [of x' "ws ! k" j] wire(2) no_wire_no_token [OF wire(1)] by simp
  ultimately show ?thesis using wire(3) q set_update_subset_insert [of ws k x'] by (fastforce simp: probes_ok_def)
next
  case (leave q g now cb)
  have ql: "q < length (w_cbs w)" using ok leave(2) nth_mem [OF k] by (auto simp: probes_ok_def)
  then have inv: "cb_inv (0, w_cbs w ! q, tokens_of q ws)" and gen: "generation (w_cbs w ! q) + 1 < int64_max"
    using ok left by (simp_all add: probes_ok_def tokens_left_def)
  have "tokens_of q (ws[k := x']) = add_mset g (tokens_of q ws)"
    using tokens_update [OF k, of q x'] leave(3,4) by (simp add: carries_def)
  then have "cb_inv (now, cb, tokens_of q (ws[k := x']))" using cb_inv_admit [OF inv leave(5) gen] by simp
  from probes_ok_cb [OF ok k leave(2) _ this] show ?thesis using leave(1) token_wire [OF leave(4)] by (simp add: set_cb_def)
next
  case (report q g w1 cb now)
  have ql: "q < length (w_cbs w)" using ok token_wire [OF report(2)] nth_mem [OF k] by (auto simp: probes_ok_def)
  then have inv: "cb_inv (0, w_cbs w ! q, tokens_of q ws)" and gen: "generation (w_cbs w ! q) + 1 < int64_max"
    using ok left by (simp_all add: probes_ok_def tokens_left_def)
  note g = tokens_mem [OF k report(2)]
  have "tokens_of q (ws[k := x']) = tokens_of q ws - {#g#}"
    using tokens_update [OF k, of q x'] report(2) no_wire_no_token [OF report(3)] by (simp add: carries_def)
  then have "\<exists>t. cb_inv (t, cb, tokens_of q (ws[k := x']))"
    using report(6) cb_inv_success [OF inv g] cb_inv_failure [OF inv g gen] by auto
  then obtain t where "cb_inv (t, cb, tokens_of q (ws[k := x']))" ..
  from probes_ok_cb [OF ok k token_wire [OF report(2)] _ this] show ?thesis using report(1,3-5) by (simp add: set_cb_def)
qed

lemma probes_inv_step:
  assumes inv: "probes_inv s" and cfg: "breaker_config cfg" and step: "crew_step pg jv cfg s s'"
  shows "probes_inv s'"
  using step
proof (elim crew_stepE)
  fix t lid assume s': "s' = spawn lid t s"
  moreover have "tokens_of q (ws @ [Start lid]) = tokens_of q ws" for q ws by (simp add: tokens_of_def carries_def)
  ultimately show ?thesis using inv by (auto simp: probes_inv_def probes_ok_def spawn_def)
next
  fix t k e h assume s': "s' = work pg cfg h e t k s" and k: "k < length (cr_workers s)" and left: "tokens_left (cr_world s)"
  show ?thesis
    using probe_step_ok [OF _ inv [unfolded probes_inv_def] k cfg left] wstep_probes [of cfg "cr_workers s ! k" "cr_world s" pg h e]
    unfolding s' probes_inv_def work_sel by (metis prod.collapse)
next
  fix c w' assume s': "s' = s\<lparr>cr_now := c_now c, cr_world := w'\<rparr>" and k: "keeps_breakers (cr_world s) w'"
  have "refs_below (w_breakers w') (length (w_cbs (cr_world s)))"
    using inv k by (auto simp: probes_inv_def probes_ok_def keeps_breakers_def intro: refs_below_mono)
  then show ?thesis using inv k by (auto simp: s' probes_inv_def probes_ok_def keeps_breakers_def)
qed

interpretation probes: step_invariant "crew_step pg jv cfg" "\<lambda>s. breaker_config cfg \<and> probes_inv s" for pg jv cfg
  by unfold_locales (blast intro: probes_inv_step)

definition fresh_breakers :: "crew \<Rightarrow> bool" where
  "fresh_breakers s \<longleftrightarrow> items (w_breakers (cr_world s)) = [] \<and> w_cbs (cr_world s) = [] \<and> (\<forall>x \<in> set (cr_workers s). wire_of x = None)"

lemma fresh_probes: "fresh_breakers s \<Longrightarrow> probes_inv s"
  by (simp add: fresh_breakers_def probes_inv_def probes_ok_def refs_below_def)


text \<open>A failed delivery opens the breaker; after the cooldown the retry is let through as the probe.\<close>

definition demo_probe_cfg :: DelivererConfig where
  "demo_probe_cfg = demo_dcfg\<lparr>BreakerThreshold := 1, MaxRetryAttempts := 3\<rparr>"

definition demo_late :: penv where
  "demo_late = (let c = ok_call (100 * second) ''d'';
       s = \<lparr>e_call = c, e_now = 100 * second, e_get = Done, e_set = Done, e_del = Done\<rparr> in
     demo_penv\<lparr>pe_load := c, pe_claim := c, pe_reload := c, pe_sub := s, pe_drop := c, pe_sem_now := 100 * second, pe_reg_now := 100 * second,
       pe_cb_now := 100 * second, pe_now := 100 * second, pe_resched := c, pe_finish := s, pe_retry := c\<rparr>)"

definition demo_failed :: crew where
  "demo_failed = fold (work plain_pg demo_probe_cfg (demo_http 503) demo_penv 6) (replicate 11 0)
     (demo_crew\<lparr>cr_workers := [Start ''b'', Start ''c'']\<rparr>)"

definition demo_probing :: crew where
  "demo_probing = fold (work plain_pg demo_probe_cfg (demo_http 503) demo_late (100 * second)) (replicate 7 1) demo_failed"

lemma demo_probing_run:
  "(crew_step plain_pg jv demo_probe_cfg)\<^sup>*\<^sup>* (demo_crew\<lparr>cr_workers := [Start ''b'', Start ''c'']\<rparr>) demo_probing"
proof (rule rtranclp_trans)
  show "(crew_step plain_pg jv demo_probe_cfg)\<^sup>*\<^sup>* (demo_crew\<lparr>cr_workers := [Start ''b'', Start ''c'']\<rparr>) demo_failed"
    unfolding demo_failed_def by (rule turns_run [OF demo_writes]) code_simp
  have "writes_at plain_pg (100 * second) demo_late"
    by (simp add: writes_at_def demo_late_def Let_def demo_call_ok)
  then show "(crew_step plain_pg jv demo_probe_cfg)\<^sup>*\<^sup>* demo_failed demo_probing"
    unfolding demo_probing_def by (rule turns_run) code_simp
qed


end
