(* ===== verification/Retired_Permits.thy ===== *)
theory Retired_Permits
  imports Permits
begin

text \<open>
  What the limit per semaphore does not give: a limit per subscription. Auto-disabling a subscription removes its
  semaphore from the registry while requests that hold its permits are in flight; a delivery after the
  subscription was activated again gets a new semaphore. A run of the model shows it.
\<close>

section \<open>A subscription disabled under its requests\<close>

definition busy_cfg :: DelivererConfig where
  "busy_cfg = demo_dcfg\<lparr>MaxRetryAttempts := 1, AutoDisableThreshold := 1,
     SubCfg := (SubCfg demo_dcfg)\<lparr>ConcurrencyLimit := 2\<rparr>\<rparr>"

text \<open>Four events of one subscription.\<close>

definition busy_ingest :: "string \<Rightarrow> db \<Rightarrow> db" where
  "busy_ingest u d = snd (IngestPending (\<lambda>_. True) plain_pg (ok_call 2 u) d (demo_params [] (''w'' @ u)))"

definition busy_crew :: crew where
  "busy_crew = \<lparr>cr_now = 3, cr_world = demo_world\<lparr>w_db := fold busy_ingest [''a'', ''b'', ''c'', ''d''] demo_db1\<rparr>,
     cr_workers = [Start ''a'', Start ''b'', Start ''c'', Start ''d''], cr_until = (\<lambda>_. 0)\<rparr>"

definition busy_penv :: penv where
  "busy_penv = demo_penv\<lparr>pe_retry := ok_call 6 ''e''\<rparr>"

abbreviation busy :: "nat list \<Rightarrow> crew \<Rightarrow> crew" where
  "busy \<equiv> fold (work plain_pg busy_cfg (demo_http 503) busy_penv 6)"

text \<open>The first request is let through; the second fails for good and disables the subscription.\<close>

definition busy_disabled :: crew where
  "busy_disabled = busy (replicate 7 0 @ replicate 11 1) busy_crew"

text \<open>An operator activates the subscription again; two more requests are let through.\<close>

definition busy_senv :: senv where
  "busy_senv = (pe_finish demo_penv)\<lparr>e_call := ok_call 6 ''f''\<rparr>"

definition busy_active :: crew where
  "busy_active = (case StateUpdate plain_pg (SubCfg busy_cfg) busy_senv (w_db (cr_world busy_disabled)) (demo_sub\<lparr>S_ID := ''s''\<rparr>)
       (w_sub (cr_world busy_disabled)) of
     (_, d, b) \<Rightarrow> busy_disabled\<lparr>cr_now := 6, cr_world := (cr_world busy_disabled)\<lparr>w_db := d, w_sub := b\<rparr>\<rparr>)"

definition busy_again :: crew where
  "busy_again = busy (replicate 7 2 @ replicate 7 3) busy_active"

fun requests_for :: "string \<Rightarrow> worker \<Rightarrow> bool" where
  "requests_for i (Admitted _ sub _ _ _) \<longleftrightarrow> S_ID sub = i"
| "requests_for i _ \<longleftrightarrow> False"

section \<open>The run is one of the crew's\<close>

lemma busy_writes: "writes_at plain_pg 6 busy_penv"
  by (simp add: writes_at_def busy_penv_def demo_penv_def Let_def demo_call_ok)

lemma busy_disabled_run: "(crew_step plain_pg jv busy_cfg)\<^sup>*\<^sup>* busy_crew busy_disabled"
  unfolding busy_disabled_def by (rule turns_run [OF busy_writes]) code_simp

lemma StateUpdate_db: "fst (snd (StateUpdate pg cfg e d sub s)) = snd (UpdateSub pg (e_call e) d sub)"
  by (auto simp: StateUpdate_def split: prod.splits sum.splits)

lemma busy_update_step: "crew_step plain_pg jv busy_cfg busy_disabled busy_active"
proof -
  let ?w = "cr_world busy_disabled"
  let ?u = "StateUpdate plain_pg (SubCfg busy_cfg) busy_senv (w_db ?w) (demo_sub\<lparr>S_ID := ''s''\<rparr>) (w_sub ?w)"
  let ?w' = "?w\<lparr>w_db := fst (snd ?u), w_sub := snd (snd ?u)\<rparr>" and ?c = "ok_call 6 ''f''"
  have c: "e_call busy_senv = ?c" by (simp add: busy_senv_def)
  have now: "cr_now busy_disabled = 6" by code_simp
  have "timely 6 (held busy_disabled)" "\<not> holds (held busy_disabled) ''f''"
    unfolding timely_held holds_held by code_simp+
  moreover have "other_call plain_pg jv ?c (w_db ?w) (w_db ?w')"
    using update_call [of plain_pg jv ?c "w_db ?w" "demo_sub\<lparr>S_ID := ''s''\<rparr>"] by (simp add: StateUpdate_db c)
  moreover have "keeps_permits ?w ?w'" by (rule boundary_keeps_permits(3))
  moreover have "keeps_breakers ?w ?w'" by (simp add: keeps_breakers_def)
  ultimately have "crew_step plain_pg jv busy_cfg busy_disabled (busy_disabled\<lparr>cr_now := c_now ?c, cr_world := ?w'\<rparr>)"
    using now by (intro others) (simp_all add: demo_call_ok)
  then show ?thesis by (simp add: busy_active_def case_prod_beta)
qed

lemma busy_again_run: "(crew_step plain_pg jv busy_cfg)\<^sup>*\<^sup>* busy_active busy_again"
  unfolding busy_again_def by (rule turns_run [OF busy_writes]) code_simp

lemma busy_ingest_inv:
  assumes "db_inv plain_pg 2 d" and "fresh_webhook plain_pg d (''w'' @ u)" and "u \<noteq> []"
  shows "db_inv plain_pg 2 (busy_ingest u d)"
proof -
  have "db_inv plain_pg (c_now (ok_call 2 u)) (snd (IngestPending (\<lambda>_. True) plain_pg (ok_call 2 u) d (demo_params [] (''w'' @ u))))"
  proof (rule IngestPending_inv [OF assms(1)])
    show "uuid_in plain_pg (c_uuid (ok_call 2 u)) = Some (c_uuid (ok_call 2 u))" using assms(3) by (simp add: plain_pg_def)
    show "uuid_in plain_pg i = Some j \<Longrightarrow> uuid_in plain_pg j = Some j" for i j using plain_pg_ok by (simp add: pg_ok_def)
  qed (use assms(2) in \<open>simp_all add: demo_params_def\<close>)
  then show ?thesis by (simp add: busy_ingest_def)
qed

lemma busy_inv: "crew_inv plain_pg busy_crew"
proof -
  let ?d = "\<lambda>us. fold busy_ingest us demo_db1"
  have "(db_step plain_pg (\<lambda>_. True))\<^sup>*\<^sup>* (0, empty_db) (1, demo_db1)" using demo_run1 by (rule r_into_rtranclp)
  then have "db_inv plain_pg 1 demo_db1" by (rule store_run_inv [OF plain_pg_ok])
  then have d0: "db_inv plain_pg 2 (?d [])" by (simp add: db_inv_mono)
  have fresh: "fresh_webhook plain_pg (?d []) ''wa''" "fresh_webhook plain_pg (?d [''a'']) ''wb''"
    "fresh_webhook plain_pg (?d [''a'', ''b'']) ''wc''" "fresh_webhook plain_pg (?d [''a'', ''b'', ''c'']) ''wd''" by code_simp+
  have d1: "db_inv plain_pg 2 (?d [''a''])" using busy_ingest_inv [OF d0, of "''a''"] fresh(1) by simp
  have d2: "db_inv plain_pg 2 (?d [''a'', ''b''])" using busy_ingest_inv [OF d1, of "''b''"] fresh(2) by simp
  have d3: "db_inv plain_pg 2 (?d [''a'', ''b'', ''c''])" using busy_ingest_inv [OF d2, of "''c''"] fresh(3) by simp
  have "db_inv plain_pg 2 (?d [''a'', ''b'', ''c'', ''d''])" using busy_ingest_inv [OF d3, of "''d''"] fresh(4) by simp
  then have "db_inv plain_pg 3 (?d [''a'', ''b'', ''c'', ''d''])" by (rule db_inv_mono) simp
  then show ?thesis using plain_pg_ok by (simp add: crew_inv_def busy_crew_def worker_ok_def)
qed

text \<open>The documented maximum of concurrent deliveries per subscription is not kept: a run from a fresh process in
  which more requests of one subscription are in flight than the configured limit.\<close>

theorem limit_exceeded_after_disable:
  "\<exists>s s'. fresh_crew s \<and> crew_inv plain_pg s \<and> (crew_step plain_pg (\<lambda>_. True) busy_cfg)\<^sup>*\<^sup>* s s'
    \<and> ConcurrencyLimit (SubCfg busy_cfg) < length (filter (requests_for ''s'') (cr_workers s'))"
proof (intro exI conjI)
  show "fresh_crew busy_crew"
    by (simp add: fresh_crew_def busy_crew_def demo_world_def NewState_def NewRegistry_def)
  show "crew_inv plain_pg busy_crew" by (rule busy_inv)
  show "(crew_step plain_pg (\<lambda>_. True) busy_cfg)\<^sup>*\<^sup>* busy_crew busy_again"
    using busy_disabled_run busy_update_step busy_again_run by (meson rtranclp.rtrancl_into_rtrancl rtranclp_trans)
  show "ConcurrencyLimit (SubCfg busy_cfg) < length (filter (requests_for ''s'') (cr_workers busy_again))"
    by code_simp
qed

end
