(* ===== verification/Interleavings.thy ===== *)
theory Interleavings
  imports System Probes Retired_Permits
begin

text \<open>
  The interleaved goroutines and the store: whatever order their calls come in, the database sees a run of the
  store's relation \<open>db_step\<close>, so what is proved of every history of the store holds of every interleaving.
\<close>

lemma crew_step_by:
  assumes "crew_step pg jv cfg s s'"
  shows "by_time pg jv (cr_now s, w_db (cr_world s)) (cr_now s', w_db (cr_world s'))"
  using assms
proof cases
  case (begins t lid)
  then show ?thesis by (simp add: spawn_def by_time_refl)
next
  case (works t k e h)
  from wstep_step [OF works(5,2), of cfg h "cr_workers s ! k" "cr_world s" jv] show ?thesis
    using works(2) by (auto simp: works(1) by_time_refl by_time_def)
next
  case (others c w')
  from other_call_step [OF others(6,4)] show ?thesis using others(2) by (auto simp: others(1) by_time_refl by_time_def)
qed

lemma crew_run_by:
  "(crew_step pg jv cfg)\<^sup>*\<^sup>* s s' \<Longrightarrow> by_time pg jv (cr_now s, w_db (cr_world s)) (cr_now s', w_db (cr_world s'))"
  by (induction rule: rtranclp_induct) (auto intro: by_time_refl by_time_trans crew_step_by)



end
