(* ===== verification/Cache_Coherence.thy ===== *)
theory Cache_Coherence
  imports Subscription_State
begin

text \<open>
  The read-through cache of subscriptions never serves a stale subscription: every write to a
  subscription goes through the state boundary, which evicts the entry or, when Redis does not answer,
  marks the key dirty for as long as the old entry can live.
\<close>

section \<open>Coherence\<close>

text \<open>A live cache entry of a canonical id shows the stored row, unless the key is dirty until the
  entry has expired.\<close>

definition entry_ok :: "time \<Rightarrow> db \<Rightarrow> SubState \<Rightarrow> string \<Rightarrow> bool" where
  "entry_ok now d s i \<longleftrightarrow> (\<forall>sub expiry. ss_cache s (cache_key i) = Some (Some sub, expiry) \<longrightarrow>
     map_option scanSubscription (sub_by_id d i) = Some sub \<or> expiry \<le> now
     \<or> (\<exists>u. ss_dirty s i = Some u \<and> expiry \<le> u))"

definition coherent :: "pgsql \<Rightarrow> SubConfig \<Rightarrow> time \<times> db \<times> SubState \<Rightarrow> bool" where
  "coherent pg cfg x \<longleftrightarrow> (case x of (now, d, s) \<Rightarrow>
     keyed s_id (subscriptions d)
     \<and> (\<forall>i. uuid_in pg i = Some i \<longrightarrow> entry_ok now d s i)
     \<and> (\<forall>k v expiry. ss_cache s k = Some (v, expiry) \<longrightarrow> expiry \<le> now + CacheTTL cfg))"

lemma cache_key_inj [simp]: "cache_key i = cache_key j \<longleftrightarrow> i = j"
  by (simp add: cache_key_def)

lemma coherent_new: "coherent pg cfg (t, empty_db, NewState cfg)"
  by (simp add: coherent_def entry_ok_def NewState_def empty_db_def keyed_def)

lemma entry_ok_mono:
  "entry_ok t d s i \<Longrightarrow> t \<le> t' \<Longrightarrow> sub_by_id d' i = sub_by_id d i \<Longrightarrow> entry_ok t' d' s i"
  by (force simp: entry_ok_def)

lemma coherent_same:
  assumes "coherent pg cfg (t, d, s)" and "t \<le> t'" and "\<And>i. sub_by_id d' i = sub_by_id d i"
    and "keyed s_id (subscriptions d')"
  shows "coherent pg cfg (t', d', s)"
  using assms by (force simp: coherent_def intro: entry_ok_mono)

lemma entry_ok_other:
  assumes "ss_cache s' = (ss_cache s)(cache_key i := v)" and "ss_dirty s' = (ss_dirty s)(i := u)" and "j \<noteq> i"
  shows "entry_ok t d s' j = entry_ok t d s j"
  using assms by (simp add: entry_ok_def)

lemma evict_fields:
  "\<exists>v u. ss_cache (evictLocked cfg e i s) = (ss_cache s)(cache_key i := v)
       \<and> ss_dirty (evictLocked cfg e i s) = (ss_dirty s)(i := u)
       \<and> (v = None \<or> v = ss_cache s (cache_key i) \<and> u = Some (e_now e + CacheTTL cfg))"
proof (cases "e_del e")
  case Done
  then show ?thesis by (intro exI [of _ None]) (simp add: evictLocked_def cache_del_def clearDirty_def)
next
  case NotRun
  then show ?thesis
    by (intro exI [of _ "ss_cache s (cache_key i)"] exI [of _ "Some (e_now e + CacheTTL cfg)"])
      (simp add: evictLocked_def cache_del_def markDirty_def)
next
  case ReplyLost
  then show ?thesis
    by (intro exI [of _ None] exI [of _ "Some (e_now e + CacheTTL cfg)"])
      (simp add: evictLocked_def cache_del_def markDirty_def)
qed

lemma coherent_evict:
  assumes coh: "coherent pg cfg (t, d, s)" and now: "t \<le> e_now e"
    and other: "\<And>j. j \<noteq> i \<Longrightarrow> sub_by_id d' j = sub_by_id d j" and key: "keyed s_id (subscriptions d')"
  shows "coherent pg cfg (e_now e, d', evictLocked cfg e i s)"
proof -
  obtain v u where f: "ss_cache (evictLocked cfg e i s) = (ss_cache s)(cache_key i := v)"
    "ss_dirty (evictLocked cfg e i s) = (ss_dirty s)(i := u)"
    and vu: "v = None \<or> v = ss_cache s (cache_key i) \<and> u = Some (e_now e + CacheTTL cfg)"
    using evict_fields [of cfg e i s] by blast
  have ttl: "expiry \<le> e_now e + CacheTTL cfg" if "ss_cache s k = Some (w, expiry)" for k w expiry
    using coh that now by (force simp: coherent_def)
  have "entry_ok (e_now e) d' (evictLocked cfg e i s) j" if j: "uuid_in pg j = Some j" for j
  proof (cases "j = i")
    case True
    show ?thesis using vu ttl [of "cache_key i"] f True by (auto simp: entry_ok_def dest!: sym [of "Some _"])
  next
    case False
    have "entry_ok t d s j" using coh j by (simp add: coherent_def)
    then show ?thesis using entry_ok_other [OF f False] entry_ok_mono [OF _ now other [OF False]] by blast
  qed
  moreover have "expiry \<le> e_now e + CacheTTL cfg"
    if "ss_cache (evictLocked cfg e i s) k = Some (w, expiry)" for k w expiry
    using that vu ttl f by (auto split: if_splits dest!: sym [of "Some _"])
  ultimately show ?thesis using key by (simp add: coherent_def)
qed

lemma coherent_reset: "coherent pg cfg (t, d, resetRuntime i s) = coherent pg cfg (t, d, s)"
  by (simp add: coherent_def entry_ok_def resetRuntime_def)

section \<open>Reads\<close>

text \<open>What the repository would answer without a fault.\<close>

definition stored :: "db \<Rightarrow> string \<Rightarrow> Subscription result" where
  "stored d i = (case sub_by_id d i of None \<Rightarrow> Inl ErrNotFound | Some r \<Rightarrow> Inr (scanSubscription r))"

lemma GetSubByID_cases:
  assumes "uuid_in pg i = Some i"
  shows "GetSubByID pg c d i = stored d i \<or> GetSubByID pg c d i = Inl (ErrOther ''store: get subscription'')"
  using assms by (auto simp: GetSubByID_def read_run_def select_sub_def stored_def split: option.splits)

lemma coherent_put:
  assumes coh: "coherent pg cfg (t, d, s)" and now: "t \<le> now"
    and f: "ss_cache s' = (ss_cache s)(cache_key i := v)" "ss_dirty s' = (ss_dirty s)(i := u)"
    and v: "v = None \<or> (\<exists>sub. v = Some (Some sub, now + CacheTTL cfg) \<and> stored d i = Inr sub)
      \<or> v = ss_cache s (cache_key i) \<and> (u = ss_dirty s i \<or> u = Some (now + CacheTTL cfg))"
  shows "coherent pg cfg (now, d, s')"
proof -
  have ttl: "expiry \<le> now + CacheTTL cfg" if "ss_cache s k = Some (w, expiry)" for k w expiry
    using coh that now by (force simp: coherent_def)
  have ok: "entry_ok now d s j" if "uuid_in pg j = Some j" for j
    using coh that entry_ok_mono [OF _ now refl] by (simp add: coherent_def)
  have "entry_ok now d s' j" if j: "uuid_in pg j = Some j" for j
  proof (cases "j = i")
    case True
    show ?thesis
      using v ok [OF j] ttl [of "cache_key i"] f True
      by (elim disjE) (auto simp: entry_ok_def stored_def split: option.splits dest!: sym [of "Some _"])
  next
    case False
    then show ?thesis using entry_ok_other [OF f False] ok [OF j] by simp
  qed
  moreover have "expiry \<le> now + CacheTTL cfg" if "ss_cache s' k = Some (w, expiry)" for k w expiry
    using that v ttl f by (auto split: if_splits dest!: sym [of "Some _"])
  ultimately show ?thesis using coh by (simp add: coherent_def)
qed

lemma refreshSub_coherent:
  assumes "coherent pg cfg (t, d, s)" "t \<le> e_now e" "uuid_in pg i = Some i"
    and "refreshSub pg cfg e d i s = (res, s')"
  shows "coherent pg cfg (e_now e, d, s') \<and> (res = stored d i \<or> res = Inl (ErrOther ''store: get subscription''))"
proof -
  let ?g = "GetSubByID pg (e_call e) d i"
  note g = GetSubByID_cases [OF assms(3), of "e_call e" d]
  show ?thesis
  proof (cases ?g)
    case (Inl err)
    then have res: "res = ?g" using assms(4) by (auto simp: refreshSub_def split: if_splits prod.splits bool.splits)
    have "coherent pg cfg (e_now e, d, s')"
    proof (cases "err = ErrNotFound")
      case True
      then show ?thesis using Inl assms(4)
        by (intro coherent_put [OF assms(1,2), of s' i "if e_del e = NotRun then ss_cache s (cache_key i) else None"
              "if e_del e = Done then None else ss_dirty s i"])
          (auto simp: refreshSub_def cache_del_def clearDirty_def split: if_splits bool.splits)
    next
      case False
      then have "s' = s" using Inl assms(4) by (auto simp: refreshSub_def)
      then show ?thesis using coherent_same [OF assms(1,2)] assms(1) by (simp add: coherent_def)
    qed
    with res g show ?thesis by metis
  next
    case (Inr sub)
    have st: "stored d i = Inr sub" using g Inr by simp
    have st2: "res = Inr sub" using Inr assms(4) by (auto simp: refreshSub_def split: prod.splits bool.splits)
    have "coherent pg cfg (e_now e, d, s')"
      using Inr assms(4) st
      by (intro coherent_put [OF assms(1,2), of s' i
            "if e_set e = NotRun then ss_cache s (cache_key i) else Some (Some sub, e_now e + CacheTTL cfg)"
            "if e_set e = Done then None else Some (e_now e + CacheTTL cfg)"])
        (auto simp: refreshSub_def cache_set_def clearDirty_def markDirty_def split: if_splits bool.splits)
    with st st2 show ?thesis by simp
  qed
qed

lemma isDirty_coherent:
  assumes "coherent pg cfg (t, d, s)" "t \<le> now" "isDirty now i s = (b, s')" "uuid_in pg i = Some i"
  shows "coherent pg cfg (now, d, s') \<and> ss_cache s' = ss_cache s
    \<and> (\<not> b \<longrightarrow> (\<forall>sub expiry. ss_cache s (cache_key i) = Some (Some sub, expiry) \<and> now < expiry \<longrightarrow> stored d i = Inr sub))"
proof -
  have ok: "entry_ok t d s i" using assms(1,4) by (simp add: coherent_def)
  have base: "coherent pg cfg (now, d, s)"
    using coherent_same [OF assms(1,2)] assms(1) by (simp add: coherent_def)
  show ?thesis
  proof (cases "ss_dirty s i")
    case None
    then have "s' = s" "\<not> b" using assms(3) by (auto simp: isDirty_def)
    with base ok None assms(2) show ?thesis by (auto simp: entry_ok_def stored_def)
  next
    case (Some u)
    show ?thesis
    proof (cases "now > u")
      case True
      then have s': "s' = s\<lparr>ss_dirty := (ss_dirty s)(i := None)\<rparr>" using Some assms(3) by (simp add: isDirty_def)
      have fresh: "stored d i = Inr sub" if "ss_cache s (cache_key i) = Some (Some sub, expiry)" "now < expiry" for sub expiry
        using ok that Some True assms(2) by (auto simp: entry_ok_def stored_def)
      have "entry_ok now d s' j" if "uuid_in pg j = Some j" for j
      proof (cases "j = i")
        case True
        then show ?thesis using fresh by (force simp: s' entry_ok_def stored_def split: option.splits)
      next
        case False
        then show ?thesis using base that by (simp add: coherent_def entry_ok_def s')
      qed
      then have "coherent pg cfg (now, d, s')" using base by (simp add: coherent_def s')
      with fresh s' show ?thesis by auto
    next
      case False
      then have "s' = s" "b" using Some assms(3) by (auto simp: isDirty_def)
      with base show ?thesis by simp
    qed
  qed
qed

lemma StateGetByID_coherent:
  assumes "coherent pg cfg (t, d, s)" "t \<le> e_now e" "uuid_in pg i = Some i"
    and "StateGetByID pg cfg e d i s = (res, s')"
  shows "coherent pg cfg (e_now e, d, s') \<and> (res = stored d i \<or> res = Inl (ErrOther ''store: get subscription''))"
proof -
  obtain b s1 where b: "isDirty (e_now e) i s = (b, s1)" by fastforce
  note dirty = isDirty_coherent [OF assms(1,2) b assms(3)]
  then have coh1: "coherent pg cfg (e_now e, d, s1)" by blast
  consider (refresh) "refreshSub pg cfg e d i s1 = (res, s')"
    | (hit) sub expiry where "\<not> b" "ss_cache s (cache_key i) = Some (Some sub, expiry)" "e_now e < expiry"
        "res = Inr sub" "s' = s1"
    | (direct) "res = GetSubByID pg (e_call e) d i" "s' = s1"
  proof (cases b)
    case True
    then show ?thesis using that(1) assms(4) b by (simp add: StateGetByID_def)
  next
    case False
    show ?thesis
    proof (cases "cache_get (e_get e) (e_now e) (cache_key i) s1")
      case (Hit v)
      then obtain expiry where h: "ss_cache s1 (cache_key i) = Some (v, expiry)" "e_now e < expiry"
        by (auto simp: cache_get_def split: if_splits option.splits)
      show ?thesis
      proof (cases v)
        case None
        then show ?thesis using that(1) assms(4) b False Hit by (simp add: StateGetByID_def)
      next
        case (Some sub)
        then show ?thesis using that(2) [of sub expiry] assms(4) b False Hit h dirty by (simp add: StateGetByID_def)
      qed
    next
      case Miss
      then show ?thesis using that(1) assms(4) b False by (simp add: StateGetByID_def)
    next
      case ReadError
      then show ?thesis using that(3) assms(4) b False by (simp add: StateGetByID_def)
    qed
  qed
  then show ?thesis
  proof cases
    case refresh
    show ?thesis by (rule refreshSub_coherent [OF coh1 order_refl assms(3) refresh])
  next
    case hit
    with dirty coh1 show ?thesis by auto
  next
    case direct
    with coh1 GetSubByID_cases [OF assms(3), of "e_call e" d] show ?thesis by simp
  qed
qed

section \<open>Writes\<close>

lemma lookup_update_other:
  assumes "\<And>r. s_id (f r) = s_id r" and "j \<noteq> i"
  shows "lookup_row s_id j (sql_update (\<lambda>r. s_id r = i \<and> P r) f t) = lookup_row s_id j t"
  using assms by (auto simp: lookup_row_update map_option_case dest: lookup_row_SomeD split: option.splits)

text \<open>How a repository call may change the subscription table: not at all, or one row, or by insertion.\<close>

definition only_sub :: "string \<Rightarrow> db \<Rightarrow> db \<Rightarrow> bool" where
  "only_sub i d d' \<longleftrightarrow> (\<forall>j. j \<noteq> i \<longrightarrow> sub_by_id d' j = sub_by_id d j)
     \<and> (keyed s_id (subscriptions d) \<longrightarrow> keyed s_id (subscriptions d'))"

lemma only_sub_refl: "subscriptions d' = subscriptions d \<Longrightarrow> only_sub i d d'"
  by (simp add: only_sub_def)

lemma only_sub_update:
  assumes "\<And>r. s_id (f r) = s_id r" "subscriptions d' = sql_update (\<lambda>r. s_id r = i \<and> P r) f (subscriptions d)"
  shows "only_sub i d d'"
  using assms lookup_update_other [of f] by (auto simp: only_sub_def intro: keyed_update)

lemma update_returning_only:
  assumes "\<And>r. s_id (f r) = s_id r" "update_sub_returning pg i f d = (Inr x, d')" "uuid_in pg i = Some i"
  shows "only_sub i d d'"
  using assms only_sub_update [of f d' i "\<lambda>_. True" d] by (auto simp: update_sub_returning_Inr)

lemma pool_run_Inl: "pool_run c st d = (Inl e, d') \<Longrightarrow> c_commit c \<noteq> CommitLost \<Longrightarrow> d' = d"
  by (auto simp: pool_run_def split: if_splits prod.splits sum.splits commit.splits)

lemma inTx_Inl: "inTx c op fn d = (Inl e, d') \<Longrightarrow> c_commit c \<noteq> CommitLost \<Longrightarrow> d' = d"
  by (auto simp: inTx_def split: if_splits prod.splits sum.splits commit.splits)

lemma UpdateSub_effect:
  assumes "UpdateSub pg c d sub = (res, d')" "uuid_in pg (S_ID sub) = Some (S_ID sub)" "c_commit c \<noteq> CommitLost"
  shows "(\<exists>err. res = Inl err \<and> d' = d) \<or> (\<exists>x. res = Inr x) \<and> only_sub (S_ID sub) d d'"
  using assms update_returning_only [of "updated_sub c sub"]
  by (auto simp: UpdateSub_def updated_sub_def split: prod.splits sum.splits if_splits
      dest: pool_run_Inl dest!: pool_run_Inr)

lemma RotateSecretSub_effect:
  assumes "RotateSecretSub pg c d i k = (res, d')" "uuid_in pg i = Some i" "c_commit c \<noteq> CommitLost"
  shows "(\<exists>err. res = Inl err \<and> d' = d) \<or> (\<exists>x. res = Inr x) \<and> only_sub i d d'"
  using assms update_returning_only [of "rotated_sub c k"]
  by (auto simp: RotateSecretSub_def rotated_sub_def split: prod.splits sum.splits if_splits
      dest: pool_run_Inl dest!: pool_run_Inr)

lemma DeleteSub_effect:
  assumes "DeleteSub pg c d i = (res, d')" "uuid_in pg i = Some i" "c_commit c \<noteq> CommitLost"
  shows "(\<exists>err. res = Inl err \<and> subscriptions d' = subscriptions d) \<or> (\<exists>x. res = Inr x) \<and> only_sub i d d'"
proof -
  obtain x d1 where p: "pool_run c (delete_sub_stmt pg i) d = (x, d1)" by fastforce
  show ?thesis
  proof (cases x)
    case (Inl e)
    then have "d1 = d" using p assms(3) by (auto dest: pool_run_Inl)
    then show ?thesis using assms(1) p Inl by (auto simp: DeleteSub_def split: if_splits)
  next
    case (Inr n)
    then have "delete_sub_stmt pg i d = (Inr n, d1)" using p by (auto dest: pool_run_Inr)
    then have n: "n = rows_affected (\<lambda>r. s_id r = i) (subscriptions d)"
      and d1: "subscriptions d1 = sql_delete (\<lambda>r. s_id r = i) (subscriptions d)"
      using assms(2) by (auto simp: delete_sub_stmt_def)
    have "only_sub i d d1" by (auto simp: only_sub_def d1 lookup_row_delete_key intro: keyed_delete)
    moreover have "subscriptions d1 = subscriptions d" if "n = 0"
      using that by (auto simp: n rows_affected_0 d1 sql_delete_def)
    ultimately show ?thesis using assms(1) p Inr by (auto simp: DeleteSub_def split: if_splits)
  qed
qed

lemma CreateSub_effect:
  assumes "CreateSub c d sub = (res, d')" "c_commit c \<noteq> CommitLost"
  shows "(\<exists>err. res = Inl err \<and> d' = d) \<or> (\<exists>x. res = Inr x \<and> only_sub (S_ID x) d d')"
proof -
  obtain x d1 where p: "pool_run c (insert_sub c sub) d = (x, d1)" by fastforce
  show ?thesis
  proof (cases x)
    case (Inl e)
    then show ?thesis using assms p by (auto simp: CreateSub_def dest: pool_run_Inl)
  next
    case (Inr r)
    then have "insert_sub c sub d = (Inr r, d1)" using p by (auto dest: pool_run_Inr)
    then have "subscriptions d1 = sql_insert r (subscriptions d)" "sub_by_id d (s_id r) = None"
      by (auto simp: insert_sub_def Let_def split: if_splits)
    then have "only_sub (s_id r) d d1"
      by (auto simp: only_sub_def lookup_row_insert keyed_insert lookup_row_None [of s_id "s_id r"] split: option.splits)
    then show ?thesis using assms(1) p Inr by (auto simp: CreateSub_def)
  qed
qed

lemma MarkSuccess_effect:
  assumes "MarkSuccess pg c d lid i st = (res, d')" "uuid_in pg i = Some i" "c_commit c \<noteq> CommitLost"
    and key: "keyed s_id (subscriptions d)"
  shows "(\<exists>won. res = Inr (won, True)) \<and> only_sub i d d' \<or> (\<nexists>won. res = Inr (won, True)) \<and> subscriptions d' = subscriptions d"
proof (cases res)
  case (Inl e)
  then show ?thesis using inTx_Inl [OF assms(1) [unfolded MarkSuccess_def Inl] assms(3)] by simp
next
  case (Inr p)
  let ?P = "\<lambda>r. s_id r = i \<and> s_consecutive_failures r \<noteq> 0"
  from inTx_Inr [OF assms(1) [unfolded MarkSuccess_def Inr]] assms(2) have
    "subscriptions d' = subscriptions d \<and> snd p = False
      \<or> snd p = (rows_affected ?P (subscriptions d) = 1) \<and> subscriptions d' = sql_update ?P (reset_failures c) (subscriptions d)"
    by (auto simp: mark_success_tx_def stmt_invs split: prod.splits sum.splits if_splits dest!: tx_run_Inr)
  then show ?thesis
  proof (elim disjE conjE)
    assume a: "snd p = (rows_affected ?P (subscriptions d) = 1)"
      "subscriptions d' = sql_update ?P (reset_failures c) (subscriptions d)"
    show ?thesis
    proof (cases "rows_affected ?P (subscriptions d) = 1")
      case True
      then show ?thesis using a Inr only_sub_update [OF _ a(2)] by (cases p) (auto simp: reset_failures_def)
    next
      case False
      then have z: "rows_affected ?P (subscriptions d) = 0" using rows_affected_key [OF key, of i "\<lambda>r. s_consecutive_failures r \<noteq> 0"] by linarith
      then have "subscriptions d' = subscriptions d" using a(2) by (simp add: rows_affected_0 sql_update_none)
      moreover have "\<not> snd p" using a(1) z by simp
      ultimately show ?thesis using Inr by (cases p) simp
    qed
  qed (use Inr in \<open>cases p; simp\<close>)
qed

lemma FinalizeFailure_effect:
  assumes "FinalizeFailure pg c d lid i st err th = (res, d')" "uuid_in pg i = Some i" "c_commit c \<noteq> CommitLost"
  shows "(\<exists>x. res = Inr (True, x)) \<and> only_sub i d d' \<or> (\<nexists>x. res = Inr (True, x)) \<and> subscriptions d' = subscriptions d"
proof (cases res)
  case (Inl e)
  then show ?thesis using inTx_Inl [OF assms(1) [unfolded FinalizeFailure_def Inl] assms(3)] by simp
next
  case (Inr p)
  from inTx_Inr [OF assms(1) [unfolded FinalizeFailure_def Inr]] assms(2) have
    "subscriptions d' = subscriptions d
      \<or> fst p \<and> subscriptions d' = sql_update (\<lambda>r. s_id r = i) (bump_failures c th) (subscriptions d)"
    by (auto simp: finalize_tx_def stmt_invs split: prod.splits sum.splits if_splits dest!: tx_run_Inr tx_run_Inl_ok)
  then show ?thesis
    using Inr only_sub_update [of "bump_failures c th" d' i "\<lambda>_. True" d] only_sub_refl [of d' d i]
    by (cases p) (auto simp: bump_failures_def)
qed

section \<open>The boundary as a transition system\<close>

text \<open>Operations on canonical ids, in any order and with any Redis faults; a repository call may fail,
  but a commit whose reply is lost is excluded. \<open>elsewhere\<close> is every call that leaves the subscription
  table alone.\<close>

definition env_ok :: "time \<Rightarrow> senv \<Rightarrow> bool" where
  "env_ok t e \<longleftrightarrow> t \<le> e_now e \<and> c_commit (e_call e) \<noteq> CommitLost"

inductive state_step :: "pgsql \<Rightarrow> SubConfig \<Rightarrow> time \<times> db \<times> SubState \<Rightarrow> time \<times> db \<times> SubState \<Rightarrow> bool" for pg cfg where
  get: "env_ok t e \<Longrightarrow> uuid_in pg i = Some i \<Longrightarrow>
    state_step pg cfg (t, d, s) (e_now e, d, snd (StateGetByID pg cfg e d i s))"
| create: "env_ok t e \<Longrightarrow> state_step pg cfg (t, d, s) (e_now e, snd (StateCreate cfg e d sub s))"
| update: "env_ok t e \<Longrightarrow> uuid_in pg (S_ID sub) = Some (S_ID sub) \<Longrightarrow>
    state_step pg cfg (t, d, s) (e_now e, snd (StateUpdate pg cfg e d sub s))"
| delete: "env_ok t e \<Longrightarrow> uuid_in pg i = Some i \<Longrightarrow>
    state_step pg cfg (t, d, s) (e_now e, snd (StateDelete pg cfg e d i s))"
| rotate: "env_ok t e \<Longrightarrow> uuid_in pg i = Some i \<Longrightarrow>
    state_step pg cfg (t, d, s) (e_now e, snd (StateRotateSecret pg cfg e d i k s))"
| success: "env_ok t e \<Longrightarrow> uuid_in pg i = Some i \<Longrightarrow>
    state_step pg cfg (t, d, s) (e_now e, snd (RecordDeliverySuccess pg cfg e d lid i st s))"
| failure: "env_ok t e \<Longrightarrow> uuid_in pg i = Some i \<Longrightarrow>
    state_step pg cfg (t, d, s) (e_now e, snd (RecordFinalFailure pg cfg e d lid i st' err th s))"
| elsewhere: "t \<le> t' \<Longrightarrow> subscriptions d' = subscriptions d \<Longrightarrow> state_step pg cfg (t, d, s) (t', d', s)"

lemma coherent_unchanged:
  "coherent pg cfg (t, d, s) \<Longrightarrow> t \<le> t' \<Longrightarrow> subscriptions d' = subscriptions d \<Longrightarrow> coherent pg cfg (t', d', s)"
  by (rule coherent_same [of pg cfg t d s t' d']) (simp_all add: coherent_def)

lemma coherent_only:
  assumes "coherent pg cfg (t, d, s)" "env_ok t e" "only_sub i d d'"
  shows "coherent pg cfg (e_now e, d', evictLocked cfg e i s)"
  using assms by (intro coherent_evict) (auto simp: env_ok_def only_sub_def coherent_def)

lemma state_step_coherent:
  assumes step: "state_step pg cfg x y" and coh: "coherent pg cfg x"
  shows "coherent pg cfg y"
  using step
proof cases
  case (get t e i d s)
  then show ?thesis
    using coh StateGetByID_coherent [of pg cfg t d s e i] by (metis env_ok_def prod.collapse)
next
  case (create t e d s sub)
  obtain res d' where r: "CreateSub (e_call e) d sub = (res, d')" by fastforce
  show ?thesis
    using coh create CreateSub_effect [OF r] r coherent_unchanged coherent_only
    by (auto simp: StateCreate_def evict_def env_ok_def)
next
  case (update t e sub d s)
  obtain res d' where r: "UpdateSub pg (e_call e) d sub = (res, d')" by fastforce
  show ?thesis
    using coh update UpdateSub_effect [OF r] r coherent_unchanged coherent_only
    by (auto simp: StateUpdate_def env_ok_def)
next
  case (delete t e i d s)
  obtain res d' where r: "DeleteSub pg (e_call e) d i = (res, d')" by fastforce
  show ?thesis
    using coh delete DeleteSub_effect [OF r] r coherent_unchanged coherent_only
    by (auto simp: StateDelete_def env_ok_def coherent_reset)
next
  case (rotate t e i d s k)
  obtain res d' where r: "RotateSecretSub pg (e_call e) d i k = (res, d')" by fastforce
  show ?thesis
    using coh rotate RotateSecretSub_effect [OF r] r coherent_unchanged coherent_only
    by (auto simp: StateRotateSecret_def env_ok_def)
next
  case (success t e i d s lid st)
  obtain res d' where r: "MarkSuccess pg (e_call e) d lid i st = (res, d')" by fastforce
  have key: "keyed s_id (subscriptions d)" using coh success(1) by (simp add: coherent_def)
  show ?thesis
    using coh success MarkSuccess_effect [OF r _ _ key] r coherent_unchanged [of pg cfg t d s "e_now e" d'] coherent_only [of pg cfg t d s e i d']
    by (auto simp: RecordDeliverySuccess_def env_ok_def split: sum.splits)
next
  case (failure t e i d s lid st' err th)
  obtain res d' where r: "FinalizeFailure pg (e_call e) d lid i st' err th = (res, d')" by fastforce
  show ?thesis
    using coh failure FinalizeFailure_effect [OF r] r coherent_unchanged [of pg cfg t d s "e_now e" d'] coherent_only [of pg cfg t d s e i d']
    by (auto simp: RecordFinalFailure_def env_ok_def Let_def coherent_reset split: sum.splits)
next
  case (elsewhere t t' d' d s)
  then show ?thesis using coh coherent_unchanged by blast
qed

interpretation boundary: step_invariant "state_step pg cfg" "coherent pg cfg" for pg cfg
  by unfold_locales (rule state_step_coherent)

section \<open>What readers see\<close>


definition demo_cfg :: SubConfig where
  "demo_cfg = \<lparr>CacheTTL = 60, RegistryIdleTTL = 100, RateLimitPerSec = 1, RateLimitBurst = 2, ConcurrencyLimit = 1\<rparr>"

definition demo_env :: "time \<Rightarrow> string \<Rightarrow> reply \<Rightarrow> senv" where
  "demo_env t u del = \<lparr>e_call = ok_call t u, e_now = t, e_get = Done, e_set = Done, e_del = del\<rparr>"


text \<open>A server that reads uuids without regard to case, as PostgreSQL does.\<close>

definition lower :: "char \<Rightarrow> char" where
  "lower c = (if 65 \<le> byte c \<and> byte c \<le> 90 then char_of (byte c + 32) else c)"

definition folding_pg :: pgsql where
  "folding_pg = \<lparr>uuid_in = (\<lambda>s. if s = [] then None else Some (map lower s)), jsonb_in = (\<lambda>s. s)\<rparr>"

text \<open>An alias of an id escapes invalidation: cache keys use the id text of the request, while the
  database accepts other spellings of a uuid. Rotating a secret through an upper-case spelling evicts
  the wrong key, and a read of the canonical id returns the old secret until the entry expires.\<close>

theorem alias_reads_stale:
  "let (_, d1, s1) = StateCreate demo_cfg (demo_env 1 ''a1'' Done) empty_db demo_sub (NewState demo_cfg);
       s2 = snd (StateGetByID folding_pg demo_cfg (demo_env 2 ''x'' Done) d1 ''a1'' s1);
       (r3, d3, s3) = StateRotateSecret folding_pg demo_cfg (demo_env 3 ''y'' Done) d1 ''A1'' ''new'' s2
   in map_sum (\<lambda>e. e) S_SecretKey r3 = Inr ''new''
    \<and> map_option s_secret_key (sub_by_id d3 ''a1'') = Some ''new''
    \<and> map_sum (\<lambda>e. e) S_SecretKey (fst (StateGetByID folding_pg demo_cfg (demo_env 4 ''z'' Done) d3 ''a1'' s3)) = Inr ''k''"
  by code_simp

end
