(* ===== verification/Safedial.thy ===== *)
theory Safedial
  imports Domain "HOL-Library.Word"
begin

unbundle bit_operations_syntax

text \<open>
  \<^verbatim>\<open>internal/infra/safedial\<close>: which addresses an outbound delivery may connect to. \<open>netip_addr\<close> is
  \<^verbatim>\<open>netip.Addr\<close>; its classification methods follow the package \<^verbatim>\<open>net/netip\<close> of the standard library, on
  the 32-bit and 128-bit address words. Resolver, host/port splitting and the dial itself are
  parameters.
\<close>

section \<open>Addresses\<close>

datatype netip_addr = NoAddr | V4 "32 word" | V6 "128 word" string

definition v4_byte :: "32 word \<Rightarrow> nat \<Rightarrow> 32 word" where
  "v4_byte w i = drop_bit (24 - 8 * i) w AND 0xFF"

definition v6_byte :: "128 word \<Rightarrow> nat \<Rightarrow> 128 word" where
  "v6_byte w i = drop_bit (120 - 8 * i) w AND 0xFF"

definition v6u16 :: "128 word \<Rightarrow> 128 word" where
  "v6u16 w = drop_bit 112 w AND 0xFFFF"

fun IsValid :: "netip_addr \<Rightarrow> bool" where
  "IsValid NoAddr = False" | "IsValid _ = True"

fun Unmap :: "netip_addr \<Rightarrow> netip_addr" where
  "Unmap (V6 w z) = (if drop_bit 32 w = 0xFFFF then V4 (ucast w) else V6 w z)"
| "Unmap a = a"

fun IsLoopback :: "netip_addr \<Rightarrow> bool" where
  "IsLoopback (V4 w) = (v4_byte w 0 = 127)"
| "IsLoopback (V6 w z) = (w = 1)"
| "IsLoopback NoAddr = False"

fun IsPrivate :: "netip_addr \<Rightarrow> bool" where
  "IsPrivate (V4 w) = (v4_byte w 0 = 10 \<or> (v4_byte w 0 = 172 \<and> v4_byte w 1 AND 0xF0 = 16)
     \<or> (v4_byte w 0 = 192 \<and> v4_byte w 1 = 168))"
| "IsPrivate (V6 w z) = (v6_byte w 0 AND 0xFE = 0xFC)"
| "IsPrivate NoAddr = False"

fun IsLinkLocalUnicast :: "netip_addr \<Rightarrow> bool" where
  "IsLinkLocalUnicast (V4 w) = (v4_byte w 0 = 169 \<and> v4_byte w 1 = 254)"
| "IsLinkLocalUnicast (V6 w z) = (v6u16 w AND 0xFFC0 = 0xFE80)"
| "IsLinkLocalUnicast NoAddr = False"

fun IsLinkLocalMulticast :: "netip_addr \<Rightarrow> bool" where
  "IsLinkLocalMulticast (V4 w) = (v4_byte w 0 = 224 \<and> v4_byte w 1 = 0 \<and> v4_byte w 2 = 0)"
| "IsLinkLocalMulticast (V6 w z) = (v6u16 w AND 0xFF0F = 0xFF02)"
| "IsLinkLocalMulticast NoAddr = False"

fun IsMulticast :: "netip_addr \<Rightarrow> bool" where
  "IsMulticast (V4 w) = (v4_byte w 0 AND 0xF0 = 0xE0)"
| "IsMulticast (V6 w z) = (drop_bit 120 w = 0xFF)"
| "IsMulticast NoAddr = False"

fun IsUnspecified :: "netip_addr \<Rightarrow> bool" where
  "IsUnspecified (V4 w) = (w = 0)"
| "IsUnspecified (V6 w z) = (w = 0 \<and> z = [])"
| "IsUnspecified NoAddr = False"

text \<open>An IPv4 prefix: address and length.\<close>

fun prefix_contains :: "32 word \<times> nat \<Rightarrow> netip_addr \<Rightarrow> bool" where
  "prefix_contains (p, n) (V4 w) = (drop_bit (32 - n) (w XOR p) = 0)"
| "prefix_contains _ _ = False"

definition blockedPrefixes :: "(32 word \<times> nat) list" where
  "blockedPrefixes = [(0x00000000, 8), (0x64400000, 10), (0xF0000000, 4)]"

definition isBlockedIP :: "netip_addr \<Rightarrow> bool" where
  "isBlockedIP addr0 =
     (let addr = Unmap addr0 in
      if \<not> IsValid addr then True
      else if IsLoopback addr \<or> IsPrivate addr \<or> IsLinkLocalUnicast addr \<or> IsLinkLocalMulticast addr
              \<or> IsMulticast addr \<or> IsUnspecified addr then True
      else if \<exists>p \<in> set blockedPrefixes. prefix_contains p addr then True
      else False)"

section \<open>Dialing\<close>

datatype dial_error = SplitFailed string | LookupFailed string | NoIPs string | Blocked netip_addr string | DialFailed string

definition SafeDialContext ::
  "(string \<Rightarrow> string + string \<times> string) \<Rightarrow> (string \<Rightarrow> string + netip_addr list)
     \<Rightarrow> (netip_addr \<Rightarrow> string \<Rightarrow> string + 'c) \<Rightarrow> string \<Rightarrow> dial_error + 'c" where
  "SafeDialContext split_host_port lookup dial addr =
     (case split_host_port addr of
        Inl e \<Rightarrow> Inl (SplitFailed e)
      | Inr (host, port) \<Rightarrow>
         (case lookup host of
            Inl e \<Rightarrow> Inl (LookupFailed e)
          | Inr ips \<Rightarrow>
             (if ips = [] then Inl (NoIPs host)
              else case find isBlockedIP ips of
                Some ip \<Rightarrow> Inl (Blocked ip host)
              | None \<Rightarrow> (case dial (ips ! 0) port of Inl e \<Rightarrow> Inl (DialFailed e) | Inr c \<Rightarrow> Inr c))))"

text \<open>\<open>via\<close> is the number of requests already made; \<open>None\<close> lets the client follow the redirect.\<close>

definition checkRedirect :: "bool \<Rightarrow> string \<Rightarrow> nat \<Rightarrow> string option" where
  "checkRedirect allowHTTP sch via =
     (if via \<ge> 3 then Some ''safedial: stopped after 3 redirects''
      else if sch = ''https'' then None
      else if sch = ''http'' then
        (if allowHTTP then None else Some ''safedial: refusing redirect to non-https URL'')
      else Some (''safedial: refusing redirect to scheme '' @ quoted sch))"

text \<open>The outbound client. \<open>hc_Proxy\<close> is absent: no proxy setting of the environment can lead around the
  dialer.\<close>

record 'c hardened_client =
  hc_Timeout :: duration
  hc_Proxy :: "string option"
  hc_DialContext :: "string \<Rightarrow> dial_error + 'c"
  hc_MaxIdleConns :: nat
  hc_MaxIdleConnsPerHost :: nat
  hc_IdleConnTimeout :: duration
  hc_TLSHandshakeTimeout :: duration
  hc_CheckRedirect :: "string \<Rightarrow> nat \<Rightarrow> string option"

definition NewHardenedClient ::
  "(string \<Rightarrow> string + string \<times> string) \<Rightarrow> (string \<Rightarrow> string + netip_addr list)
     \<Rightarrow> (netip_addr \<Rightarrow> string \<Rightarrow> string + 'c) \<Rightarrow> duration \<Rightarrow> bool \<Rightarrow> 'c hardened_client" where
  "NewHardenedClient split_host_port lookup dial timeout allowHTTP =
     \<lparr>hc_Timeout = timeout, hc_Proxy = None, hc_DialContext = SafeDialContext split_host_port lookup dial,
      hc_MaxIdleConns = 100, hc_MaxIdleConnsPerHost = 10, hc_IdleConnTimeout = 90 * second, hc_TLSHandshakeTimeout = 10 * second,
      hc_CheckRedirect = checkRedirect allowHTTP\<rparr>"

section \<open>What is blocked\<close>

text \<open>The blocked IPv4 networks, as intervals of addresses.\<close>

definition blocked_v4 :: "(nat \<times> nat) list" where
  "blocked_v4 = [(0x00000000, 0x00FFFFFF), (0x0A000000, 0x0AFFFFFF), (0x64400000, 0x647FFFFF),
     (0x7F000000, 0x7FFFFFFF), (0xA9FE0000, 0xA9FEFFFF), (0xAC100000, 0xAC1FFFFF),
     (0xC0A80000, 0xC0A8FFFF), (0xE0000000, 0xFFFFFFFF)]"

lemma and_high: "x AND push_bit k (mask m) = push_bit k (take_bit m (drop_bit k x))" for x :: nat
  by (rule bit_eqI) (auto simp: bit_simps)

lemma and_F0: "x AND 0xF0 = 16 * (x div 16 mod 16)" for x :: nat
  using and_high [of x 4 4]
  by (simp add: mask_eq_exp_minus_1 push_bit_eq_mult take_bit_eq_mod drop_bit_eq_div mult.commute)

lemma unat_v4_byte: "unat (v4_byte w i) = unat w div 2 ^ (24 - 8 * i) mod 256"
proof -
  have "v4_byte w i = take_bit 8 (drop_bit (24 - 8 * i) w)"
    by (simp add: v4_byte_def take_bit_eq_mask mask_eq_exp_minus_1)
  then have "unat (v4_byte w i) = take_bit 8 (drop_bit (24 - 8 * i) (unat w))"
    by (simp only: unsigned_take_bit_eq unat_drop_bit_eq)
  then show ?thesis by (simp add: take_bit_eq_mod drop_bit_eq_div)
qed

lemma v4_byte_eq: "v4_byte w i = numeral k \<longleftrightarrow> unat w div 2 ^ (24 - 8 * i) mod 256 = unat (numeral k :: 32 word)"
  by (metis unat_v4_byte word_unat_eq_iff)

lemma v4_byte_F0: "v4_byte w i AND 0xF0 = v \<longleftrightarrow> 16 * (unat w div 2 ^ (24 - 8 * i) mod 256 div 16 mod 16) = unat v"
proof -
  have "unat (v4_byte w i AND 0xF0) = unat (v4_byte w i) AND 0xF0" by (simp add: unsigned_and_eq)
  then show ?thesis unfolding and_F0 unat_v4_byte by (metis word_unat_eq_iff)
qed

lemma prefix_contains_v4: "prefix_contains (p, n) (V4 w) \<longleftrightarrow> unat w div 2 ^ (32 - n) = unat p div 2 ^ (32 - n)"
proof -
  have "drop_bit (32 - n) (w XOR p) = 0 \<longleftrightarrow> drop_bit (32 - n) w = drop_bit (32 - n) p"
    by (auto simp: bit_eq_iff bit_simps)
  also have "\<dots> \<longleftrightarrow> unat w div 2 ^ (32 - n) = unat p div 2 ^ (32 - n)"
    unfolding word_unat_eq_iff unat_drop_bit_eq by (simp add: drop_bit_eq_div)
  finally show ?thesis by simp
qed

text \<open>All blocked networks but 100.64/10 are unions of /16 networks, and so are its bounds: the number \<open>q\<close> of the
  /16 network decides.\<close>

lemma blocked_intervals:
  fixes n :: nat
  assumes "n < 2 ^ 32" and q: "q = n div 65536"
  shows "(\<exists>(lo, hi) \<in> set blocked_v4. lo \<le> n \<and> n \<le> hi) \<longleftrightarrow>
      q \<le> 255 \<or> (2560 \<le> q \<and> q \<le> 2815) \<or> (25664 \<le> q \<and> q \<le> 25727) \<or> (32512 \<le> q \<and> q \<le> 32767)
      \<or> q = 43518 \<or> (44048 \<le> q \<and> q \<le> 44063) \<or> q = 49320 \<or> 57344 \<le> q"
proof -
  have lo: "167772160 \<le> n \<longleftrightarrow> 2560 \<le> q" "1681915904 \<le> n \<longleftrightarrow> 25664 \<le> q" "2130706432 \<le> n \<longleftrightarrow> 32512 \<le> q"
    "2851995648 \<le> n \<longleftrightarrow> 43518 \<le> q" "2886729728 \<le> n \<longleftrightarrow> 44048 \<le> q" "3232235520 \<le> n \<longleftrightarrow> 49320 \<le> q"
    "3758096384 \<le> n \<longleftrightarrow> 57344 \<le> q"
    unfolding q by linarith+
  have hi: "n \<le> 16777215 \<longleftrightarrow> q \<le> 255" "n \<le> 184549375 \<longleftrightarrow> q \<le> 2815" "n \<le> 1686110207 \<longleftrightarrow> q \<le> 25727"
    "n \<le> 2147483647 \<longleftrightarrow> q \<le> 32767" "n \<le> 2852061183 \<longleftrightarrow> q \<le> 43518" "n \<le> 2887778303 \<longleftrightarrow> q \<le> 44063"
    "n \<le> 3232301055 \<longleftrightarrow> q \<le> 49320"
    unfolding q by linarith+
  have "n \<le> 4294967295" using assms(1) by simp
  then show ?thesis by (simp add: blocked_v4_def lo hi eq_iff [of q] conj_commute)
qed

lemma two_bytes: "q div 256 = a \<and> q mod 256 = b \<longleftrightarrow> q = 256 * a + b" if "b < 256" for q a b :: nat
  using that by auto

lemma byte_and_nibble: "q div 256 = a \<and> q mod 256 div 16 = b \<longleftrightarrow> q div 16 = 16 * a + b" if "b < 16" for q a b :: nat
proof -
  have "q div 256 = q div 16 div 16" by (simp add: div_mult2_eq [symmetric])
  moreover have "q mod 256 div 16 = q div 16 mod 16" using mod_mult2_eq [of q 16 16] by simp
  ultimately show ?thesis using that by auto
qed

lemma blocked_arith:
  fixes n :: nat
  assumes "n < 2 ^ 32"
  shows "(n div 2 ^ 24 mod 256 = 127 \<or> n div 2 ^ 24 mod 256 = 10
     \<or> n div 2 ^ 24 mod 256 = 172 \<and> 16 * (n div 2 ^ 16 mod 256 div 16 mod 16) = 16
     \<or> n div 2 ^ 24 mod 256 = 192 \<and> n div 2 ^ 16 mod 256 = 168
     \<or> n div 2 ^ 24 mod 256 = 169 \<and> n div 2 ^ 16 mod 256 = 254
     \<or> 16 * (n div 2 ^ 24 mod 256 div 16 mod 16) = 224
     \<or> n div 2 ^ 24 = 0 \<or> n div 2 ^ 22 = 401 \<or> n div 2 ^ 28 = 15)
   \<longleftrightarrow> (\<exists>(lo, hi) \<in> set blocked_v4. lo \<le> n \<and> n \<le> hi)"
proof -
  define q where "q = n div 65536"
  have q: "q < 65536" "n div 2 ^ 16 = q" "n div 2 ^ 24 = q div 256" "n div 2 ^ 22 = q div 64" "n div 2 ^ 28 = q div 4096"
    using assms by (auto simp: q_def div_mult2_eq [symmetric] less_mult_imp_div_less)
  have E1: "q div 256 = 127 \<longleftrightarrow> 32512 \<le> q \<and> q \<le> 32767" "q div 256 = 10 \<longleftrightarrow> 2560 \<le> q \<and> q \<le> 2815"
    "q div 256 = 0 \<longleftrightarrow> q \<le> 255" "q div 64 = 401 \<longleftrightarrow> 25664 \<le> q \<and> q \<le> 25727" "q div 16 = 2753 \<longleftrightarrow> 44048 \<le> q \<and> q \<le> 44063"
    by linarith+
  have E2: "q div 256 = 172 \<and> q mod 256 div 16 = 1 \<longleftrightarrow> 44048 \<le> q \<and> q \<le> 44063"
    "q div 256 = 192 \<and> q mod 256 = 168 \<longleftrightarrow> q = 49320" "q div 256 = 169 \<and> q mod 256 = 254 \<longleftrightarrow> q = 43518"
    using E1(5) byte_and_nibble [of 1 q 172] two_bytes [of 168 q 192] two_bytes [of 254 q 169] by simp_all
  have E3: "q div 256 div 16 = 14 \<or> q div 4096 = 15 \<longleftrightarrow> 57344 \<le> q"
    using q(1) by linarith
  have M: "q div 256 mod 256 = q div 256" "q div 256 div 16 mod 16 = q div 256 div 16"
    "q mod 256 div 16 mod 16 = q mod 256 div 16"
    using q(1) by (simp_all add: less_mult_imp_div_less)
  have K: "16 * a = (16 :: nat) \<longleftrightarrow> a = 1" "16 * a = (224 :: nat) \<longleftrightarrow> a = 14" for a by linarith+
  show ?thesis unfolding q(2-5) M K blocked_intervals [OF assms q_def] E1(1-4) using E2 E3 by argo
qed

text \<open>C34. Deliveries cannot reach internal IPv4 networks: an IPv4 address is refused exactly when it lies
  in one of the networks 0/8, 10/8, 100.64/10, 127/8, 169.254/16, 172.16/12, 192.168/16 or from 224.0.0.0
  upwards, and an IPv4-mapped IPv6 address is treated as the IPv4 address it carries.\<close>

theorem blocked_v4_exact:
  "(isBlockedIP (V4 w) \<longleftrightarrow> (\<exists>(lo, hi) \<in> set blocked_v4. lo \<le> unat w \<and> unat w \<le> hi))
    \<and> (drop_bit 32 m = 0xFFFF \<longrightarrow> isBlockedIP (V6 m z) = isBlockedIP (V4 (ucast m)))"
proof -
  have lt: "unat w < 2 ^ 32" using unsigned_less [of w] by simp
  have multi: "IsLinkLocalMulticast (V4 w) \<Longrightarrow> IsMulticast (V4 w)" by simp
  have "isBlockedIP (V4 w) \<longleftrightarrow> (\<exists>(lo, hi) \<in> set blocked_v4. lo \<le> unat w \<and> unat w \<le> hi)"
    unfolding blocked_arith [OF lt, symmetric]
    using multi
    by (auto simp: isBlockedIP_def Let_def blockedPrefixes_def v4_byte_eq v4_byte_F0 prefix_contains_v4 simp del: prefix_contains.simps)
  then show ?thesis by (simp add: isBlockedIP_def)
qed

theorem blocked_v4_exact_witness:
  "isBlockedIP (V6 0xFFFF7F000001 []) = isBlockedIP (V4 0x7F000001) \<and> isBlockedIP (V4 0x7F000001)"
proof -
  have m: "drop_bit 32 (0xFFFF7F000001 :: 128 word) = 0xFFFF" by simp
  have u: "(ucast (0xFFFF7F000001 :: 128 word) :: 32 word) = 0x7F000001" by simp
  have "isBlockedIP (V6 0xFFFF7F000001 []) = isBlockedIP (V4 0x7F000001)"
    using blocked_v4_exact [of "0" "0xFFFF7F000001" "[]"] m unfolding u by blast
  moreover have "isBlockedIP (V4 0x7F000001)" using blocked_v4_exact [of "0x7F000001"] by (simp add: blocked_v4_def)
  ultimately show ?thesis by blast
qed

text \<open>C33. A connection is made only to a vetted address: \<open>SafeDialContext\<close> connects exactly when the host
  resolves to at least one address, none of them blocked, and dialing the first of them succeeds; the
  dial goes to that resolved address, so no second resolution can replace it.\<close>

theorem dial_only_vetted:
  "SafeDialContext sp lookup dial addr = Inr c \<longleftrightarrow>
     (\<exists>host port ip ips. sp addr = Inr (host, port) \<and> lookup host = Inr (ip # ips)
        \<and> (\<forall>a \<in> set (ip # ips). \<not> isBlockedIP a) \<and> dial ip port = Inr c)"
proof
  assume "SafeDialContext sp lookup dial addr = Inr c"
  then obtain host port ips where h: "sp addr = Inr (host, port)" "lookup host = Inr ips" "ips \<noteq> []"
    "find isBlockedIP ips = None" "dial (ips ! 0) port = Inr c"
    by (auto simp: SafeDialContext_def split: sum.splits prod.splits if_splits option.splits)
  then obtain ip rest where "ips = ip # rest" by (cases ips) auto
  with h show "\<exists>host port ip ips. sp addr = Inr (host, port) \<and> lookup host = Inr (ip # ips)
        \<and> (\<forall>a \<in> set (ip # ips). \<not> isBlockedIP a) \<and> dial ip port = Inr c"
    unfolding find_None_iff by (metis nth_Cons_0)
next
  assume "\<exists>host port ip ips. sp addr = Inr (host, port) \<and> lookup host = Inr (ip # ips)
        \<and> (\<forall>a \<in> set (ip # ips). \<not> isBlockedIP a) \<and> dial ip port = Inr c"
  then obtain host port ip ips where h: "sp addr = Inr (host, port)" "lookup host = Inr (ip # ips)"
    "\<forall>a \<in> set (ip # ips). \<not> isBlockedIP a" "dial ip port = Inr c" by blast
  then have "find isBlockedIP (ip # ips) = None" unfolding find_None_iff by blast
  with h show "SafeDialContext sp lookup dial addr = Inr c" by (simp add: SafeDialContext_def)
qed

theorem dial_only_vetted_witness:
  "SafeDialContext (\<lambda>a. Inr (a, ''443'')) (\<lambda>_. Inr [V4 0x08080808, V4 0x0A000001]) (\<lambda>ip p. Inr ()) ''h'' \<noteq> Inr ()"
proof -
  have "isBlockedIP (V4 0x0A000001)" using blocked_v4_exact [of "0x0A000001"] by (simp add: blocked_v4_def)
  then show ?thesis unfolding dial_only_vetted by auto
qed

text \<open>The hops a client takes when the server answers with redirects to the given schemes; \<open>via\<close> counts
  the requests already made.\<close>

fun follow :: "bool \<Rightarrow> nat \<Rightarrow> string list \<Rightarrow> string list" where
  "follow allowHTTP via [] = []"
| "follow allowHTTP via (sch # schs) =
     (case checkRedirect allowHTTP sch via of
        Some _ \<Rightarrow> []
      | None \<Rightarrow> sch # follow allowHTTP (Suc via) schs)"

lemma follow_bound: "length (follow a via schs) \<le> 3 - via"
  by (induction a via schs rule: follow.induct) (auto simp: checkRedirect_def split: option.splits if_splits)

lemma follow_schemes: "set (follow a via schs) \<subseteq> (if a then {''http'', ''https''} else {''https''})"
  by (induction a via schs rule: follow.induct) (auto simp: checkRedirect_def split: option.splits if_splits)

text \<open>Redirects are bounded and never downgrade: after the first request the client follows at most
  two redirects, and without \<open>allowHTTP\<close> every hop it follows is https.\<close>

theorem redirects_bounded:
  "length (follow allowHTTP 1 schs) \<le> 2 \<and> (\<not> allowHTTP \<longrightarrow> set (follow allowHTTP 1 schs) \<subseteq> {''https''})"
  using follow_bound [of allowHTTP 1 schs] follow_schemes [of allowHTTP 1 schs] by auto

theorem redirects_bounded_witness: "set (follow False 1 [''https'', ''http'', ''https'']) \<subseteq> {''https''}"
  using redirects_bounded [of False "[''https'', ''http'', ''https'']"] by blast

end
