(* ===== verification/Spec2Isabelle.thy ===== *)
theory Spec2Isabelle
  imports Interleavings Cache_Coherence Safedial
begin

text \<open>
  \<^bold>\<open>A webhook delivery service, modelled and verified\<close>

  \<^bold>\<open>The program.\<close> A producer posts a signed event for a subscription. The API authenticates it, stores it in
  PostgreSQL together with its first delivery attempt, and puts the attempt's id on a Redis work queue. A
  worker pool takes ids from the queue; the delivery engine claims the attempt under a lease, checks the
  subscription, its concurrency permit and the target's circuit breaker, sends the signed webhook, and
  records the outcome: success, a failed attempt with a scheduled successor, or a final failure that goes
  to the dead-letter set and may disable the subscription. A poller moves due retries back to the queue, a
  recovery scan re-enqueues whatever PostgreSQL says is due, a reconciler keeps the Redis dead-letter list
  in step with the database, and a cleaner applies retention. PostgreSQL is the only source of truth: the
  queue, the retry schedule, the dead-letter list and the subscription cache in Redis may lose anything.

  \<^bold>\<open>How it is modelled.\<close> A table is a list of row records and a repository call is a function of the database,
  the arguments and a \<open>call\<close>, which fixes the server's clock, the generated id and every fault (a failed
  statement, a failed \<^verbatim>\<open>BEGIN\<close> or \<^verbatim>\<open>COMMIT\<close>, a commit whose reply is lost). Redis is a record of its keys and a
  command a function of it and of whether it ran and answered. Errors are values of a sum type; panics are
  \<open>None\<close> or a flag. Clock readings, random bytes, jitter and the HTTP outcome are arguments, one for each
  place of the code that has one, so the theorems hold for all of them. Methods that hold a lock
  throughout are single steps; where the code gives others room between two steps (between the read and
  the write of an update, between the reads of the reconciler, between any two repository calls) the
  interference is an argument or a step of a transition relation. A delivery goroutine is modelled twice: as the
  function \<open>Process\<close>, and cut into a step for each use of shared state (\<open>wstep\<close>), so that any number of them interleave; the two
  are proved equal for a goroutine that runs alone. Machine integers wrap at 64 bits where the
  code can reach the bound, and float64 arithmetic is rounded as IEEE 754 does.

  \<^bold>\<open>Theories and sources\<close> (paths below \<^verbatim>\<open>src/internal/\<close> unless given)
  \<^item> \<open>Prelude\<close>: int64, tables as keyed lists, the locales \<open>step_invariant\<close> and \<open>simulation\<close>. \<open>Utf8\<close>, \<open>Strconv\<close>, \<open>Float64\<close>,
    \<open>Calendar\<close>: what the sources use of the standard library's strings, number and duration parsing,
    float64 and RFC 3339 timestamps.
  \<^item> \<open>Domain\<close>: \<^verbatim>\<open>domain/\<close>. \<open>Schema\<close>: the tables of \<^verbatim>\<open>migrations/\<close>, statements, transactions and
    \<^verbatim>\<open>store/errors.go\<close>. \<open>Delivery_Store\<close>: \<^verbatim>\<open>store/delivery_lifecycle.go\<close>, \<^verbatim>\<open>delivery_log_repo.go\<close>,
    \<^verbatim>\<open>dlq.go\<close>. \<open>Subscription_Store\<close>: \<^verbatim>\<open>store/subscription_repo.go\<close>.
  \<^item> \<open>Store_Invariants\<close>, \<open>Store_Steps\<close>: the database invariant \<open>db_inv\<close> and that every operation keeps it under
    every fault. \<open>Store_History\<close>, \<open>Store_Correctness\<close>: the relation \<open>db_step\<close> of any caller issuing any call,
    and what holds along its runs. \<open>Store_Contracts\<close>: the functional contract of each lifecycle operation.
  \<^item> \<open>Redis\<close>: \<^verbatim>\<open>infra/queue/\<close>, \<^verbatim>\<open>infra/scheduler/\<close>. \<open>Registry\<close>: \<^verbatim>\<open>infra/registry/\<close>. \<open>Rate_Limits\<close>:
    \<^verbatim>\<open>infra/ratelimit/\<close>, \<^verbatim>\<open>infra/semaphore/\<close>. \<open>Breaker\<close>: \<^verbatim>\<open>infra/breaker/\<close>. \<open>Metrics\<close>: \<^verbatim>\<open>infra/metrics/\<close>.
    \<open>Signature\<close>: \<^verbatim>\<open>infra/signature/\<close>, \<^verbatim>\<open>infra/idgen/\<close>. \<open>Safedial\<close>: \<^verbatim>\<open>infra/safedial/\<close>.
  \<^item> \<open>Subscription_State\<close>, \<open>Cache_Coherence\<close>: \<^verbatim>\<open>subscription/state.go\<close> and the coherence of its cache.
  \<^item> \<open>Backoff\<close>, \<open>Deliverer\<close>: \<^verbatim>\<open>worker/delivery.go\<close> and the delay of \<^verbatim>\<open>worker/retry.go\<close>; \<open>Delivery_Correctness\<close>,
    \<open>Delivery_Outcomes\<close>: what one attempt does. \<open>Workers\<close>: the same code as a goroutine, step by step. \<open>Leases\<close>:
    mutual exclusion by leases as an abstract protocol; \<open>Lease_Store\<close>: what every repository call is in that
    protocol; \<open>Crew\<close>: interleaved goroutines follow it; \<open>Permits\<close>, \<open>Probes\<close>: their semaphores and breakers;
    \<open>Retired_Permits\<close>: a run in which a subscription exceeds its limit;
    \<open>Interleavings\<close>: their place in the store's histories. \<open>Recovery\<close>: \<^verbatim>\<open>worker/retry.go\<close>, \<^verbatim>\<open>worker/periodic.go\<close>.
    \<open>Maintenance\<close>: \<^verbatim>\<open>worker/cleanup.go\<close>. \<open>Processes\<close>: \<^verbatim>\<open>worker/pool.go\<close>, \<^verbatim>\<open>lifecycle/supervisor.go\<close>.
  \<^item> \<open>Http\<close>: \<^verbatim>\<open>api/middleware.go\<close>, \<^verbatim>\<open>request.go\<close>, \<^verbatim>\<open>response.go\<close>. \<open>Cursor_Codec\<close>: page tokens. \<open>Api\<close>:
    \<^verbatim>\<open>api/handler_*.go\<close>, \<^verbatim>\<open>dto.go\<close>. \<open>Api_Server\<close>: \<^verbatim>\<open>api/server.go\<close>. \<open>Api_Ingest\<close>: the theorems about ingestion.
  \<^item> \<open>Config\<close>: \<^verbatim>\<open>config/config.go\<close>. \<open>Connections\<close>: \<^verbatim>\<open>store/db.go\<close>. \<open>Wiring\<close>, \<open>Service\<close>:
    \<^verbatim>\<open>src/cmd/server/main.go\<close> and the properties in which several parts meet. \<open>System\<close>: the transition system of the
    whole service.

  \<^bold>\<open>What is shown\<close>
  \<^item> No event is lost and none is worked on twice: along every history of calls and faults, the last attempt of
    an event is pending, delivered or a final failure, never a failed attempt without its successor; an event
    has at most one live attempt; an attempt ends once; a claim excludes other workers for its lease, and under
    every interleaving in which deliveries end within their leases no two goroutines work on one attempt; a dead letter
    is replayed or acknowledged once; retries are numbered and carry the event unchanged.
  \<^item> The delivery engine sends only what it has claimed and signs what it sends, its outcome is the one the
    response and the attempt count call for, and it gives back every permit and breaker token it takes; among
    interleaved goroutines no semaphore is overdrawn and no breaker is left half-open without its probe. Every history of the whole service (requests, deliveries, scans,
    maintenance, restarts, any loss in Redis) and every interleaving of goroutines is, to the database, a run of the store's relation, so the
    guarantees above are guarantees of the service.
  \<^item> Ingestion acts only for requests signed with an accepted secret inside the drift window, exactly; an
    acknowledged event is stored and due; after the loss of everything in Redis the next scan enqueues it; a
    repeated key is a duplicate, also across retention when records outlive two drift windows.
  \<^item> The API answers each request exactly once through panics and middleware, and no management endpoint acts
    without the configured key.
  \<^item> Maintenance: the recovery scan terminates and is complete, the reconciler converges and never unlists a
    flagged row, retention keeps what is live.
  \<^item> Control: cached reads are current, one probe at a time in the breaker, the rate limiter admits at most its
    burst plus the refill, pool and supervisor are bounded and stop together, delays are within their bounds.
  \<^item> Boundaries: only vetted addresses are dialled and the blocked IPv4 set is exact; the signed message
    determines its parts; page tokens round-trip and paging visits every row; a malformed configuration
    stops the service, one that loads gives a service that can work, and no start leaks a connection.

  \<^bold>\<open>Interfaces.\<close> The laws that one part relies on in another are locales, interpreted on the model's own
  operations: \<open>step_invariant\<close> (store, cached boundary, breaker, registry, pool, supervisor, lease protocol, permits and
  probes of the crew), \<open>simulation\<close> (the crew of goroutines by the lease protocol), \<open>fifo\<close> (work
  queue), \<open>dead_letter_index\<close> (Redis list), \<open>responder\<close> (the mux behind the middleware).

  \<^bold>\<open>Termination.\<close> The two paging loops of the recovery scan have no bound in the code and are
  \<^verbatim>\<open>partial_function (option)\<close>; that they return is proved for a scan without concurrent writers. The other
  loops over strings, years and durations are functions with a termination proof, and there is no fuel. A goroutine
  returns after at most eleven steps of its own, whatever the others do (\<open>wstep_progress\<close>).

  \<^bold>\<open>Parameters.\<close> PostgreSQL's uuid and jsonb input, HMAC-SHA256, SHA-256, the JSON codec, \<^verbatim>\<open>url.Parse\<close>, Go's
  lenient time parser, resolver and dialer, the HTTP client, the drivers of \<open>Connections\<close>, and the handlers of
  pprof and expvar.

  \<^bold>\<open>Relied on in the interleavings.\<close> \<open>crew_step\<close> assumes that a goroutine reports before its lease runs out
  (\<open>lease_outlives_request\<close> shows that a configuration which loads leaves room for the request), that
  \<^verbatim>\<open>gen_random_uuid()\<close> does not return an id a goroutine has in hand, and that breaker generations stay within int64.

  \<^bold>\<open>Not modelled.\<close> Logging and request contexts other than cancellation of pool and supervisor; the 32-bit
  range and the \<^verbatim>\<open>VARCHAR\<close> limits of columns; the stripe hash of the subscription locks (two ids on one stripe only
  wait for each other); the texts of joined configuration errors beyond the variable or check they name; the
  embedded documents; redirects of unclean paths; the rounding of intervals above 2^23 seconds; the Go
  interfaces and constructors that only store their arguments; \<^verbatim>\<open>testutil/\<close>.
\<close>

end
